(* ===== verification/Prelude.thy ===== *)
theory Prelude
  imports Main "HOL-Library.Word"
begin

text \<open>
  Shared vocabulary of the development: the machine types of the Rust sources, the
  \<^verbatim>\<open>std::io::Result\<close> values, the byte reader behind \<^verbatim>\<open>AsyncRead\<close>, the byte sink behind
  \<^verbatim>\<open>AsyncWrite\<close>, and big-endian encodings. A Rust \<^verbatim>\<open>String\<close> is a \<^typ>\<open>string\<close> holding its
  UTF-8 bytes, a \<^verbatim>\<open>Vec<u8>\<close> is a list of 8-bit words.
\<close>

unbundle bit_operations_syntax

section \<open>Machine types and results\<close>

type_synonym byte = "8 word"
type_synonym u8 = "8 word"
type_synonym u16 = "16 word"
type_synonym u32 = "32 word"
type_synonym u64 = "64 word"

text \<open>The error kinds of \<^verbatim>\<open>std::io::ErrorKind\<close> that the sources create or inspect.\<close>

datatype io_error =
    UnexpectedEof | InvalidData | InvalidInput | PermissionDenied | BrokenPipe
  | TimedOut | WouldBlock | AlreadyExists | Unsupported | ConnectionReset
  | ConnectionAborted | NotConnected | WriteZero | OtherError

type_synonym 'a io_result = "io_error + 'a"

definition io_bind :: "'e + 'a \<Rightarrow> ('a \<Rightarrow> 'e + 'b) \<Rightarrow> 'e + 'b" where
  "io_bind r k = (case r of Inl e \<Rightarrow> Inl e | Inr x \<Rightarrow> k x)"

definition is_ok :: "'e + 'a \<Rightarrow> bool" where
  "is_ok r = (case r of Inl _ \<Rightarrow> False | Inr _ \<Rightarrow> True)"

lemma io_bind_simps [simp]:
  "io_bind (Inl e) k = Inl e"
  "io_bind (Inr x) k = k x"
  by (simp_all add: io_bind_def)

lemma is_ok_simps [simp]: "\<not> is_ok (Inl e)" "is_ok (Inr x)"
  by (simp_all add: is_ok_def)

lemma io_bind_Inr_iff: "io_bind r k = Inr y \<longleftrightarrow> (\<exists>x. r = Inr x \<and> k x = Inr y)"
  by (cases r) auto

lemma io_bind_Inl_iff: "io_bind r k = Inl e \<longleftrightarrow> r = Inl e \<or> (\<exists>x. r = Inr x \<and> k x = Inl e)"
  by (cases r) auto

text \<open>Lemma collections: equations that compute encoders and decoders, and the invariant
  preservation facts of the stateful components.\<close>

named_theorems wire_simps "equations of the byte encoders and decoders"
named_theorems inv_intros "operations preserve the component invariants"

section \<open>Readers\<close>

text \<open>
  A reader is what an \<^verbatim>\<open>AsyncRead\<close> will still deliver: the bytes to come, and how the
  transport ends after them, at end of file (\<open>None\<close>) or with a transport error.
\<close>

datatype reader = Reader (avail: "byte list") (fault: "io_error option")

definition end_of :: "reader \<Rightarrow> io_error" where
  "end_of r = (case fault r of None \<Rightarrow> UnexpectedEof | Some e \<Rightarrow> e)"

definition read_exact :: "nat \<Rightarrow> reader \<Rightarrow> (byte list \<times> reader) io_result" where
  "read_exact n r =
     (if n \<le> length (avail r)
      then Inr (take n (avail r), Reader (drop n (avail r)) (fault r))
      else Inl (end_of r))"

text \<open>One \<^verbatim>\<open>read\<close> into a one-byte buffer: \<open>None\<close> is the \<^verbatim>\<open>Ok(0)\<close> of end of file.\<close>

definition read_byte :: "reader \<Rightarrow> (byte option \<times> reader) io_result" where
  "read_byte r =
     (case avail r of
        b # bs \<Rightarrow> Inr (Some b, Reader bs (fault r))
      | [] \<Rightarrow> (case fault r of None \<Rightarrow> Inr (None, r) | Some e \<Rightarrow> Inl e))"

text \<open>One \<^verbatim>\<open>read\<close> into a buffer: between one byte and what fits, as the transport has it; nothing at
  end of file.\<close>

definition read_some :: "nat \<Rightarrow> nat \<Rightarrow> reader \<Rightarrow> (byte list \<times> reader) io_result" where
  "read_some cap want r =
     (if avail r = [] then (case fault r of None \<Rightarrow> Inr ([], r) | Some e \<Rightarrow> Inl e)
      else let n = max 1 (min want cap) in Inr (take n (avail r), Reader (drop n (avail r)) (fault r)))"

lemma read_exact_append [wire_simps]:
  "length xs = n \<Longrightarrow> read_exact n (Reader (xs @ ys) f) = Inr (xs, Reader ys f)"
  by (simp add: read_exact_def)

lemma read_exact_short [wire_simps]:
  "length xs < n \<Longrightarrow> read_exact n (Reader xs f) = Inl (end_of (Reader xs f))"
  by (simp add: read_exact_def end_of_def)

lemma read_exact_InrE:
  assumes "read_exact n r = Inr (xs, r')"
  obtains "avail r = xs @ avail r'" "length xs = n" "fault r' = fault r"
  using assms by (cases r) (auto simp: read_exact_def split: if_splits)

lemma read_byte_Cons [wire_simps]: "read_byte (Reader (b # bs) f) = Inr (Some b, Reader bs f)"
  by (simp add: read_byte_def)

section \<open>Sinks\<close>

text \<open>
  A sink is an \<^verbatim>\<open>AsyncWrite\<close> as its writer sees it: the payloads of the successful and
  partial \<^verbatim>\<open>write_all\<close> calls in order, and a script of the outcomes of the operations to
  come. \<open>None\<close> is success, \<open>Some (e, n)\<close> fails with \<open>e\<close> after \<open>n\<close> bytes; an exhausted
  script means the transport works from then on.
\<close>

record sink =
  written :: "byte list list"
  script :: "(io_error \<times> nat) option list"

definition write_all :: "byte list \<Rightarrow> sink \<Rightarrow> unit io_result \<times> sink" where
  "write_all bs k =
     (case script k of
        [] \<Rightarrow> (Inr (), k\<lparr>written := written k @ [bs]\<rparr>)
      | None # sc \<Rightarrow> (Inr (), k\<lparr>written := written k @ [bs], script := sc\<rparr>)
      | Some (e, n) # sc \<Rightarrow> (Inl e, k\<lparr>written := written k @ [take n bs], script := sc\<rparr>))"

definition flush :: "sink \<Rightarrow> unit io_result \<times> sink" where
  "flush k =
     (case script k of
        [] \<Rightarrow> (Inr (), k)
      | None # sc \<Rightarrow> (Inr (), k\<lparr>script := sc\<rparr>)
      | Some (e, n) # sc \<Rightarrow> (Inl e, k\<lparr>script := sc\<rparr>))"

abbreviation wire :: "sink \<Rightarrow> byte list" where
  "wire k \<equiv> concat (written k)"

definition healthy :: "sink \<Rightarrow> bool" where
  "healthy k \<longleftrightarrow> (\<forall>o'\<in>set (script k). o' = None)"

lemma write_all_healthy:
  "healthy k \<Longrightarrow> \<exists>k'. write_all bs k = (Inr (), k') \<and> healthy k' \<and> written k' = written k @ [bs]"
  by (auto simp: write_all_def healthy_def split: list.splits option.splits)

lemma flush_healthy:
  "healthy k \<Longrightarrow> \<exists>k'. flush k = (Inr (), k') \<and> healthy k' \<and> written k' = written k"
  by (auto simp: flush_def healthy_def split: list.splits option.splits)

lemma write_all_okD: "write_all bs k = (Inr (), k') \<Longrightarrow> written k' = written k @ [bs]"
  by (auto simp: write_all_def split: list.splits option.splits)

lemma write_all_errD:
  "write_all bs k = (Inl e, k') \<Longrightarrow> \<exists>n. written k' = written k @ [take n bs]"
  by (auto simp: write_all_def split: list.splits option.splits)

lemma flush_written [simp]: "written (snd (flush k)) = written k"
  by (auto simp: flush_def split: list.splits option.splits)

lemma flush_writtenD: "flush k = (r, k') \<Longrightarrow> written k' = written k"
  using flush_written [of k] by simp

section \<open>Big-endian integers\<close>

definition to_be_bytes16 :: "u16 \<Rightarrow> byte list" where
  "to_be_bytes16 w = [ucast (drop_bit 8 w), ucast w]"

definition from_be_bytes16 :: "byte \<Rightarrow> byte \<Rightarrow> u16" where
  "from_be_bytes16 a b = push_bit 8 (ucast a) OR ucast b"

definition to_be_bytes32 :: "u32 \<Rightarrow> byte list" where
  "to_be_bytes32 w =
     [ucast (drop_bit 24 w), ucast (drop_bit 16 w), ucast (drop_bit 8 w), ucast w]"

definition from_be_bytes32 :: "byte \<Rightarrow> byte \<Rightarrow> byte \<Rightarrow> byte \<Rightarrow> u32" where
  "from_be_bytes32 a b c d =
     push_bit 24 (ucast a) OR push_bit 16 (ucast b) OR push_bit 8 (ucast c) OR ucast d"

lemma be16_roundtrip: "from_be_bytes16 (ucast (drop_bit 8 w)) (ucast w) = w"
  unfolding from_be_bytes16_def
  by (rule bit_word_eqI) (auto simp: bit_simps)

lemma be16_inverse:
  "ucast (drop_bit 8 (from_be_bytes16 a b)) = a" "ucast (from_be_bytes16 a b) = b"
  unfolding from_be_bytes16_def
  by (rule bit_word_eqI; force simp: bit_simps dest: bit_imp_le_length)+

lemma be32_roundtrip:
  "from_be_bytes32 (ucast (drop_bit 24 w)) (ucast (drop_bit 16 w)) (ucast (drop_bit 8 w)) (ucast w) = w"
proof (rule bit_word_eqI)
  fix n assume "n < LENGTH(32)"
  then consider "n < 8" | "8 \<le> n" "n < 16" | "16 \<le> n" "n < 24" | "24 \<le> n" "n < 32"
    by fastforce
  then show "bit (from_be_bytes32 (ucast (drop_bit 24 w)) (ucast (drop_bit 16 w))
      (ucast (drop_bit 8 w)) (ucast w)) n = bit w n"
    by cases (auto simp: from_be_bytes32_def bit_simps)
qed

lemma be32_inverse:
  "ucast (drop_bit 24 (from_be_bytes32 a b c d)) = a"
  "ucast (drop_bit 16 (from_be_bytes32 a b c d)) = b"
  "ucast (drop_bit 8 (from_be_bytes32 a b c d)) = c"
  "ucast (from_be_bytes32 a b c d) = d"
  unfolding from_be_bytes32_def
  by (rule bit_word_eqI; force simp: bit_simps dest: bit_imp_le_length)+

lemma length_be_bytes [simp]:
  "length (to_be_bytes16 w) = 2" "length (to_be_bytes32 v) = 4"
  by (simp_all add: to_be_bytes16_def to_be_bytes32_def)

end
