(* ===== verification/Rust_Strings.thy ===== *)
theory Rust_Strings
  imports Prelude "HOL-Library.Sublist"
begin

text \<open>
  The standard library's string functions that the sources use: UTF-8 validation and lossy
  decoding, decimal \<^verbatim>\<open>to_string\<close> and \<^verbatim>\<open>parse\<close>, \<^verbatim>\<open>split\<close>, \<^verbatim>\<open>split_once\<close>, \<^verbatim>\<open>join\<close>
  and \<^verbatim>\<open>trim\<close>. They are language semantics, so none of them stands for a line of the
  repository; the components below call them where the code does.
\<close>

section \<open>Strings and bytes\<close>

definition as_bytes :: "string \<Rightarrow> byte list" where
  "as_bytes s = map of_char s"

definition of_bytes :: "byte list \<Rightarrow> string" where
  "of_bytes bs = map (\<lambda>b. char_of (unat b)) bs"

lemma unat_of_char: "unat (of_char c :: byte) = of_char c"
proof -
  have "(of_char c :: nat) < 256" by (metis mod_less_divisor of_char_mod_256 zero_less_numeral)
  moreover have "(of_char c :: byte) = of_nat (of_char c)" by (simp add: of_nat_of_char)
  ultimately show ?thesis by (simp add: unat_of_nat take_bit_eq_mod)
qed

lemma of_bytes_as_bytes [simp]: "of_bytes (as_bytes s) = s"
  by (induction s) (simp_all add: of_bytes_def as_bytes_def unat_of_char)

lemma as_bytes_of_bytes [simp]: "as_bytes (of_bytes bs) = bs"
proof (induction bs)
  case (Cons b bs)
  have "unat b < 2 ^ LENGTH(8)" by (rule unsigned_less)
  then have "(of_char (char_of (unat b)) :: nat) = unat b" by simp
  then have "unat (of_char (char_of (unat b)) :: byte) = unat b"
    by (simp only: unat_of_char)
  then have "(of_char (char_of (unat b)) :: byte) = b"
    by (simp only: unsigned_word_eqI)
  then show ?case using Cons by (simp add: of_bytes_def as_bytes_def)
qed (simp add: of_bytes_def as_bytes_def)

lemma length_as_bytes [simp]: "length (as_bytes s) = length s"
  by (simp add: as_bytes_def)

lemma length_of_bytes [simp]: "length (of_bytes bs) = length bs"
  by (simp add: of_bytes_def)

lemma as_bytes_append [simp]: "as_bytes (s @ t) = as_bytes s @ as_bytes t"
  by (simp add: as_bytes_def)

lemma as_bytes_inject [simp]: "as_bytes s = as_bytes t \<longleftrightarrow> s = t"
  by (metis of_bytes_as_bytes)

section \<open>UTF-8\<close>

definition is_cont :: "byte \<Rightarrow> bool" where
  "is_cont b \<longleftrightarrow> b AND 192 = 128"

definition safe_get :: "byte list \<Rightarrow> nat \<Rightarrow> byte" where
  "safe_get xs i = (if i < length xs then xs ! i else 0)"

definition utf8_char_width :: "byte \<Rightarrow> nat" where
  "utf8_char_width b =
     (if 0xC2 \<le> b \<and> b \<le> 0xDF then 2
      else if 0xE0 \<le> b \<and> b \<le> 0xEF then 3
      else if 0xF0 \<le> b \<and> b \<le> 0xF4 then 4
      else 0)"

definition second_ok3 :: "byte \<Rightarrow> byte \<Rightarrow> bool" where
  "second_ok3 b c \<longleftrightarrow>
     (b = 0xE0 \<and> 0xA0 \<le> c \<and> c \<le> 0xBF) \<or>
     (0xE1 \<le> b \<and> b \<le> 0xEC \<and> 0x80 \<le> c \<and> c \<le> 0xBF) \<or>
     (b = 0xED \<and> 0x80 \<le> c \<and> c \<le> 0x9F) \<or>
     (0xEE \<le> b \<and> b \<le> 0xEF \<and> 0x80 \<le> c \<and> c \<le> 0xBF)"

definition second_ok4 :: "byte \<Rightarrow> byte \<Rightarrow> bool" where
  "second_ok4 b c \<longleftrightarrow>
     (b = 0xF0 \<and> 0x90 \<le> c \<and> c \<le> 0xBF) \<or>
     (0xF1 \<le> b \<and> b \<le> 0xF3 \<and> 0x80 \<le> c \<and> c \<le> 0xBF) \<or>
     (b = 0xF4 \<and> 0x80 \<le> c \<and> c \<le> 0x8F)"

text \<open>
  One decoding step from a lead byte: whether a well-formed sequence starts here, and how
  many bytes after the lead byte belong to it or to the ill-formed sequence.
\<close>

definition utf8_next :: "byte \<Rightarrow> byte list \<Rightarrow> bool \<times> nat" where
  "utf8_next b xs =
     (if b < 128 then (True, 0)
      else if utf8_char_width b = 2 then
        (if is_cont (safe_get xs 0) then (True, 1) else (False, 0))
      else if utf8_char_width b = 3 then
        (if second_ok3 b (safe_get xs 0)
         then (if is_cont (safe_get xs 1) then (True, 2) else (False, 1)) else (False, 0))
      else if utf8_char_width b = 4 then
        (if second_ok4 b (safe_get xs 0)
         then (if is_cont (safe_get xs 1)
               then (if is_cont (safe_get xs 2) then (True, 3) else (False, 2)) else (False, 1))
         else (False, 0))
      else (False, 0))"

fun utf8_lossy :: "byte list \<Rightarrow> byte list" where
  "utf8_lossy [] = []"
| "utf8_lossy (b # xs) =
     (if fst (utf8_next b xs) then b # take (snd (utf8_next b xs)) xs else [0xEF, 0xBF, 0xBD])
     @ utf8_lossy (drop (snd (utf8_next b xs)) xs)"

fun utf8_valid :: "byte list \<Rightarrow> bool" where
  "utf8_valid [] = True"
| "utf8_valid (b # xs) =
     (fst (utf8_next b xs) \<and> utf8_valid (drop (snd (utf8_next b xs)) xs))"

definition from_utf8_lossy :: "byte list \<Rightarrow> string" where
  "from_utf8_lossy bs = of_bytes (utf8_lossy bs)"

definition from_utf8 :: "byte list \<Rightarrow> string option" where
  "from_utf8 bs = (if utf8_valid bs then Some (of_bytes bs) else None)"

lemma utf8_lossy_valid [simp]: "utf8_valid bs \<Longrightarrow> utf8_lossy bs = bs"
  by (induction bs rule: utf8_lossy.induct) auto

lemma utf8_next_ascii [simp]: "b < 128 \<Longrightarrow> utf8_next b xs = (True, 0)"
  by (simp add: utf8_next_def)

lemma utf8_valid_ascii_append: "\<forall>b\<in>set bs. b < 128 \<Longrightarrow> utf8_valid (bs @ xs) = utf8_valid xs"
  by (induction bs) auto

lemma utf8_valid_ascii: "\<forall>b\<in>set bs. b < 128 \<Longrightarrow> utf8_valid bs"
  using utf8_valid_ascii_append [of bs "[]"] by simp

lemma from_utf8_as_bytes: "utf8_valid (as_bytes s) \<Longrightarrow> from_utf8 (as_bytes s) = Some s"
  by (simp add: from_utf8_def)

lemma from_utf8_lossy_as_bytes [simp]: "utf8_valid (as_bytes s) \<Longrightarrow> from_utf8_lossy (as_bytes s) = s"
  by (simp add: from_utf8_lossy_def)

section \<open>Decimal integers\<close>

definition digit_char :: "nat \<Rightarrow> char" where
  "digit_char d = char_of (48 + d)"

definition digit_val :: "char \<Rightarrow> nat option" where
  "digit_val c =
     (if 48 \<le> (of_char c :: nat) \<and> (of_char c :: nat) \<le> 57 then Some (of_char c - 48) else None)"

fun nat_to_string :: "nat \<Rightarrow> string" where
  "nat_to_string n =
     (if n < 10 then [digit_char n] else nat_to_string (n div 10) @ [digit_char (n mod 10)])"

declare nat_to_string.simps [simp del]

fun parse_digits :: "nat \<Rightarrow> string \<Rightarrow> nat option" where
  "parse_digits acc [] = Some acc"
| "parse_digits acc (c # cs) =
     (case digit_val c of None \<Rightarrow> None | Some d \<Rightarrow> parse_digits (acc * 10 + d) cs)"

text \<open>\<^verbatim>\<open>str::parse\<close> for an unsigned type with the given maximum, and for \<^verbatim>\<open>i64\<close>.\<close>

definition parse_unsigned :: "nat \<Rightarrow> string \<Rightarrow> nat option" where
  "parse_unsigned maximum s =
     (let ds = (case s of c # cs \<Rightarrow> if c = CHR ''+'' then cs else s | [] \<Rightarrow> [])
      in if ds = [] then None
         else case parse_digits 0 ds of
                None \<Rightarrow> None
              | Some n \<Rightarrow> if n \<le> maximum then Some n else None)"

definition parse_i64 :: "string \<Rightarrow> int option" where
  "parse_i64 s =
     (case s of
        [] \<Rightarrow> None
      | c # cs \<Rightarrow>
          (if c = CHR ''-''
           then (if cs = [] then None
                 else case parse_digits 0 cs of
                        None \<Rightarrow> None
                      | Some n \<Rightarrow> if n \<le> 2 ^ 63 then Some (- int n) else None)
           else map_option int (parse_unsigned (2 ^ 63 - 1) s)))"

definition parse_u8 :: "string \<Rightarrow> u8 option" where
  "parse_u8 s = map_option of_nat (parse_unsigned 255 s)"

definition parse_u16 :: "string \<Rightarrow> u16 option" where
  "parse_u16 s = map_option of_nat (parse_unsigned 65535 s)"

definition parse_u32 :: "string \<Rightarrow> u32 option" where
  "parse_u32 s = map_option of_nat (parse_unsigned 4294967295 s)"

definition parse_usize :: "string \<Rightarrow> nat option" where
  "parse_usize s = parse_unsigned (2 ^ 64 - 1) s"

lemma of_char_digit_char: "d < 10 \<Longrightarrow> (of_char (digit_char d) :: nat) = 48 + d"
  by (simp add: digit_char_def)

lemma digit_val_digit_char [simp]: "d < 10 \<Longrightarrow> digit_val (digit_char d) = Some d"
  by (simp add: digit_val_def of_char_digit_char)

lemma parse_digits_append:
  "parse_digits acc (s @ t) =
     (case parse_digits acc s of None \<Rightarrow> None | Some n \<Rightarrow> parse_digits n t)"
  by (induction s arbitrary: acc) (auto split: option.splits)

lemma parse_digits_nat_to_string: "parse_digits 0 (nat_to_string n) = Some n"
proof (induction n rule: nat_to_string.induct)
  case (1 n)
  then show ?case
    by (cases "n < 10") (simp_all add: nat_to_string.simps [of n] parse_digits_append)
qed

lemma nat_to_string_digits: "c \<in> set (nat_to_string n) \<Longrightarrow> \<exists>d<10. c = digit_char d"
proof (induction n rule: nat_to_string.induct)
  case (1 n)
  show ?case
  proof (cases "n < 10")
    case True
    with "1.prems" show ?thesis by (auto simp: nat_to_string.simps [of n])
  next
    case False
    with "1.prems" consider "c \<in> set (nat_to_string (n div 10))" | "c = digit_char (n mod 10)"
      by (auto simp: nat_to_string.simps [of n])
    then show ?thesis
    proof cases
      case 1
      with "1.IH" False show ?thesis by blast
    next
      case 2
      then show ?thesis by (intro exI [of _ "n mod 10"]) simp
    qed
  qed
qed

lemma digit_char_neq:
  "d < 10 \<Longrightarrow> (of_char c :: nat) < 48 \<or> 57 < (of_char c :: nat) \<Longrightarrow> digit_char d \<noteq> c"
  using of_char_digit_char [of d] by auto

lemma nat_to_string_no_char:
  "(of_char c :: nat) < 48 \<or> 57 < (of_char c :: nat) \<Longrightarrow> c \<notin> set (nat_to_string n)"
  using nat_to_string_digits digit_char_neq by blast

lemma nat_to_string_neq_Nil [simp]: "nat_to_string n \<noteq> []"
  by (subst nat_to_string.simps) simp

lemma parse_unsigned_nat_to_string:
  assumes "n \<le> maximum"
  shows "parse_unsigned maximum (nat_to_string n) = Some n"
proof -
  obtain c cs where s: "nat_to_string n = c # cs" by (meson neq_Nil_conv nat_to_string_neq_Nil)
  have "CHR ''+'' \<notin> set (nat_to_string n)" by (rule nat_to_string_no_char) simp
  with s have "c \<noteq> CHR ''+''" by auto
  with s assms parse_digits_nat_to_string [of n] show ?thesis
    by (simp add: parse_unsigned_def)
qed

lemma nat_to_string_ascii: "\<forall>b\<in>set (as_bytes (nat_to_string n)). b < 128"
proof
  fix b assume "b \<in> set (as_bytes (nat_to_string n))"
  then obtain d where "d < 10" "b = of_char (digit_char d)"
    using nat_to_string_digits by (fastforce simp: as_bytes_def)
  then show "b < 128"
    by (simp add: word_less_nat_alt unat_of_char of_char_digit_char)
qed

section \<open>Splitting, joining, trimming\<close>

fun split_on :: "char \<Rightarrow> string \<Rightarrow> string list" where
  "split_on c [] = [[]]"
| "split_on c (x # xs) =
     (if x = c then [] # split_on c xs
      else case split_on c xs of [] \<Rightarrow> [[x]] | p # ps \<Rightarrow> (x # p) # ps)"

fun split_once :: "char \<Rightarrow> string \<Rightarrow> (string \<times> string) option" where
  "split_once c [] = None"
| "split_once c (x # xs) =
     (if x = c then Some ([], xs)
      else map_option (\<lambda>(a, b). (x # a, b)) (split_once c xs))"

fun join :: "string \<Rightarrow> string list \<Rightarrow> string" where
  "join sep [] = []"
| "join sep [s] = s"
| "join sep (s # t # ss) = s @ sep @ join sep (t # ss)"

lemma split_on_neq_Nil [simp]: "split_on c s \<noteq> []"
  by (induction s) (auto split: list.splits)

lemma split_on_no_sep: "c \<notin> set s \<Longrightarrow> split_on c s = [s]"
  by (induction s) auto

lemma split_on_append_sep: "c \<notin> set s \<Longrightarrow> split_on c (s @ c # t) = s # split_on c t"
  by (induction s) auto

lemma split_on_join:
  "ss \<noteq> [] \<Longrightarrow> \<forall>s\<in>set ss. c \<notin> set s \<Longrightarrow> split_on c (join [c] ss) = ss"
  by (induction "[c]" ss rule: join.induct) (auto simp: split_on_no_sep split_on_append_sep)

lemma split_once_append: "c \<notin> set a \<Longrightarrow> split_once c (a @ c # b) = Some (a, b)"
  by (induction a) auto

lemma split_once_None: "split_once c s = None \<longleftrightarrow> c \<notin> set s"
  by (induction s) auto

lemma split_once_SomeD: "split_once c s = Some (a, b) \<Longrightarrow> s = a @ c # b \<and> c \<notin> set a"
  by (induction s arbitrary: a) (auto split: if_splits)

text \<open>The UTF-8 encodings of the characters with the Unicode \<^verbatim>\<open>White_Space\<close> property.\<close>

definition whitespace :: "byte list list" where
  "whitespace =
     [[0x09], [0x0A], [0x0B], [0x0C], [0x0D], [0x20], [0xC2, 0x85], [0xC2, 0xA0],
      [0xE1, 0x9A, 0x80], [0xE2, 0x80, 0x80], [0xE2, 0x80, 0x81], [0xE2, 0x80, 0x82],
      [0xE2, 0x80, 0x83], [0xE2, 0x80, 0x84], [0xE2, 0x80, 0x85], [0xE2, 0x80, 0x86],
      [0xE2, 0x80, 0x87], [0xE2, 0x80, 0x88], [0xE2, 0x80, 0x89], [0xE2, 0x80, 0x8A],
      [0xE2, 0x80, 0xA8], [0xE2, 0x80, 0xA9], [0xE2, 0x80, 0xAF], [0xE2, 0x81, 0x9F],
      [0xE3, 0x80, 0x80]]"

text \<open>Drops every leading occurrence of one of the given non-empty prefixes.\<close>

function strip_prefixes :: "'a list list \<Rightarrow> 'a list \<Rightarrow> 'a list" where
  "strip_prefixes ws s =
     (case find (\<lambda>w. w \<noteq> [] \<and> prefix w s) ws of
        None \<Rightarrow> s
      | Some w \<Rightarrow> strip_prefixes ws (drop (length w) s))"
  by pat_completeness auto
termination
  by (relation "measure (\<lambda>(ws, s). length s)")
    (auto simp: find_Some_iff intro!: diff_less dest: prefix_length_le)

declare strip_prefixes.simps [simp del]

definition trim :: "string \<Rightarrow> string" where
  "trim s =
     of_bytes (rev (strip_prefixes (map rev whitespace)
       (rev (strip_prefixes whitespace (as_bytes s)))))"

definition trim_end_matches :: "char \<Rightarrow> string \<Rightarrow> string" where
  "trim_end_matches c s = rev (dropWhile (\<lambda>x. x = c) (rev s))"

lemma strip_prefixes_id: "\<forall>w\<in>set ws. w = [] \<or> \<not> prefix w s \<Longrightarrow> strip_prefixes ws s = s"
  by (subst strip_prefixes.simps) (auto simp: find_Some_iff split: option.splits)

lemma trim_id:
  assumes "\<forall>w\<in>set whitespace. \<not> prefix w (as_bytes s)"
    and "\<forall>w\<in>set whitespace. \<not> suffix w (as_bytes s)"
  shows "trim s = s"
proof -
  have "strip_prefixes whitespace (as_bytes s) = as_bytes s"
    using assms(1) by (intro strip_prefixes_id) blast
  moreover have "strip_prefixes (map rev whitespace) (rev (as_bytes s)) = rev (as_bytes s)"
    using assms(2) by (intro strip_prefixes_id) (auto simp: suffix_to_prefix)
  ultimately show ?thesis by (simp add: trim_def)
qed

lemma trim_end_matches_id: "s = [] \<or> last s \<noteq> c \<Longrightarrow> trim_end_matches c s = s"
  by (cases s rule: rev_cases) (simp_all add: trim_end_matches_def)

end
