(* ===== verification/String_Map.thy ===== *)
theory String_Map
  imports Rust_Strings
begin

text \<open>
  The settings text of \<^verbatim>\<open>src/core/string_map.rs\<close>: lines \<open>key=value\<close>. The hash map is a
  partial function; \<open>to_bytes\<close> takes the entries in the map's iteration order, which Rust
  leaves open, so its theorems hold for every order.
\<close>

type_synonym string_map = "string \<rightharpoonup> string"

abbreviation newline :: char where
  "newline \<equiv> CHR 0x0A"

definition insert_line :: "string \<Rightarrow> string_map \<Rightarrow> string_map" where
  "insert_line line m =
     (case split_once (CHR ''='') line of Some (key, value) \<Rightarrow> m(key \<mapsto> value) | None \<Rightarrow> m)"

definition from_bytes :: "byte list \<Rightarrow> string_map" where
  "from_bytes bytes = fold insert_line (split_on newline (from_utf8_lossy bytes)) Map.empty"

definition to_bytes :: "(string \<times> string) list \<Rightarrow> byte list" where
  "to_bytes entries =
     as_bytes (join [newline] (map (\<lambda>(key, value). key @ ''='' @ value) entries))"

text \<open>The entries that survive the text form: no separator inside a key or a line.\<close>

definition clean_entry :: "string \<times> string \<Rightarrow> bool" where
  "clean_entry e \<longleftrightarrow>
     CHR ''='' \<notin> set (fst e) \<and> newline \<notin> set (fst e) \<and> newline \<notin> set (snd e) \<and>
     utf8_valid (as_bytes (fst e)) \<and> utf8_valid (as_bytes (snd e))"

lemma is_cont_0 [simp]: "\<not> is_cont 0" "\<not> second_ok3 b 0" "\<not> second_ok4 b 0"
  by (simp_all add: is_cont_def second_ok3_def second_ok4_def)

lemma safe_get_append: "i < length xs \<Longrightarrow> safe_get (xs @ ys) i = safe_get xs i"
  by (simp add: safe_get_def nth_append)

lemma utf8_next_append:
  assumes "fst (utf8_next b xs)"
  shows "utf8_next b (xs @ ys) = utf8_next b xs \<and> snd (utf8_next b xs) \<le> length xs"
proof -
  have "i < length xs" if "safe_get xs i \<noteq> 0" for i
    using that by (auto simp: safe_get_def split: if_splits)
  then have len: "is_cont (safe_get xs i) \<Longrightarrow> i < length xs"
    "second_ok3 b (safe_get xs i) \<Longrightarrow> i < length xs"
    "second_ok4 b (safe_get xs i) \<Longrightarrow> i < length xs" for i
    using is_cont_0 by metis+
  then have get: "is_cont (safe_get xs i) \<Longrightarrow> is_cont (safe_get (xs @ ys) i)"
    "second_ok3 b (safe_get xs i) \<Longrightarrow> second_ok3 b (safe_get (xs @ ys) i)"
    "second_ok4 b (safe_get xs i) \<Longrightarrow> second_ok4 b (safe_get (xs @ ys) i)" for i
    by (simp_all add: safe_get_append)
  show ?thesis
    using assms len [of 0] len(1) [of 1] len(1) [of 2] get [of 0] get(1) [of 1] get(1) [of 2]
    unfolding utf8_next_def by (auto simp: Suc_le_eq split: if_splits)
qed

lemma utf8_valid_append: "utf8_valid xs \<Longrightarrow> utf8_valid (xs @ ys) = utf8_valid ys"
proof (induction xs rule: utf8_valid.induct)
  case (2 b xs)
  with utf8_next_append [of b xs ys] show ?case by simp
qed simp

lemma utf8_valid_join:
  "utf8_valid (as_bytes sep) \<Longrightarrow> \<forall>s\<in>set ss. utf8_valid (as_bytes s) \<Longrightarrow> utf8_valid (as_bytes (join sep ss))"
  by (induction sep ss rule: join.induct) (simp_all add: utf8_valid_append as_bytes_def)

lemma fold_insert_line_Some:
  "\<forall>e\<in>set es. clean_entry e \<Longrightarrow> distinct (map fst es) \<Longrightarrow>
   fold insert_line (map (\<lambda>(k, v). k @ ''='' @ v) es) m = m ++ map_of es"
proof (induction es arbitrary: m)
  case (Cons e es)
  obtain k v where e: "e = (k, v)" by (cases e)
  have "insert_line (k @ ''='' @ v) m = m(k \<mapsto> v)"
    using Cons.prems(1) e by (simp add: insert_line_def clean_entry_def split_once_append)
  then have "fold insert_line (map (\<lambda>(k, v). k @ ''='' @ v) (e # es)) m =
      fold insert_line (map (\<lambda>(k, v). k @ ''='' @ v) es) (m(k \<mapsto> v))"
    using e by simp
  also have "\<dots> = m(k \<mapsto> v) ++ map_of es"
    using Cons.prems by (intro Cons.IH) auto
  also have "\<dots> = m ++ map_of (e # es)"
    using Cons.prems(2) e by (simp add: map_add_upd_left dom_map_of_conv_image_fst)
  finally show ?case .
qed simp

lemma from_bytes_to_bytes:
  assumes "\<forall>e\<in>set es. clean_entry e" and "distinct (map fst es)"
  shows "from_bytes (to_bytes es) = map_of es"
proof (cases "es = []")
  case True
  then show ?thesis by (simp add: from_bytes_def to_bytes_def insert_line_def as_bytes_def
        from_utf8_lossy_def of_bytes_def)
next
  case False
  let ?ls = "map (\<lambda>(k, v). k @ ''='' @ v) es"
  have eq: "utf8_valid (as_bytes ''='')" "utf8_valid (as_bytes [newline])"
    by (simp_all add: as_bytes_def)
  have "\<forall>l\<in>set ?ls. utf8_valid (as_bytes l) \<and> newline \<notin> set l"
    using assms(1) by (auto simp: clean_entry_def utf8_valid_append as_bytes_def)
  then have "utf8_valid (as_bytes (join [newline] ?ls))" "split_on newline (join [newline] ?ls) = ?ls"
    using False by (blast intro: utf8_valid_join [OF eq(2)], intro split_on_join) simp_all
  then show ?thesis
    using fold_insert_line_Some [OF assms, of Map.empty] by (simp add: from_bytes_def to_bytes_def)
qed

section \<open>Properties of the settings text\<close>

text \<open>C30: Settings survive the text form: for entries with distinct keys and no separator
  inside, in whatever order the hash map iterates them, parsing the printed text gives the
  map back.\<close>

theorem settings_roundtrip:
  assumes "\<forall>e\<in>set es. clean_entry e" and "distinct (map fst es)" and "set es' = set es"
    and "length es' = length es"
  shows "from_bytes (to_bytes es') = map_of es"
proof -
  have "distinct es" using assms(2) by (simp add: distinct_map)
  then have "distinct es'" using assms(3,4) by (metis card_distinct distinct_card)
  moreover have "inj_on fst (set es')" using assms(2,3) by (simp add: distinct_map)
  ultimately have d: "distinct (map fst es')" by (simp add: distinct_map)
  then have "map_of es' = map_of es" using assms(2,3) by (metis map_of_inject_set)
  moreover have "\<forall>e\<in>set es'. clean_entry e" using assms(1,3) by blast
  ultimately show ?thesis using from_bytes_to_bytes d by metis
qed

theorem settings_roundtrip_witness:
  "from_bytes (to_bytes [(''session'', ''12''), (''v'', ''2'')]) =
   map_of [(''v'', ''2''), (''session'', ''12'')]"
  by (rule settings_roundtrip) (auto simp: clean_entry_def as_bytes_def)

end
