(* ===== verification/Padding.thy ===== *)
theory Padding
  imports String_Map
begin

text \<open>
  The padding scheme of \<^verbatim>\<open>src/core/padding.rs\<close>. Two functions come from crates and are
  parameters: \<open>md5\<close>, the 16-byte digest of the \<^verbatim>\<open>md-5\<close> crate, and \<open>rng\<close>, the
  \<^verbatim>\<open>random_range\<close> of the \<^verbatim>\<open>rand\<close> crate, which threads a generator state. The documented
  behaviour of the latter is \<open>rng_ok\<close>: a draw from \<open>a..b\<close> lies in the half-open range.
\<close>

type_synonym 'g rng = "int \<Rightarrow> int \<Rightarrow> 'g \<Rightarrow> int \<times> 'g"

definition rng_ok :: "'g rng \<Rightarrow> bool" where
  "rng_ok rng \<longleftrightarrow> (\<forall>a b g. a < b \<longrightarrow> a \<le> fst (rng a b g) \<and> fst (rng a b g) < b)"

definition CHECK_MARK :: int where
  "CHECK_MARK = -1"

definition DEFAULT_SCHEME :: "byte list" where
  "DEFAULT_SCHEME =
     as_bytes (join [newline]
       [''stop=8'', ''0=30-300'', ''1=100-400'',
        ''2=400-500,c,500-1000,c,500-1000,c,500-1000,c,500-1000'',
        ''3=9-9,500-1000'', ''4=500-1000'', ''5=500-1000'', ''6=500-1000'', ''7=500-1000''])"

record padding_factory =
  raw_scheme :: "byte list"
  stop :: u32
  md5 :: string
  scheme :: string_map

text \<open>The \<^verbatim>\<open>{byte:02x}\<close> format of one digest byte.\<close>

definition hex_digit :: "nat \<Rightarrow> char" where
  "hex_digit d = (if d < 10 then char_of (48 + d) else char_of (87 + d))"

definition hex02 :: "byte \<Rightarrow> string" where
  "hex02 b = [hex_digit (unat b div 16), hex_digit (unat b mod 16)]"

definition padding_new :: "(byte list \<Rightarrow> byte list) \<Rightarrow> byte list \<Rightarrow> padding_factory option" where
  "padding_new md5_digest raw =
     (let sch = from_bytes raw
      in case sch ''stop'' of
           None \<Rightarrow> None
         | Some text \<Rightarrow>
             (case parse_u32 text of
                None \<Rightarrow> None
              | Some st \<Rightarrow>
                  Some \<lparr>raw_scheme = raw, stop = st, md5 = concat (map hex02 (md5_digest raw)),
                        scheme = sch\<rparr>))"

text \<open>The \<^verbatim>\<open>as i32\<close> cast of an \<^verbatim>\<open>i64\<close>: the low 32 bits, read as two's complement.\<close>

definition as_i32 :: "int \<Rightarrow> int" where
  "as_i32 x = (x + 2 ^ 31) mod 2 ^ 32 - 2 ^ 31"

definition parse_range :: "'g rng \<Rightarrow> string \<Rightarrow> 'g \<Rightarrow> int option \<times> 'g" where
  "parse_range rng value g =
     (if value = ''c'' then (Some CHECK_MARK, g)
      else case split_once (CHR ''-'') value of
        None \<Rightarrow> (None, g)
      | Some (lo, hi) \<Rightarrow>
          (case parse_i64 lo of
             None \<Rightarrow> (None, g)
           | Some a \<Rightarrow>
               (case parse_i64 hi of
                  None \<Rightarrow> (None, g)
                | Some b \<Rightarrow>
                    (let (minimum, maximum) = (if a > b then (b, a) else (a, b))
                     in if minimum \<le> 0 \<or> maximum \<le> 0 then (None, g)
                        else if minimum = maximum then (Some (as_i32 minimum), g)
                        else (let (n, g') = rng minimum maximum g in (Some (as_i32 n), g'))))))"

fun filter_map_ranges :: "'g rng \<Rightarrow> string list \<Rightarrow> 'g \<Rightarrow> int list \<times> 'g" where
  "filter_map_ranges rng [] g = ([], g)"
| "filter_map_ranges rng (v # vs) g =
     (let (n, g1) = parse_range rng v g;
          (ns, g2) = filter_map_ranges rng vs g1
      in ((case n of None \<Rightarrow> ns | Some x \<Rightarrow> x # ns), g2))"

definition generate_record_payload_sizes ::
    "'g rng \<Rightarrow> padding_factory \<Rightarrow> u32 \<Rightarrow> 'g \<Rightarrow> int list \<times> 'g" where
  "generate_record_payload_sizes rng pf packet g =
     (case scheme pf (nat_to_string (unat packet)) of
        None \<Rightarrow> ([], g)
      | Some value \<Rightarrow> filter_map_ranges rng (split_on (CHR '','') value) g)"

section \<open>Bounds of the generated sizes\<close>

text \<open>Every size is an \<^verbatim>\<open>i32\<close>, whatever the scheme says.\<close>

lemma as_i32_bounds: "- (2 ^ 31) \<le> as_i32 x \<and> as_i32 x < 2 ^ 31"
proof -
  have "0 \<le> (x + 2 ^ 31) mod 2 ^ 32 \<and> (x + 2 ^ 31) mod 2 ^ 32 < 2 ^ 32"
    by (simp add: pos_mod_bound)
  then show ?thesis by (simp add: as_i32_def)
qed

lemma as_i32_id: "- (2 ^ 31) \<le> x \<Longrightarrow> x < 2 ^ 31 \<Longrightarrow> as_i32 x = x"
  by (simp add: as_i32_def)

text \<open>
  A scheme entry with bounds below \<open>2 ^ 31\<close> draws a size between its bounds; with equal
  bounds it is that size.
\<close>

definition entry_within :: "int \<Rightarrow> int \<Rightarrow> string \<Rightarrow> bool" where
  "entry_within lo hi v \<longleftrightarrow>
     v = ''c'' \<or>
     (case split_once (CHR ''-'') v of
        None \<Rightarrow> True
      | Some (x, y) \<Rightarrow>
          (case (parse_i64 x, parse_i64 y) of
             (Some a, Some b) \<Rightarrow> a \<le> 0 \<or> b \<le> 0 \<or> (lo \<le> a \<and> lo \<le> b \<and> a \<le> hi \<and> b \<le> hi)
           | _ \<Rightarrow> True))"

lemma parse_range_SomeD:
  assumes "parse_range rng v g = (Some n, g')" and "v \<noteq> ''c''"
  shows "\<exists>x y a b. split_once (CHR ''-'') v = Some (x, y) \<and> parse_i64 x = Some a \<and> parse_i64 y = Some b \<and>
    0 < min a b \<and> n = as_i32 (if a = b then a else fst (rng (min a b) (max a b) g))"
proof -
  obtain x y where xy: "split_once (CHR ''-'') v = Some (x, y)"
    using assms by (cases "split_once (CHR ''-'') v") (auto simp: parse_range_def)
  obtain a where a: "parse_i64 x = Some a"
    using assms xy by (cases "parse_i64 x") (auto simp: parse_range_def)
  obtain b where b: "parse_i64 y = Some b"
    using assms xy a by (cases "parse_i64 y") (auto simp: parse_range_def)
  consider "a = b" | "a < b" | "b < a" by linarith
  then have "0 < min a b \<and> n = as_i32 (if a = b then a else fst (rng (min a b) (max a b) g))"
    using assms xy a b
    by cases (simp_all add: parse_range_def split: if_splits prod.splits)
  with xy a b show ?thesis by blast
qed

lemma parse_range_within:
  assumes "rng_ok rng" and "entry_within lo hi v" and "hi < 2 ^ 31" and "- (2 ^ 31) \<le> lo"
    and "parse_range rng v g = (Some n, g')"
  shows "n = CHECK_MARK \<or> (lo \<le> n \<and> n \<le> hi)"
proof (cases "v = ''c''")
  case True
  with assms(5) show ?thesis by (simp add: parse_range_def)
next
  case False
  with parse_range_SomeD [OF assms(5)] obtain x y a b where v:
    "split_once (CHR ''-'') v = Some (x, y)" "parse_i64 x = Some a" "parse_i64 y = Some b"
    and pos: "0 < min a b"
    and n: "n = as_i32 (if a = b then a else fst (rng (min a b) (max a b) g))" by blast
  define m where "m = (if a = b then a else fst (rng (min a b) (max a b) g))"
  have "a \<noteq> b \<Longrightarrow> min a b < max a b" by simp
  with assms(1) have "min a b \<le> m \<and> m \<le> max a b"
    by (simp add: m_def rng_ok_def less_imp_le)
  moreover have "lo \<le> min a b \<and> max a b \<le> hi"
    using assms(2) False v pos by (simp add: entry_within_def)
  ultimately have "lo \<le> m \<and> m \<le> hi" by linarith
  then show ?thesis using n assms(3,4) by (simp add: m_def as_i32_id)
qed

lemma filter_map_ranges_within:
  assumes "rng_ok rng" and "\<forall>v\<in>set vs. entry_within lo hi v" and "hi < 2 ^ 31" and "- (2 ^ 31) \<le> lo"
  shows "\<forall>n\<in>set (fst (filter_map_ranges rng vs g)). n = CHECK_MARK \<or> (lo \<le> n \<and> n \<le> hi)"
  using assms(2)
proof (induction vs arbitrary: g)
  case (Cons v vs)
  obtain n g1 where n: "parse_range rng v g = (n, g1)" by fastforce
  obtain ns g2 where ns: "filter_map_ranges rng vs g1 = (ns, g2)" by fastforce
  have "\<forall>m\<in>set ns. m = CHECK_MARK \<or> (lo \<le> m \<and> m \<le> hi)"
    using Cons.IH [of g1] Cons.prems ns by simp
  moreover have "n = Some m \<Longrightarrow> m = CHECK_MARK \<or> (lo \<le> m \<and> m \<le> hi)" for m
    using parse_range_within [OF assms(1) _ assms(3,4), of v g m g1] Cons.prems n by simp
  ultimately show ?case using n ns by (auto split: option.splits)
qed simp

lemma parse_range_i32:
  assumes "parse_range rng v g = (Some n, g')"
  shows "- (2 ^ 31) \<le> n \<and> n < 2 ^ 31"
proof (cases "v = ''c''")
  case True
  with assms show ?thesis by (auto simp: parse_range_def CHECK_MARK_def)
next
  case False
  with parse_range_SomeD [OF assms] as_i32_bounds show ?thesis by blast
qed

lemma filter_map_ranges_i32:
  "n \<in> set (fst (filter_map_ranges rng vs g)) \<Longrightarrow> - (2 ^ 31) \<le> n \<and> n < 2 ^ 31"
proof (induction vs arbitrary: g)
  case (Cons v vs)
  obtain m g1 where m: "parse_range rng v g = (m, g1)" by fastforce
  obtain ns g2 where ns: "filter_map_ranges rng vs g1 = (ns, g2)" by fastforce
  have "m = Some n \<or> n \<in> set ns" using Cons.prems m ns by (auto split: option.splits)
  then show ?case using Cons.IH [of g1] ns parse_range_i32 [of rng v g n g1] m by auto
qed simp

section \<open>The default scheme\<close>

definition default_entries :: "(string \<times> string) list" where
  "default_entries =
     [(''stop'', ''8''), (''0'', ''30-300''), (''1'', ''100-400''),
      (''2'', ''400-500,c,500-1000,c,500-1000,c,500-1000,c,500-1000''),
      (''3'', ''9-9,500-1000''), (''4'', ''500-1000''), (''5'', ''500-1000''),
      (''6'', ''500-1000''), (''7'', ''500-1000'')]"

lemma ascii_string_valid: "\<forall>c\<in>set s. (of_char c :: nat) < 128 \<Longrightarrow> utf8_valid (as_bytes s)"
  by (rule utf8_valid_ascii) (auto simp: as_bytes_def word_less_nat_alt unat_of_char)

lemma default_entries_clean: "\<forall>e\<in>set default_entries. clean_entry e"
  by (simp add: default_entries_def clean_entry_def ascii_string_valid)

lemma from_bytes_DEFAULT_SCHEME: "from_bytes DEFAULT_SCHEME = map_of default_entries"
proof -
  have "DEFAULT_SCHEME = to_bytes default_entries"
    by (simp add: DEFAULT_SCHEME_def to_bytes_def default_entries_def)
  moreover have "distinct (map fst default_entries)" by (simp add: default_entries_def)
  ultimately show ?thesis using from_bytes_to_bytes default_entries_clean by metis
qed

lemma default_entries_within:
  "(k, value) \<in> set default_entries \<Longrightarrow> v \<in> set (split_on (CHR '','') value) \<Longrightarrow> entry_within 9 1000 v"
  unfolding default_entries_def
  by (auto simp: entry_within_def parse_i64_def parse_unsigned_def digit_val_def)

section \<open>Properties of the padding scheme\<close>

lemma padding_new_default:
  "padding_new digest DEFAULT_SCHEME =
     Some \<lparr>raw_scheme = DEFAULT_SCHEME, stop = 8, md5 = concat (map hex02 (digest DEFAULT_SCHEME)),
           scheme = map_of default_entries\<rparr>"
proof -
  have "parse_u32 ''8'' = Some 8"
    by (simp add: parse_u32_def parse_unsigned_def digit_val_def)
  moreover have "map_of default_entries ''stop'' = Some ''8''" by (simp add: default_entries_def)
  ultimately show ?thesis by (simp add: padding_new_def from_bytes_DEFAULT_SCHEME)
qed

lemma default_sizes:
  assumes "rng_ok rng" and "scheme pf = map_of default_entries"
  shows "\<forall>n\<in>set (fst (generate_record_payload_sizes rng pf packet g)). n = CHECK_MARK \<or> (9 \<le> n \<and> n \<le> 1000)"
proof (cases "map_of default_entries (nat_to_string (unat packet))")
  case None
  with assms(2) show ?thesis by (simp add: generate_record_payload_sizes_def)
next
  case (Some val)
  then have "\<forall>v\<in>set (split_on (CHR '','') val). entry_within 9 1000 v"
    using default_entries_within map_of_SomeD by metis
  with Some assms filter_map_ranges_within [OF assms(1), of _ 9 1000 g] show ?thesis
    by (simp add: generate_record_payload_sizes_def)
qed

text \<open>The built-in padding scheme always loads, stops after the packets below 8, and for
  every packet number draws only check marks and record sizes from 9 to 1000 bytes.\<close>

theorem default_scheme_loads:
  assumes "rng_ok rng"
  shows "\<exists>pf. padding_new digest DEFAULT_SCHEME = Some pf \<and> raw_scheme pf = DEFAULT_SCHEME \<and> stop pf = 8 \<and>
    (\<forall>packet g. \<forall>n\<in>set (fst (generate_record_payload_sizes rng pf packet g)).
       n = CHECK_MARK \<or> (9 \<le> n \<and> n \<le> 1000))"
  unfolding padding_new_default
  by (intro exI conjI allI, rule refl) (simp, simp, rule default_sizes [OF assms], simp)

theorem default_scheme_loads_witness:
  "\<exists>pf. padding_new (\<lambda>_. replicate 16 0) DEFAULT_SCHEME = Some pf \<and> raw_scheme pf = DEFAULT_SCHEME \<and> stop pf = 8 \<and>
    (\<forall>packet g. \<forall>n\<in>set (fst (generate_record_payload_sizes (\<lambda>a b g. (a, g :: unit)) pf packet g)).
       n = CHECK_MARK \<or> (9 \<le> n \<and> n \<le> 1000))"
  by (rule default_scheme_loads) (simp add: rng_ok_def)

text \<open>C29: A scheme sent by a peer cannot break the size type: whatever its text, every size
  it yields fits an \<^verbatim>\<open>i32\<close>; and when all its bounds stay below \<open>2 ^ 31\<close> no size but the check
  mark is zero or negative.\<close>

theorem scheme_sizes_bounded:
  assumes "rng_ok rng" and "padding_new digest raw = Some pf"
    and "n \<in> set (fst (generate_record_payload_sizes rng pf packet g))"
  shows "- (2 ^ 31) \<le> n \<and> n < 2 ^ 31 \<and>
    ((\<forall>value. from_bytes raw (nat_to_string (unat packet)) = Some value \<longrightarrow>
        (\<forall>v\<in>set (split_on (CHR '','') value). entry_within 1 (2 ^ 31 - 1) v)) \<longrightarrow>
      n = CHECK_MARK \<or> 1 \<le> n)"
proof -
  have sch: "scheme pf = from_bytes raw"
    using assms(2) by (auto simp: padding_new_def Let_def split: option.splits)
  then obtain val where v: "from_bytes raw (nat_to_string (unat packet)) = Some val"
    and n: "n \<in> set (fst (filter_map_ranges rng (split_on (CHR '','') val) g))"
    using assms(3) by (auto simp: generate_record_payload_sizes_def split: option.splits)
  have "- (2 ^ 31) \<le> n \<and> n < 2 ^ 31" using n by (rule filter_map_ranges_i32)
  moreover have "n = CHECK_MARK \<or> 1 \<le> n"
    if "\<forall>v\<in>set (split_on (CHR '','') val). entry_within 1 (2 ^ 31 - 1) v"
    using filter_map_ranges_within [OF assms(1) that, of g] n by fastforce
  ultimately show ?thesis using v by simp
qed

theorem scheme_sizes_bounded_witness:
  "- (2 ^ 31) \<le> (500 :: int) \<and> (500 :: int) < 2 ^ 31 \<and> (500 = CHECK_MARK \<or> 1 \<le> (500 :: int))"
proof -
  let ?pf = "\<lparr>raw_scheme = DEFAULT_SCHEME, stop = 8, md5 = [], scheme = map_of default_entries\<rparr>"
  have four: "map_of default_entries (nat_to_string (unat (4 :: u32))) = Some ''500-1000''"
    by (simp add: default_entries_def nat_to_string.simps digit_char_def char_of_def bit_Suc_0_iff)
  have r: "rng_ok (\<lambda>a b g. (a, g :: unit))" by (simp add: rng_ok_def)
  have p: "padding_new (\<lambda>_. []) DEFAULT_SCHEME = Some ?pf" by (simp add: padding_new_default)
  have n: "500 \<in> set (fst (generate_record_payload_sizes (\<lambda>a b g. (a, g :: unit)) ?pf 4 ()))"
    using four by (simp add: generate_record_payload_sizes_def parse_range_def parse_i64_def
        parse_unsigned_def digit_val_def as_i32_def)
  have "entry_within 1 (2 ^ 31 - 1) ''500-1000''"
    by (simp add: entry_within_def parse_i64_def parse_unsigned_def digit_val_def)
  with scheme_sizes_bounded [OF r p n] four show ?thesis by (simp add: from_bytes_DEFAULT_SCHEME)
qed

end
