(* ===== verification/Codec.thy ===== *)
theory Codec
  imports Prelude
begin

text \<open>
  The contract between a message encoder and the reader of the peer: what is written is
  what is read, a message never ends early, and a message that is cut short is reported as
  a truncated stream. The frame layer, the authentication header and the UDP-over-TCP
  packets are instances; the lemmas about whole message sequences are proved here once.
\<close>

fun encode_all :: "('a \<Rightarrow> byte list io_result) \<Rightarrow> 'a list \<Rightarrow> byte list io_result" where
  "encode_all enc [] = Inr []"
| "encode_all enc (x # xs) =
     io_bind (enc x) (\<lambda>bs. io_bind (encode_all enc xs) (\<lambda>rest. Inr (bs @ rest)))"

text \<open>
  Reads messages until the first failure; the fuel bounds the number of messages. The
  second component is the error that stopped the reading, \<open>None\<close> when the fuel did.
\<close>

fun decode_upto :: "(reader \<Rightarrow> ('a \<times> reader) io_result) \<Rightarrow> nat \<Rightarrow> reader \<Rightarrow> 'a list \<times> io_error option" where
  "decode_upto dec 0 r = ([], None)"
| "decode_upto dec (Suc n) r =
     (case dec r of
        Inl e \<Rightarrow> ([], Some e)
      | Inr (x, r') \<Rightarrow> (let (xs, e) = decode_upto dec n r' in (x # xs, e)))"

locale codec =
  fixes enc :: "'a \<Rightarrow> byte list io_result"
    and dec :: "reader \<Rightarrow> ('a \<times> reader) io_result"
  assumes dec_enc: "enc x = Inr bs \<Longrightarrow> dec (Reader (bs @ rest) f) = Inr (x, Reader rest f)"
    and dec_truncated:
      "enc x = Inr bs \<Longrightarrow> n < length bs \<Longrightarrow> dec (Reader (take n bs) f) = Inl (end_of (Reader [] f))"
    and enc_nonempty: "enc x = Inr bs \<Longrightarrow> bs \<noteq> []"
begin

lemma dec_enc_exact: "enc x = Inr bs \<Longrightarrow> dec (Reader bs f) = Inr (x, Reader [] f)"
  using dec_enc [of x bs "[]"] by simp

lemma enc_inject: "enc x = Inr bs \<Longrightarrow> enc y = Inr bs \<Longrightarrow> x = y"
  using dec_enc_exact [of x bs None] dec_enc_exact [of y bs None] by simp

lemma prefix_free: "enc x = Inr bs \<Longrightarrow> enc y = Inr (bs @ cs) \<Longrightarrow> x = y \<and> cs = []"
  using dec_enc [of x bs cs None] dec_enc_exact [of y "bs @ cs" None] by simp

lemma decode_upto_encode_all:
  "encode_all enc xs = Inr bs \<Longrightarrow>
   decode_upto dec (length xs + n) (Reader (bs @ rest) f) =
     (let (ys, e) = decode_upto dec n (Reader rest f) in (xs @ ys, e))"
  by (induction xs arbitrary: bs)
    (auto simp: io_bind_Inr_iff dec_enc split: prod.splits)

lemma encode_all_inject:
  assumes "encode_all enc xs = Inr bs" and "encode_all enc ys = Inr bs"
  shows "xs = ys"
  using assms
proof (induction xs arbitrary: ys bs)
  case Nil
  then show ?case by (cases ys) (auto simp: io_bind_Inr_iff dest: enc_nonempty)
next
  case (Cons x xs)
  from Cons.prems(1) obtain b bs1 where b: "enc x = Inr b" "encode_all enc xs = Inr bs1" "bs = b @ bs1"
    by (auto simp: io_bind_Inr_iff)
  with enc_nonempty Cons.prems(2) obtain y ys' where ys: "ys = y # ys'" by (cases ys) auto
  with Cons.prems(2) obtain c cs1 where c: "enc y = Inr c" "encode_all enc ys' = Inr cs1" "bs = c @ cs1"
    by (auto simp: io_bind_Inr_iff)
  have "dec (Reader bs None) = Inr (x, Reader bs1 None)" "dec (Reader bs None) = Inr (y, Reader cs1 None)"
    using b(3) c(3) dec_enc [OF b(1), of bs1 None] dec_enc [OF c(1), of cs1 None] by simp_all
  then have "x = y" "bs1 = cs1" by auto
  with Cons.IH b c ys show ?case by auto
qed

end

section \<open>Sequential composition\<close>

definition pair_enc :: "('a \<Rightarrow> byte list io_result) \<Rightarrow> ('b \<Rightarrow> byte list io_result) \<Rightarrow> 'a \<times> 'b \<Rightarrow> byte list io_result" where
  "pair_enc ea eb p = io_bind (ea (fst p)) (\<lambda>a. io_bind (eb (snd p)) (\<lambda>b. Inr (a @ b)))"

definition pair_dec :: "(reader \<Rightarrow> ('a \<times> reader) io_result) \<Rightarrow> (reader \<Rightarrow> ('b \<times> reader) io_result) \<Rightarrow>
    reader \<Rightarrow> (('a \<times> 'b) \<times> reader) io_result" where
  "pair_dec da db r = io_bind (da r) (\<lambda>(a, r1). io_bind (db r1) (\<lambda>(b, r2). Inr ((a, b), r2)))"

lemma codec_pair:
  assumes "codec ea da" and "codec eb db"
  shows "codec (pair_enc ea eb) (pair_dec da db)"
proof
  fix p bs rest f
  assume "pair_enc ea eb p = Inr bs"
  then obtain a b where ab: "ea (fst p) = Inr a" "eb (snd p) = Inr b" "bs = a @ b"
    by (auto simp: pair_enc_def io_bind_Inr_iff)
  then show "pair_dec da db (Reader (bs @ rest) f) = Inr (p, Reader rest f)"
    using codec.dec_enc [OF assms(1)] codec.dec_enc [OF assms(2)] by (simp add: pair_dec_def)
  show "bs \<noteq> []" using ab codec.enc_nonempty [OF assms(1)] by auto
next
  fix p bs n f
  assume "pair_enc ea eb p = Inr bs" and n: "n < length bs"
  then obtain a b where ab: "ea (fst p) = Inr a" "eb (snd p) = Inr b" "bs = a @ b"
    by (auto simp: pair_enc_def io_bind_Inr_iff)
  show "pair_dec da db (Reader (take n bs) f) = Inl (end_of (Reader [] f))"
  proof (cases "n < length a")
    case True
    with ab show ?thesis using codec.dec_truncated [OF assms(1) ab(1) True] by (simp add: pair_dec_def)
  next
    case False
    with ab n have "n - length a < length b" by auto
    then have "db (Reader (take (n - length a) b) f) = Inl (end_of (Reader [] f))"
      using codec.dec_truncated [OF assms(2) ab(2)] by blast
    moreover have "take n bs = a @ take (n - length a) b" using False ab by simp
    ultimately show ?thesis
      using codec.dec_enc [OF assms(1) ab(1)] by (simp add: pair_dec_def)
  qed
qed

section \<open>Payloads with a 16-bit length\<close>

definition put_len16 :: "byte list \<Rightarrow> byte list io_result" where
  "put_len16 payload =
     (if length payload > 65535 then Inl InvalidInput
      else Inr (to_be_bytes16 (of_nat (length payload)) @ payload))"

definition read_u16 :: "reader \<Rightarrow> (u16 \<times> reader) io_result" where
  "read_u16 r = io_bind (read_exact 2 r) (\<lambda>(h, r'). Inr (from_be_bytes16 (h ! 0) (h ! 1), r'))"

definition get_len16 :: "reader \<Rightarrow> (byte list \<times> reader) io_result" where
  "get_len16 r = io_bind (read_u16 r) (\<lambda>(n, r1). read_exact (unat n) r1)"

lemma read_u16_be [wire_simps]:
  "read_u16 (Reader (to_be_bytes16 w @ rest) f) = Inr (w, Reader rest f)"
  by (simp add: read_u16_def read_exact_def to_be_bytes16_def be16_roundtrip)

lemma read_u16_short: "length xs < 2 \<Longrightarrow> read_u16 (Reader xs f) = Inl (end_of (Reader [] f))"
  by (simp add: read_u16_def read_exact_def end_of_def)

interpretation len16: codec put_len16 get_len16
proof
  fix p bs rest f
  assume e: "put_len16 p = Inr bs"
  then have p: "unat (of_nat (length p) :: u16) = length p"
    by (auto simp: put_len16_def unat_of_nat take_bit_eq_mod split: if_splits)
  with e show "get_len16 (Reader (bs @ rest) f) = Inr (p, Reader rest f)"
    by (auto simp: put_len16_def get_len16_def wire_simps split: if_splits)
  show "bs \<noteq> []" using e by (auto simp: put_len16_def to_be_bytes16_def split: if_splits)
next
  fix p bs n f
  assume e: "put_len16 p = Inr bs" and n: "n < length bs"
  then have p: "unat (of_nat (length p) :: u16) = length p"
    by (auto simp: put_len16_def unat_of_nat take_bit_eq_mod split: if_splits)
  from e have bs: "bs = to_be_bytes16 (of_nat (length p)) @ p"
    by (auto simp: put_len16_def split: if_splits)
  show "get_len16 (Reader (take n bs) f) = Inl (end_of (Reader [] f))"
  proof (cases "n < 2")
    case True
    with bs show ?thesis by (simp add: get_len16_def read_u16_short)
  next
    case False
    then have "take n bs = to_be_bytes16 (of_nat (length p)) @ take (n - 2) p" using bs by simp
    moreover have "n - 2 < length p" using False n bs by simp
    ultimately show ?thesis
      using p by (simp add: get_len16_def wire_simps end_of_def read_exact_def)
  qed
qed

end
