(* ===== verification/Frame.thy ===== *)
theory Frame
  imports Codec
begin

text \<open>
  The session-layer frame (\<^verbatim>\<open>src/core/frame.rs\<close>): commands, their admissible stream ids
  and payloads, the encoder and the two readers. The codec locale is interpreted on them.
\<close>

section \<open>Commands and frames\<close>

definition HEADER_OVERHEAD_SIZE :: nat where
  "HEADER_OVERHEAD_SIZE = 1 + 4 + 2"

definition MAX_FRAME_DATA_SIZE :: nat where
  "MAX_FRAME_DATA_SIZE = 65535"

datatype command =
    Waste | Syn | Push | Fin | Settings | Alert | UpdatePaddingScheme | SynAck
  | HeartRequest | HeartResponse | ServerSettings

fun command_code :: "command \<Rightarrow> u8" where
  "command_code Waste = 0"
| "command_code Syn = 1"
| "command_code Push = 2"
| "command_code Fin = 3"
| "command_code Settings = 4"
| "command_code Alert = 5"
| "command_code UpdatePaddingScheme = 6"
| "command_code SynAck = 7"
| "command_code HeartRequest = 8"
| "command_code HeartResponse = 9"
| "command_code ServerSettings = 10"

definition command_try_from :: "u8 \<Rightarrow> u8 + command" where
  "command_try_from value =
     (if value = 0 then Inr Waste
      else if value = 1 then Inr Syn
      else if value = 2 then Inr Push
      else if value = 3 then Inr Fin
      else if value = 4 then Inr Settings
      else if value = 5 then Inr Alert
      else if value = 6 then Inr UpdatePaddingScheme
      else if value = 7 then Inr SynAck
      else if value = 8 then Inr HeartRequest
      else if value = 9 then Inr HeartResponse
      else if value = 10 then Inr ServerSettings
      else Inl value)"

definition valid_stream_id :: "command \<Rightarrow> u32 \<Rightarrow> bool" where
  "valid_stream_id c stream_id =
     (case c of
        Syn \<Rightarrow> stream_id > 0 | Push \<Rightarrow> stream_id > 0 | Fin \<Rightarrow> stream_id > 0 | SynAck \<Rightarrow> stream_id > 0
      | Waste \<Rightarrow> stream_id = 0 | Settings \<Rightarrow> stream_id = 0 | Alert \<Rightarrow> stream_id = 0
      | UpdatePaddingScheme \<Rightarrow> stream_id = 0 | ServerSettings \<Rightarrow> stream_id = 0
      | HeartRequest \<Rightarrow> stream_id = 0 | HeartResponse \<Rightarrow> stream_id = 0)"

definition allows_data :: "command \<Rightarrow> bool" where
  "allows_data c \<longleftrightarrow>
     c \<in> {Waste, Push, Settings, Alert, UpdatePaddingScheme, SynAck, ServerSettings}"

record frame =
  command :: command
  stream_id :: u32
  data :: "byte list"

definition frame_new :: "command \<Rightarrow> u32 \<Rightarrow> frame" where
  "frame_new c sid = \<lparr>command = c, stream_id = sid, data = []\<rparr>"

text \<open>What \<^verbatim>\<open>receive_loop\<close> asks of a frame before it looks at the command.\<close>

definition frame_ok :: "frame \<Rightarrow> bool" where
  "frame_ok fr \<longleftrightarrow> valid_stream_id (command fr) (stream_id fr) \<and> (data fr = [] \<or> allows_data (command fr))"

lemma frame_ok_new:
  "frame_ok (frame_new c sid) \<longleftrightarrow> valid_stream_id c sid"
  "frame_ok ((frame_new c sid)\<lparr>data := d\<rparr>) \<longleftrightarrow> valid_stream_id c sid \<and> (d = [] \<or> allows_data c)"
  by (simp_all add: frame_ok_def frame_new_def)

section \<open>Encoding and reading\<close>

definition encode :: "frame \<Rightarrow> byte list io_result" where
  "encode fr =
     (if length (data fr) > MAX_FRAME_DATA_SIZE then Inl InvalidInput
      else Inr ([command_code (command fr)] @ to_be_bytes32 (stream_id fr) @
                to_be_bytes16 (of_nat (length (data fr))) @ data fr))"

definition read_from_or_eof :: "reader \<Rightarrow> (frame option \<times> reader) io_result" where
  "read_from_or_eof r =
     io_bind (read_byte r) (\<lambda>(first, r1).
       case first of
         None \<Rightarrow> Inr (None, r1)
       | Some h0 \<Rightarrow>
           io_bind (read_exact (HEADER_OVERHEAD_SIZE - 1) r1) (\<lambda>(h, r2).
             case command_try_from h0 of
               Inl _ \<Rightarrow> Inl InvalidData
             | Inr c \<Rightarrow>
                 (let sid = from_be_bytes32 (h ! 0) (h ! 1) (h ! 2) (h ! 3);
                      data_len = unat (from_be_bytes16 (h ! 4) (h ! 5))
                  in io_bind (read_exact data_len r2) (\<lambda>(d, r3).
                       Inr (Some \<lparr>command = c, stream_id = sid, data = d\<rparr>, r3)))))"

definition read_from :: "reader \<Rightarrow> (frame \<times> reader) io_result" where
  "read_from r =
     io_bind (read_from_or_eof r) (\<lambda>(fr, r').
       case fr of None \<Rightarrow> Inl UnexpectedEof | Some x \<Rightarrow> Inr (x, r'))"

section \<open>Laws\<close>

lemma command_try_from_code [simp, wire_simps]: "command_try_from (command_code c) = Inr c"
  by (cases c) (simp_all add: command_try_from_def)

lemma command_try_from_InrD: "command_try_from v = Inr c \<Longrightarrow> command_code c = v"
  by (auto simp: command_try_from_def split: if_splits)

lemma command_try_from_Inl: "command_try_from v = Inl w \<longleftrightarrow> w = v \<and> 10 < v"
proof -
  have "v \<in> {0,1,2,3,4,5,6,7,8,9,10} \<longleftrightarrow> v \<le> 10"
  proof
    assume "v \<le> 10"
    then have "unat v \<le> 10" by (simp add: word_le_nat_alt)
    then have "unat v \<in> set [0..<11]" by simp
    then have "v \<in> of_nat ` set [0..<11]" by (intro image_eqI [of _ _ "unat v"]) simp_all
    then show "v \<in> {0,1,2,3,4,5,6,7,8,9,10}" by (auto simp: upt_rec)
  qed auto
  then show ?thesis
    by (auto simp: command_try_from_def split: if_splits)
qed

lemma unat_data_len: "\<not> MAX_FRAME_DATA_SIZE < n \<Longrightarrow> unat (of_nat n :: u16) = n"
  by (simp add: MAX_FRAME_DATA_SIZE_def unat_of_nat take_bit_eq_mod)

lemma encode_length: "encode fr = Inr bs \<Longrightarrow> length bs = HEADER_OVERHEAD_SIZE + length (data fr)"
  by (auto simp: encode_def HEADER_OVERHEAD_SIZE_def split: if_splits)

lemma read_from_or_eof_encode:
  "encode fr = Inr bs \<Longrightarrow> read_from_or_eof (Reader (bs @ rest) f) = Inr (Some fr, Reader rest f)"
  by (auto simp: encode_def read_from_or_eof_def HEADER_OVERHEAD_SIZE_def wire_simps
      to_be_bytes32_def to_be_bytes16_def read_exact_def unat_data_len be32_roundtrip be16_roundtrip
      split: if_splits)

lemma read_from_or_eof_truncated:
  assumes "encode fr = Inr bs" and "0 < n" and "n < length bs"
  shows "read_from_or_eof (Reader (take n bs) f) = Inl (end_of (Reader [] f))"
proof -
  obtain c s d where fr: "fr = \<lparr>command = c, stream_id = s, data = d\<rparr>" by (cases fr)
  from assms(1) fr have d: "\<not> MAX_FRAME_DATA_SIZE < length d"
    and bs: "bs = [command_code c] @ to_be_bytes32 s @ to_be_bytes16 (of_nat (length d)) @ d"
    by (auto simp: encode_def split: if_splits)
  from assms(2) obtain m where m: "n = Suc m" by (cases n) auto
  show ?thesis
  proof (cases "m < 6")
    case True
    then have "\<not> 6 \<le> min 4 m + (m - 4)" by arith
    with m bs True show ?thesis
      by (simp add: read_from_or_eof_def HEADER_OVERHEAD_SIZE_def read_byte_def read_exact_def
          end_of_def)
  next
    case False
    with m bs assms(3) obtain k where k: "m = 6 + k" "k < length d"
      by (auto simp: le_iff_add not_less)
    then have "take n bs = [command_code c] @ to_be_bytes32 s @ to_be_bytes16 (of_nat (length d)) @ take k d"
      unfolding m bs append_Cons take_Suc_Cons using k by simp
    then show ?thesis
      using k d by (simp add: read_from_or_eof_def HEADER_OVERHEAD_SIZE_def read_byte_def
          read_exact_def to_be_bytes32_def to_be_bytes16_def unat_data_len be16_roundtrip end_of_def)
  qed
qed

interpretation frame_codec: codec encode read_from
proof
  fix fr bs rest f
  assume e: "encode fr = Inr bs"
  then show "read_from (Reader (bs @ rest) f) = Inr (fr, Reader rest f)"
    by (simp add: read_from_def read_from_or_eof_encode)
  show "bs \<noteq> []" using e by (auto simp: encode_def split: if_splits)
next
  fix fr bs n f
  assume e: "encode fr = Inr bs" and n: "n < length bs"
  show "read_from (Reader (take n bs) f) = Inl (end_of (Reader [] f))"
  proof (cases "n = 0")
    case True
    then show ?thesis
      by (simp add: read_from_def read_from_or_eof_def read_byte_def end_of_def split: option.splits)
  next
    case False
    with e n show ?thesis by (simp add: read_from_def read_from_or_eof_truncated)
  qed
qed

section \<open>Properties of the frame layer\<close>

text \<open>C25: A sequence of frames that encodes is read back frame by frame, in order and
  unchanged, and the reading stops at the end of the stream, whatever ends it.\<close>

theorem frames_roundtrip:
  assumes "encode_all encode frs = Inr bs"
  shows "decode_upto read_from (Suc (length frs)) (Reader bs f) = (frs, Some (end_of (Reader [] f)))"
proof -
  have "decode_upto read_from 1 (Reader [] f) = ([], Some (end_of (Reader [] f)))"
    by (simp add: read_from_def read_from_or_eof_def read_byte_def end_of_def split: option.splits)
  with frame_codec.decode_upto_encode_all [OF assms, of 1 "[]" f] show ?thesis by simp
qed

theorem frames_roundtrip_witness:
  "decode_upto read_from 3
     (Reader ([1, 0, 0, 0, 7, 0, 0] @ [2, 0, 0, 0, 7, 0, 2, 104, 105]) None) =
   ([\<lparr>command = Syn, stream_id = 7, data = []\<rparr>, \<lparr>command = Push, stream_id = 7, data = [104, 105]\<rparr>],
    Some UnexpectedEof)"
proof -
  have "encode_all encode
      [\<lparr>command = Syn, stream_id = 7, data = []\<rparr>, \<lparr>command = Push, stream_id = 7, data = [104, 105]\<rparr>] =
    Inr ([1, 0, 0, 0, 7, 0, 0] @ [2, 0, 0, 0, 7, 0, 2, 104, 105])"
    by (simp add: encode_def to_be_bytes32_def to_be_bytes16_def MAX_FRAME_DATA_SIZE_def drop_bit_eq_div)
  from frames_roundtrip [OF this, of None] show ?thesis
    by (simp add: end_of_def numeral_eq_Suc)
qed

text \<open>Reading is canonical: a frame that was read encodes to exactly the bytes that were
  consumed, so no two byte sequences stand for the same frame and nothing is lost.\<close>

theorem read_canonical:
  assumes "read_from_or_eof r = Inr (Some fr, r')"
  shows "\<exists>bs. encode fr = Inr bs \<and> avail r = bs @ avail r' \<and> fault r' = fault r"
proof -
  obtain b xs f where r: "r = Reader (b # xs) f"
    using assms by (cases r; cases "avail r")
      (auto simp: read_from_or_eof_def read_byte_def split: option.splits)
  obtain c where c: "command_try_from b = Inr c"
    using assms r by (cases "command_try_from b")
      (auto simp: read_from_or_eof_def read_byte_def io_bind_Inr_iff)
  with assms r obtain h r2 d where h: "read_exact 6 (Reader xs f) = Inr (h, r2)"
    and d: "read_exact (unat (from_be_bytes16 (h ! 4) (h ! 5))) r2 = Inr (d, r')"
    and fr: "fr = \<lparr>command = c, stream_id = from_be_bytes32 (h ! 0) (h ! 1) (h ! 2) (h ! 3), data = d\<rparr>"
    by (auto simp: read_from_or_eof_def read_byte_def HEADER_OVERHEAD_SIZE_def io_bind_Inr_iff Let_def)
  have xs: "xs = h @ avail r2" "length h = 6" "fault r2 = f"
    using h by (auto elim!: read_exact_InrE)
  have r2: "avail r2 = d @ avail r'" "length d = unat (from_be_bytes16 (h ! 4) (h ! 5))" "fault r' = fault r2"
    using d by (auto elim!: read_exact_InrE)
  have hs: "h = [h ! 0, h ! 1, h ! 2, h ! 3, h ! 4, h ! 5]"
    using xs(2) by (auto simp: list_eq_iff_nth_eq less_Suc_eq numeral_eq_Suc)
  have "unat (from_be_bytes16 (h ! 4) (h ! 5)) < 2 ^ LENGTH(16)" by (rule unsigned_less)
  then have "\<not> MAX_FRAME_DATA_SIZE < length d" using r2(2) by (simp add: MAX_FRAME_DATA_SIZE_def)
  then have "encode fr = Inr (b # h @ d)"
    using fr r2(2) command_try_from_InrD [OF c] hs
    by (simp add: encode_def to_be_bytes32_def to_be_bytes16_def be32_inverse be16_inverse)
  then show ?thesis using r xs r2 by auto
qed

theorem read_canonical_witness:
  "\<exists>bs. encode \<lparr>command = Fin, stream_id = 1, data = []\<rparr> = Inr bs \<and>
    avail (Reader [3, 0, 0, 0, 1, 0, 0, 9] None) = bs @ avail (Reader [9] None) \<and>
    fault (Reader [9] None) = fault (Reader [3, 0, 0, 0, 1, 0, 0, 9] None)"
proof -
  have "read_from_or_eof (Reader [3, 0, 0, 0, 1, 0, 0, 9] None) =
      Inr (Some \<lparr>command = Fin, stream_id = 1, data = []\<rparr>, Reader [9] None)"
    by (simp add: read_from_or_eof_def read_byte_def HEADER_OVERHEAD_SIZE_def read_exact_def
        command_try_from_def from_be_bytes32_def from_be_bytes16_def Let_def)
  then show ?thesis by (rule read_canonical)
qed

text \<open>A stream cut inside a frame is an error and never a shorter frame; the clean end
  of the stream is reported only between frames.\<close>

theorem frame_cut_short:
  assumes "encode fr = Inr bs" and "n < length bs"
  shows "read_from_or_eof (Reader (take n bs) f) =
    (if n = 0 \<and> f = None then Inr (None, Reader [] None) else Inl (end_of (Reader [] f)))"
proof (cases "n = 0")
  case True
  then show ?thesis
    by (simp add: read_from_or_eof_def read_byte_def end_of_def split: option.splits)
next
  case False
  with read_from_or_eof_truncated [OF assms(1) _ assms(2)] show ?thesis by simp
qed

theorem frame_cut_short_witness:
  "read_from_or_eof (Reader [2, 0, 0, 0, 7, 0, 2, 104] None) = Inl UnexpectedEof"
proof -
  have "encode \<lparr>command = Push, stream_id = 7, data = [104, 105]\<rparr> = Inr [2, 0, 0, 0, 7, 0, 2, 104, 105]"
    by (simp add: encode_def to_be_bytes32_def to_be_bytes16_def MAX_FRAME_DATA_SIZE_def drop_bit_eq_div)
  from frame_cut_short [OF this, of 8 None] show ?thesis by (simp add: end_of_def)
qed

text \<open>A frame is refused exactly when its command byte is above 10, with
  \<^verbatim>\<open>InvalidData\<close>, before any of its payload is read.\<close>

theorem unknown_command_rejected:
  "read_from_or_eof (Reader (c # h1 # h2 # h3 # h4 # h5 # h6 # rest) f) = Inl InvalidData \<longleftrightarrow>
   10 < c \<or> (length rest < unat (from_be_bytes16 h5 h6) \<and> f = Some InvalidData)"
proof (cases "command_try_from c")
  case (Inl w)
  then show ?thesis
    using command_try_from_Inl [of c w]
    by (simp add: read_from_or_eof_def read_byte_def HEADER_OVERHEAD_SIZE_def read_exact_def)
next
  case (Inr cmd)
  then have "\<not> 10 < c" using command_try_from_Inl [of c c] by auto
  with Inr show ?thesis
    by (auto simp: read_from_or_eof_def read_byte_def HEADER_OVERHEAD_SIZE_def read_exact_def Let_def
        end_of_def split: option.splits)
qed

end
