(* ===== verification/Session_State.thy ===== *)
theory Session_State
  imports Padding Frame
begin

text \<open>
  The state of a session (\<^verbatim>\<open>src/runtime/session.rs\<close>): the write queues, the one logical
  stream with its inbound pump, the flags, and the tasks that are suspended at an
  \<^verbatim>\<open>await\<close>. \<open>writing\<close> is the request the writer task has taken from a queue and \<open>served\<close> the bytes
  of the requests it has written. Instants and durations are natural numbers of milliseconds; the current
  instant is an argument \<open>now\<close> of the operations that read the clock. Fields that only feed
  log lines (timings, queue depths) are left out.
\<close>

section \<open>Constants\<close>

definition WRITE_TIMEOUT :: nat where "WRITE_TIMEOUT = 15000"
definition HEARTBEAT_INTERVAL :: nat where "HEARTBEAT_INTERVAL = 15000"
definition HEARTBEAT_QUEUE_TIMEOUT :: nat where "HEARTBEAT_QUEUE_TIMEOUT = 15000"
definition HEARTBEAT_TIMEOUT :: nat where "HEARTBEAT_TIMEOUT = 10000"
definition STREAM_CLOSE_TIMEOUT :: nat where "STREAM_CLOSE_TIMEOUT = 15000"
definition INBOUND_PUSH_QUEUE_BYTES :: nat where "INBOUND_PUSH_QUEUE_BYTES = 1024 * 1024"
definition INBOUND_PUSH_QUEUE_MESSAGES :: nat where "INBOUND_PUSH_QUEUE_MESSAGES = 64"
definition DEFAULT_MAX_SESSION_AGE :: nat where "DEFAULT_MAX_SESSION_AGE = 60 * 60 * 1000"
definition WRITE_QUEUE_CAPACITY :: nat where "WRITE_QUEUE_CAPACITY = 64"

definition PROGRAM_VERSION_NAME :: "string \<Rightarrow> string" where
  "PROGRAM_VERSION_NAME pkg_version = ''anytls(rust)/'' @ pkg_version"

section \<open>Stream ids\<close>

text \<open>The loop of \<^verbatim>\<open>allocate_stream_id\<close>: the id and the counter after it.\<close>

function allocate_stream_id :: "u32 \<Rightarrow> u32 \<times> u32" where
  "allocate_stream_id counter =
     (let stream_id = counter + 1
      in if stream_id \<noteq> 0 then (stream_id, counter + 1) else allocate_stream_id (counter + 1))"
  by pat_completeness auto
termination
  by (relation "measure (\<lambda>c. if c + 1 = 0 then 1 else 0)") (auto simp: Let_def)

declare allocate_stream_id.simps [simp del]

definition is_peer_disconnect :: "io_error \<Rightarrow> bool" where
  "is_peer_disconnect e \<longleftrightarrow> e = ConnectionReset"

section \<open>Requests, streams, tasks\<close>

record write_request =
  bytes :: "byte list"
  disable_buffering_after :: bool
  result_sender :: "nat option"

datatype push_message = PushData "byte list" | PushFin

text \<open>
  The pump task of a stream: receiving the next message, writing one into the stream's pipe,
  about to return after reporting the end of the stream, or gone.
\<close>

datatype pump_phase = PumpRecv | PumpWrite "byte list" | PumpExit | PumpDone

text \<open>
  \<open>accepted\<close> records every message the queue took, in order; the code keeps no such log, it
  states what \<open>delivered\<close> is compared with. \<open>push_slots\<close> are the free permits of the byte semaphore.
\<close>

record pump =
  pump_stream :: u32
  push_queue :: "push_message list"
  push_slots :: nat
  pump_token :: bool
  pump_phase :: pump_phase
  delivered :: "byte list"
  delivered_eof :: bool
  accepted :: "push_message list"

record stream_state =
  stream_pump :: nat
  local_fin :: bool
  remote_fin :: bool
  read_closed :: bool

datatype queue_sel = ControlQueue | DataQueue

text \<open>What a caller of \<^verbatim>\<open>send_fin_by_id\<close> does with its result.\<close>

datatype fin_caller = ShutdownWrite | CloseStream

text \<open>What remains of an operation once its write request is answered.\<close>

datatype continuation =
    OpenReserved u32
  | WriteData nat
  | SendFin u32 bool fin_caller
  | DropFin u32
  | WriteControl
  | RunSession
  | Heartbeat

text \<open>
  Tasks suspended at an \<^verbatim>\<open>await\<close>: for room in a write queue (with the deadline of a
  heartbeat), for the answer to a write request, for room in a full push queue (the task
  spawned for a FIN), or for the close timeout of a stream.
\<close>

datatype task =
    AwaitPermit queue_sel "byte list" bool "nat option" continuation
  | AwaitResult nat continuation
  | AwaitFinSend nat u32
  | AwaitCloseTimeout u32 nat

text \<open>
  The heartbeat task: not running, waiting for its next tick, waiting for the heartbeat to be
  written, or for the response since an instant.
\<close>

datatype heartbeat = HbOff | HbTick nat | HbWrite nat | HbAwait nat nat

record session =
  session_id :: nat
  created_at :: nat
  max_age :: nat
  control_queue :: "write_request list"
  data_queue :: "write_request list"
  writing :: "write_request option"
  served :: "byte list list"
  writer_alive :: bool
  streams :: "(u32 \<times> stream_state) option"
  closed :: bool
  is_client :: bool
  peer_session_id :: "nat option"
  peer_version :: u8
  received_settings :: bool
  padding :: padding_factory
  reader_present :: bool
  close_token :: bool
  heartbeat :: heartbeat
  heart_notified :: bool
  expiration_armed :: bool
  last_activity :: nat
  incoming :: "u32 list option"
  incoming_alive :: bool
  idle_sender :: bool
  idle_notices :: nat
  pumps :: "pump list"
  tasks :: "task list"
  next_request :: nat
  completions :: "(nat \<times> unit io_result) list"
  main_loop_running :: bool

definition session_new :: "nat \<Rightarrow> padding_factory \<Rightarrow> bool \<Rightarrow> nat \<Rightarrow> nat \<Rightarrow> session" where
  "session_new sid pf client age now =
     \<lparr>session_id = sid, created_at = now, max_age = age,
      control_queue = [], data_queue = [], writing = None, served = [], writer_alive = True, streams = None,
      closed = False, is_client = client, peer_session_id = None, peer_version = 0,
      received_settings = False, padding = pf, reader_present = True, close_token = False,
      heartbeat = HbOff, heart_notified = False, expiration_armed = False, last_activity = now,
      incoming = (if client then None else Some []), incoming_alive = True,
      idle_sender = False, idle_notices = 0, pumps = [], tasks = [], next_request = 0,
      completions = [], main_loop_running = False\<rparr>"

definition new_client :: "nat \<Rightarrow> padding_factory \<Rightarrow> nat \<Rightarrow> nat \<Rightarrow> session" where
  "new_client sid pf age now = session_new sid pf True age now"

definition new_server :: "nat \<Rightarrow> padding_factory \<Rightarrow> nat \<Rightarrow> nat \<Rightarrow> session" where
  "new_server sid pf age now = session_new sid pf False age now"

section \<open>Simple accessors and the close signal\<close>

definition is_expired :: "nat \<Rightarrow> session \<Rightarrow> bool" where
  "is_expired now s \<longleftrightarrow> max_age s \<noteq> 0 \<and> now - created_at s \<ge> max_age s"

definition is_idle :: "session \<Rightarrow> bool" where
  "is_idle s \<longleftrightarrow> streams s = None"

definition set_idle_sender :: "session \<Rightarrow> session" where
  "set_idle_sender s = s\<lparr>idle_sender := True\<rparr>"

definition set_peer_session_id :: "nat \<Rightarrow> session \<Rightarrow> session" where
  "set_peer_session_id sid s = s\<lparr>peer_session_id := Some sid\<rparr>"

definition pump_new :: "u32 \<Rightarrow> pump" where
  "pump_new sid =
     \<lparr>pump_stream = sid, push_queue = [], push_slots = INBOUND_PUSH_QUEUE_BYTES,
      pump_token = False, pump_phase = PumpRecv, delivered = [], delivered_eof = False,
      accepted = []\<rparr>"

text \<open>\<^verbatim>\<open>StreamState::new\<close> spawns the pump task; the entry refers to it by its index.\<close>

definition stream_state_new :: "u32 \<Rightarrow> session \<Rightarrow> stream_state \<times> session" where
  "stream_state_new sid s =
     (\<lparr>stream_pump = length (pumps s), local_fin = False, remote_fin = False, read_closed = False\<rparr>,
      s\<lparr>pumps := pumps s @ [pump_new sid]\<rparr>)"

definition update_pump :: "nat \<Rightarrow> (pump \<Rightarrow> pump) \<Rightarrow> session \<Rightarrow> session" where
  "update_pump i f s = s\<lparr>pumps := (pumps s)[i := f (pumps s ! i)]\<rparr>"

definition cancel_stream :: "stream_state \<Rightarrow> session \<Rightarrow> session" where
  "cancel_stream st s = update_pump (stream_pump st) (\<lambda>p. p\<lparr>pump_token := True\<rparr>) s"

definition shutdown :: "session \<Rightarrow> session" where
  "shutdown s =
     (let s1 = s\<lparr>closed := True, close_token := True, reader_present := False\<rparr>
      in case streams s1 of
           None \<Rightarrow> s1
         | Some (_, st) \<Rightarrow> cancel_stream st (s1\<lparr>streams := None\<rparr>))"

section \<open>The write queues\<close>

definition queue_of :: "queue_sel \<Rightarrow> session \<Rightarrow> write_request list" where
  "queue_of q s = (case q of ControlQueue \<Rightarrow> control_queue s | DataQueue \<Rightarrow> data_queue s)"

definition push_request :: "queue_sel \<Rightarrow> write_request \<Rightarrow> session \<Rightarrow> session" where
  "push_request q r s =
     (case q of
        ControlQueue \<Rightarrow> s\<lparr>control_queue := control_queue s @ [r]\<rparr>
      | DataQueue \<Rightarrow> s\<lparr>data_queue := data_queue s @ [r]\<rparr>)"

definition queue_control :: "frame \<Rightarrow> session \<Rightarrow> unit io_result \<times> session" where
  "queue_control fr s =
     (case encode fr of
        Inl e \<Rightarrow> (Inl e, s)
      | Inr bs \<Rightarrow>
          (if \<not> writer_alive s then (Inl BrokenPipe, s)
           else if length (control_queue s) \<ge> WRITE_QUEUE_CAPACITY then (Inl WouldBlock, s)
           else (Inr (), push_request ControlQueue
                   \<lparr>bytes = bs, disable_buffering_after = False, result_sender = None\<rparr> s)))"

text \<open>
  \<^verbatim>\<open>enqueue_encoded_with_mode\<close> up to its first \<^verbatim>\<open>await\<close>: the operation is suspended until the
  queue admits its request.
\<close>

definition enqueue_encoded_with_mode ::
    "queue_sel \<Rightarrow> byte list \<Rightarrow> bool \<Rightarrow> nat option \<Rightarrow> continuation \<Rightarrow> session \<Rightarrow> session" where
  "enqueue_encoded_with_mode q bs disable deadline k s =
     s\<lparr>tasks := tasks s @ [AwaitPermit q bs disable deadline k]\<rparr>"

definition enqueue_bytes :: "byte list \<Rightarrow> bool \<Rightarrow> continuation \<Rightarrow> session \<Rightarrow> session" where
  "enqueue_bytes bs disable k s = enqueue_encoded_with_mode DataQueue bs disable None k s"

text \<open>
  An operation either returns at once (\<open>Some result\<close>) or is suspended (\<open>None\<close>), its rest
  being the continuation of the task it left behind.
\<close>

type_synonym op_result = "unit io_result option"

definition enqueue_frame :: "frame \<Rightarrow> bool \<Rightarrow> continuation \<Rightarrow> session \<Rightarrow> op_result \<times> session" where
  "enqueue_frame fr disable k s =
     (case encode fr of
        Inl e \<Rightarrow> (Some (Inl e), s)
      | Inr bs \<Rightarrow> (None, enqueue_encoded_with_mode ControlQueue bs disable None k s))"

definition write_control :: "frame \<Rightarrow> continuation \<Rightarrow> session \<Rightarrow> op_result \<times> session" where
  "write_control fr k s = enqueue_frame fr False k s"

definition write_heartbeat :: "nat \<Rightarrow> session \<Rightarrow> op_result \<times> session" where
  "write_heartbeat now s =
     (case encode (frame_new HeartRequest 0) of
        Inl e \<Rightarrow> (Some (Inl e), s)
      | Inr bs \<Rightarrow>
          (None, enqueue_encoded_with_mode ControlQueue bs False (Some (now + HEARTBEAT_QUEUE_TIMEOUT))
             Heartbeat s))"

section \<open>Stream ids do not repeat\<close>

text \<open>The ids of successive allocations.\<close>

fun allocate_ids :: "nat \<Rightarrow> u32 \<Rightarrow> u32 list" where
  "allocate_ids 0 counter = []"
| "allocate_ids (Suc n) counter =
     (let (stream_id, counter') = allocate_stream_id counter in stream_id # allocate_ids n counter')"

lemma add_2_wrap: "(c :: u32) + 1 = 0 \<Longrightarrow> c + 2 \<noteq> 0"
proof -
  assume "c + 1 = 0"
  then have "c + 2 = 1" by (simp only: one_add_one [symmetric] add.assoc [symmetric]) simp
  then show ?thesis by (simp only: one_neq_zero not_False_eq_True)
qed

lemma allocate_stream_id_eq:
  "allocate_stream_id c = (if c + 1 = 0 then (c + 2, c + 2) else (c + 1, c + 1))"
proof (cases "c + 1 = 0")
  case True
  then have "c + 2 \<noteq> 0" by (rule add_2_wrap)
  then have "allocate_stream_id (c + 1) = (c + 2, c + 2)"
    by (subst allocate_stream_id.simps) (simp add: Let_def add.assoc)
  with True show ?thesis by (subst allocate_stream_id.simps) (simp add: Let_def)
next
  case False
  then show ?thesis by (subst allocate_stream_id.simps) (simp add: Let_def)
qed

definition ids_window :: "u32 \<Rightarrow> nat \<Rightarrow> u32 list" where
  "ids_window c m = filter (\<lambda>x. x \<noteq> 0) (map (\<lambda>i. c + of_nat i) [1..<m])"

lemma ids_window_Suc:
  assumes "1 \<le> m"
  shows "ids_window c (Suc m) = (if c + 1 = 0 then [] else [c + 1]) @ ids_window (c + 1) m"
proof -
  have "map (\<lambda>i. c + 1 + of_nat i) [1..<m] = map (\<lambda>i. c + of_nat i) [Suc 1..<Suc m]"
    by (simp add: map_Suc_upt [symmetric] comp_def add.assoc del: upt_Suc)
  then have "map (\<lambda>i. c + of_nat i) [1..<Suc m] = (c + 1) # map (\<lambda>i. c + 1 + of_nat i) [1..<m]"
    using assms upt_conv_Cons [of 1 "Suc m"] by (simp del: upt_Suc)
  then show ?thesis unfolding ids_window_def by (simp only: filter.simps) simp
qed

lemma ids_window_Nil [simp]: "m \<le> 1 \<Longrightarrow> ids_window c m = []"
  by (simp add: ids_window_def)

lemma allocate_ids_window:
  "n \<le> length (ids_window c m) \<Longrightarrow> allocate_ids n c = take n (ids_window c m)"
proof (induction n arbitrary: c m)
  case (Suc n)
  then have "1 < m" using ids_window_Nil [of m c] by (cases "1 < m") simp_all
  then obtain m1 where m: "m = Suc m1" "1 \<le> m1" by (cases m) auto
  show ?case
  proof (cases "c + 1 = 0")
    case False
    with Suc m show ?thesis by (simp add: allocate_stream_id_eq ids_window_Suc)
  next
    case True
    with Suc.prems m have len: "Suc n \<le> length (ids_window (c + 1) m1)" by (simp add: ids_window_Suc)
    then have "1 < m1" using ids_window_Nil [of m1 "c + 1"] by (cases "1 < m1") simp_all
    then obtain m2 where m2: "m1 = Suc m2" "1 \<le> m2" by (cases m1) auto
    have "ids_window (c + 1) m1 = (c + 2) # ids_window (c + 2) m2"
      using m2 add_2_wrap [OF True] by (simp add: ids_window_Suc add.assoc)
    with True m len Suc.IH [of "c + 2" m2] show ?thesis
      by (simp add: allocate_stream_id_eq ids_window_Suc)
  qed
qed simp

lemma window_all:
  fixes c :: u32
  defines "ws \<equiv> map (\<lambda>i. c + of_nat i :: u32) [1..<2 ^ 32 + 1]"
  shows "distinct ws" "length (filter (\<lambda>x. x \<noteq> 0) ws) = 2 ^ 32 - 1"
proof -
  have inj: "inj_on (\<lambda>i. c + of_nat i :: u32) {1..<2 ^ 32 + 1}"
  proof (rule inj_onI)
    fix i j assume ij: "i \<in> {1..<2 ^ 32 + (1 :: nat)}" "j \<in> {1..<2 ^ 32 + 1}" "c + of_nat i = c + (of_nat j :: u32)"
    then have "i mod 2 ^ 32 = j mod 2 ^ 32" by (simp add: word_of_nat_eq_iff take_bit_eq_mod)
    moreover have "i mod 2 ^ 32 = (if i = 2 ^ 32 then 0 else i)" "j mod 2 ^ 32 = (if j = 2 ^ 32 then 0 else j)"
      using ij(1,2) by (auto simp: mod_less)
    ultimately show "i = j" using ij(1,2) by (auto split: if_splits)
  qed
  show d: "distinct ws" using inj by (simp add: ws_def distinct_map del: upt_Suc)
  have "card (set ws) = 2 ^ 32" using distinct_card [OF d] by (simp add: ws_def del: upt_Suc)
  moreover have "card (UNIV :: u32 set) = 2 ^ 32" by (simp add: card_word)
  ultimately have "set ws = UNIV" by (intro card_subset_eq) simp_all
  then have "set (filter (\<lambda>x. x \<noteq> 0) ws) = UNIV - {0}" by auto
  then have "card (set (filter (\<lambda>x. x \<noteq> 0) ws)) = 2 ^ 32 - 1" by (simp add: card_Diff_singleton card_word)
  then show "length (filter (\<lambda>x. x \<noteq> 0) ws) = 2 ^ 32 - 1"
    using distinct_card [of "filter (\<lambda>x. x \<noteq> 0) ws"] d by simp
qed

text \<open>Stream ids are never zero, and from any value of the global counter the next
  \<open>2 ^ 32 - 1\<close> allocations, wrap-around included, give pairwise different ids.\<close>

theorem stream_ids_distinct:
  "n \<le> 2 ^ 32 - 1 \<Longrightarrow> distinct (allocate_ids n counter) \<and> 0 \<notin> set (allocate_ids n counter)"
  using allocate_ids_window [of n counter "2 ^ 32 + 1"] window_all [of counter]
  by (simp add: ids_window_def distinct_take distinct_filter del: upt_Suc) (auto dest: in_set_takeD)

theorem stream_ids_distinct_witness:
  "distinct (allocate_ids 3 (- 2)) \<and> 0 \<notin> set (allocate_ids 3 (- 2)) \<and> allocate_ids 3 (- 2) = [- 1, 1, 2]"
  using stream_ids_distinct [of 3 "- 2"]
  by (simp add: allocate_stream_id_eq numeral_3_eq_3)

end
