(* ===== verification/Session_Streams.thy ===== *)
theory Session_Streams
  imports Session_State
begin

text \<open>
  The stream operations of a session (\<^verbatim>\<open>src/runtime/session.rs\<close>): reserving and opening,
  writing, half-closing, closing, dropping and removing the one logical stream. An operation
  that waits for the writer task ends here with a suspended task; \<open>resume\<close> is the rest of the
  operation once its write request is answered. The \<^verbatim>\<open>streams\<close> lock is never held across an
  \<^verbatim>\<open>await\<close>, so each critical section is one atomic function.
\<close>

section \<open>Removing a stream\<close>

definition stream_active :: "u32 \<Rightarrow> session \<Rightarrow> bool" where
  "stream_active sid s \<longleftrightarrow> (case streams s of Some (active_id, _) \<Rightarrow> active_id = sid | None \<Rightarrow> False)"

definition set_stream :: "u32 \<Rightarrow> (stream_state \<Rightarrow> stream_state) \<Rightarrow> session \<Rightarrow> session" where
  "set_stream sid f s =
     (case streams s of
        Some (active_id, st) \<Rightarrow> (if active_id = sid then s\<lparr>streams := Some (active_id, f st)\<rparr> else s)
      | None \<Rightarrow> s)"

definition remove_stream_by_id :: "nat \<Rightarrow> u32 \<Rightarrow> session \<Rightarrow> session" where
  "remove_stream_by_id now sid s =
     (case streams s of
        None \<Rightarrow> s
      | Some (active_id, entry) \<Rightarrow>
          (if active_id \<noteq> sid then s
           else
             let s1 = cancel_stream entry (s\<lparr>streams := None\<rparr>)
             in if is_expired now s1 then shutdown s1
                else if idle_sender s1 then s1\<lparr>idle_notices := idle_notices s1 + 1\<rparr>
                else s1))"

definition finish_stream_if_closed :: "nat \<Rightarrow> u32 \<Rightarrow> session \<Rightarrow> session" where
  "finish_stream_if_closed now sid s =
     (let should_finish =
            (case streams s of
               Some (active_id, st) \<Rightarrow> active_id = sid \<and> local_fin st \<and> remote_fin st \<and> read_closed st
             | None \<Rightarrow> False)
      in if should_finish then remove_stream_by_id now sid s else s)"

definition on_stream_read_closed :: "nat \<Rightarrow> u32 \<Rightarrow> session \<Rightarrow> session" where
  "on_stream_read_closed now sid s =
     finish_stream_if_closed now sid (set_stream sid (\<lambda>st. st\<lparr>read_closed := True\<rparr>) s)"

definition finish_or_retire_stream :: "nat \<Rightarrow> u32 \<Rightarrow> bool \<Rightarrow> session \<Rightarrow> session" where
  "finish_or_retire_stream now sid fin_sent s =
     (if \<not> is_client s then remove_stream_by_id now sid s
      else if \<not> fin_sent \<or> is_expired now s then shutdown s
      else s\<lparr>tasks := tasks s @ [AwaitCloseTimeout sid (now + STREAM_CLOSE_TIMEOUT)]\<rparr>)"

text \<open>The task spawned by \<^verbatim>\<open>finish_or_retire_stream\<close>, once its sleep is over.\<close>

definition close_timeout_fired :: "u32 \<Rightarrow> session \<Rightarrow> session" where
  "close_timeout_fired sid s = (if stream_active sid s then shutdown s else s)"

section \<open>Opening a stream\<close>

text \<open>
  \<^verbatim>\<open>reserve_stream\<close> inside the lock: the session may have been closed since the first check.
\<close>

definition reserve_locked :: "nat \<Rightarrow> u32 \<Rightarrow> session \<Rightarrow> u32 io_result \<times> session" where
  "reserve_locked now sid s =
     (if closed s then (Inl BrokenPipe, s)
      else if is_expired now s then (Inl TimedOut, s)
      else if streams s \<noteq> None then (Inl WouldBlock, s)
      else
        let (st, s1) = stream_state_new sid s
        in (Inr sid, s1\<lparr>streams := Some (sid, st)\<rparr>))"

definition reserve_stream :: "nat \<Rightarrow> u32 \<Rightarrow> session \<Rightarrow> u32 io_result \<times> u32 \<times> session" where
  "reserve_stream now next_stream_id s =
     (if closed s then (Inl BrokenPipe, next_stream_id, s)
      else
        let (sid, next) = allocate_stream_id next_stream_id;
            (r, s') = reserve_locked now sid s
        in (r, next, s'))"

definition open_reserved_stream :: "nat \<Rightarrow> u32 \<Rightarrow> session \<Rightarrow> op_result \<times> session" where
  "open_reserved_stream now sid s =
     (case enqueue_frame (frame_new Syn sid) True (OpenReserved sid) s of
        (Some (Inl e), s1) \<Rightarrow> (Some (Inl e), remove_stream_by_id now sid s1)
      | (r, s1) \<Rightarrow> (r, s1))"

definition open_reserved_stream_rest :: "nat \<Rightarrow> u32 \<Rightarrow> unit io_result \<Rightarrow> session \<Rightarrow> unit io_result \<times> session" where
  "open_reserved_stream_rest now sid r s =
     (case r of
        Inl e \<Rightarrow> (Inl e, remove_stream_by_id now sid s)
      | Inr _ \<Rightarrow>
          (if closed s then (Inl BrokenPipe, remove_stream_by_id now sid s) else (Inr (), s)))"

text \<open>Both in one call; the result is that of the reservation or of the SYN.\<close>

definition open_stream :: "nat \<Rightarrow> u32 \<Rightarrow> session \<Rightarrow> op_result \<times> u32 \<times> session" where
  "open_stream now next_stream_id s =
     (case reserve_stream now next_stream_id s of
        (Inl e, next, s1) \<Rightarrow> (Some (Inl e), next, s1)
      | (Inr sid, next, s1) \<Rightarrow> (let (r, s2) = open_reserved_stream now sid s1 in (r, next, s2)))"

section \<open>Writing and half-closing\<close>

definition write_data :: "u32 \<Rightarrow> byte list \<Rightarrow> session \<Rightarrow> op_result \<times> session" where
  "write_data sid bs s =
     (case encode ((frame_new Push sid)\<lparr>data := bs\<rparr>) of
        Inl e \<Rightarrow> (Some (Inl e), s)
      | Inr encoded \<Rightarrow>
          (let can_write =
                 (case streams s of
                    Some (active_id, st) \<Rightarrow> active_id = sid \<and> \<not> local_fin st
                  | None \<Rightarrow> False)
           in if \<not> can_write then (Some (Inl BrokenPipe), s)
              else (None, enqueue_bytes encoded False (WriteData (length bs)) s)))"

definition enqueue_fin :: "u32 \<Rightarrow> continuation \<Rightarrow> session \<Rightarrow> op_result \<times> session" where
  "enqueue_fin sid k s =
     (case encode (frame_new Fin sid) of
        Inl e \<Rightarrow> (Some (Inl e), s)
      | Inr bs \<Rightarrow> (None, enqueue_bytes bs False k s))"

definition send_fin_by_id :: "u32 \<Rightarrow> fin_caller \<Rightarrow> session \<Rightarrow> op_result \<times> session" where
  "send_fin_by_id sid caller s =
     (case streams s of
        None \<Rightarrow> (Some (Inl BrokenPipe), s)
      | Some (active_id, st) \<Rightarrow>
          (if active_id \<noteq> sid then (Some (Inl BrokenPipe), s)
           else if local_fin st then (Some (Inr ()), s)
           else enqueue_fin sid (SendFin sid (remote_fin st) caller)
                  (s\<lparr>streams := Some (active_id, st\<lparr>local_fin := True\<rparr>)\<rparr>)))"

text \<open>The rest of \<^verbatim>\<open>close_stream_by_id\<close> after the FIN was sent, or not.\<close>

definition close_stream_rest :: "nat \<Rightarrow> u32 \<Rightarrow> unit io_result \<Rightarrow> session \<Rightarrow> unit io_result \<times> session" where
  "close_stream_rest now sid r s =
     (let s1 = finish_or_retire_stream now sid (is_ok r) s
      in case r of
           Inl e \<Rightarrow> (if e \<noteq> BrokenPipe then (Inl e, s1) else (Inr (), s1))
         | Inr _ \<Rightarrow> (Inr (), s1))"

definition close_stream_by_id :: "nat \<Rightarrow> u32 \<Rightarrow> session \<Rightarrow> op_result \<times> session" where
  "close_stream_by_id now sid s =
     (if closed s then (Some (Inr ()), s)
      else case send_fin_by_id sid CloseStream s of
             (None, s1) \<Rightarrow> (None, s1)
           | (Some r, s1) \<Rightarrow> (let (r', s2) = close_stream_rest now sid r s1 in (Some r', s2)))"

definition send_fin_rest ::
    "nat \<Rightarrow> u32 \<Rightarrow> bool \<Rightarrow> fin_caller \<Rightarrow> unit io_result \<Rightarrow> session \<Rightarrow> unit io_result \<times> session" where
  "send_fin_rest now sid remote caller r s =
     (let s1 = (if is_ok r \<and> remote then finish_stream_if_closed now sid s else s)
      in case caller of
           ShutdownWrite \<Rightarrow> (r, s1)
         | CloseStream \<Rightarrow> close_stream_rest now sid r s1)"

section \<open>Dropping a stream\<close>

definition drop_stream_rest :: "nat \<Rightarrow> u32 \<Rightarrow> unit io_result \<Rightarrow> session \<Rightarrow> session" where
  "drop_stream_rest now sid fin_result s =
     finish_or_retire_stream now sid (is_ok fin_result) (finish_stream_if_closed now sid s)"

definition helper_drop_stream_by_id :: "nat \<Rightarrow> u32 \<Rightarrow> session \<Rightarrow> session" where
  "helper_drop_stream_by_id now sid s =
     (case streams s of
        Some (active_id, st) \<Rightarrow>
          (if active_id = sid \<and> \<not> local_fin st
           then (case enqueue_fin sid (DropFin sid)
                        (s\<lparr>streams := Some (active_id, st\<lparr>local_fin := True\<rparr>)\<rparr>) of
                   (None, s1) \<Rightarrow> s1
                 | (Some r, s1) \<Rightarrow> drop_stream_rest now sid r s1)
           else drop_stream_rest now sid (Inr ()) s)
      | None \<Rightarrow> drop_stream_rest now sid (Inr ()) s)"

section \<open>Starting the session\<close>

text \<open>
  The settings a client announces; \<open>order\<close> arranges them in the iteration order of the hash map.
\<close>

definition client_settings :: "string \<Rightarrow> session \<Rightarrow> (string \<times> string) list" where
  "client_settings pkg_version s =
     [(''v'', ''2''), (''client'', PROGRAM_VERSION_NAME pkg_version), (''padding-md5'', md5 (padding s)),
      (''session'', nat_to_string (session_id s))]"

definition run_rest :: "nat \<Rightarrow> session \<Rightarrow> unit io_result \<times> session" where
  "run_rest now s =
     (if \<not> reader_present s then (Inl AlreadyExists, s)
      else
        (Inr (), s\<lparr>reader_present := False, main_loop_running := True,
                   heartbeat := (if is_client s then HbTick (now + HEARTBEAT_INTERVAL) else heartbeat s),
                   expiration_armed := (max_age s \<noteq> 0)\<rparr>))"

definition run ::
    "((string \<times> string) list \<Rightarrow> (string \<times> string) list) \<Rightarrow> string \<Rightarrow> nat \<Rightarrow> session \<Rightarrow> op_result \<times> session" where
  "run order pkg_version now s =
     (if is_client s
      then write_control ((frame_new Settings 0)\<lparr>data := to_bytes (order (client_settings pkg_version s))\<rparr>)
             RunSession s
      else (let (r, s1) = run_rest now s in (Some r, s1)))"

section \<open>Resuming a suspended operation\<close>

definition heartbeat_rest :: "nat \<Rightarrow> unit io_result \<Rightarrow> session \<Rightarrow> unit io_result \<times> session" where
  "heartbeat_rest now r s =
     (case r of
        Inl e \<Rightarrow> (Inl e, (shutdown s)\<lparr>heartbeat := HbOff\<rparr>)
      | Inr _ \<Rightarrow>
          (Inr (), s\<lparr>heartbeat := (case heartbeat s of HbWrite next \<Rightarrow> HbAwait next now | h \<Rightarrow> h)\<rparr>))"

definition resume :: "nat \<Rightarrow> continuation \<Rightarrow> unit io_result \<Rightarrow> session \<Rightarrow> unit io_result \<times> session" where
  "resume now k r s =
     (case k of
        OpenReserved sid \<Rightarrow> open_reserved_stream_rest now sid r s
      | WriteData n \<Rightarrow> (r, s)
      | SendFin sid remote caller \<Rightarrow> send_fin_rest now sid remote caller r s
      | DropFin sid \<Rightarrow> (Inr (), drop_stream_rest now sid r s)
      | WriteControl \<Rightarrow> (r, s)
      | RunSession \<Rightarrow> (case r of Inl e \<Rightarrow> (Inl e, s) | Inr _ \<Rightarrow> run_rest now s)
      | Heartbeat \<Rightarrow> heartbeat_rest now r s)"

end
