(* ===== verification/Session_Receive.thy ===== *)
theory Session_Receive
  imports Session_Streams
begin

text \<open>
  The inbound side of a session (\<^verbatim>\<open>src/runtime/session.rs\<close>): one function per command of
  \<^verbatim>\<open>receive_loop\<close>, the dispatch with its two validity checks, and the loop itself over a reader.
  Parameters: \<open>digest\<close> is MD5, \<open>order\<close> the iteration order of a hash map.
\<close>

section \<open>The push queue of a stream\<close>

datatype try_send = Sent | SendFull | SendClosed

definition push_send :: "nat \<Rightarrow> push_message \<Rightarrow> session \<Rightarrow> try_send \<times> session" where
  "push_send i msg s =
     (let p = pumps s ! i
      in if pump_phase p = PumpDone then (SendClosed, s)
         else if length (push_queue p) \<ge> INBOUND_PUSH_QUEUE_MESSAGES + 1 then (SendFull, s)
         else (Sent, update_pump i (\<lambda>p. p\<lparr>push_queue := push_queue p @ [msg], accepted := accepted p @ [msg]\<rparr>) s))"

text \<open>The permits for a payload: acquired before the message is sent, given back when it is not.\<close>

definition take_slots :: "nat \<Rightarrow> nat \<Rightarrow> session \<Rightarrow> session" where
  "take_slots i n s = update_pump i (\<lambda>p. p\<lparr>push_slots := push_slots p - n\<rparr>) s"

section \<open>Commands\<close>

text \<open>What a command leaves the loop to do: go on, or stop with a result.\<close>

datatype flow = RecvContinue | RecvStop "unit io_result"

definition on_receive_push :: "nat \<Rightarrow> u32 \<Rightarrow> byte list \<Rightarrow> session \<Rightarrow> flow \<times> session" where
  "on_receive_push now sid bs s =
     (case streams s of
        None \<Rightarrow> (RecvContinue, s)
      | Some (active_id, st) \<Rightarrow>
          (if active_id \<noteq> sid then (RecvContinue, s)
           else if length bs \<le> push_slots (pumps s ! stream_pump st) then
             (case push_send (stream_pump st) (PushData bs) s of
                (Sent, s1) \<Rightarrow> (RecvContinue, take_slots (stream_pump st) (length bs) s1)
              | (_, s1) \<Rightarrow>
                  (if closed s1 then (RecvContinue, s1)
                   else case queue_control (frame_new Fin sid) s1 of
                          (Inl e, s2) \<Rightarrow> (RecvStop (Inl e), s2)
                        | (Inr _, s2) \<Rightarrow> (RecvContinue, remove_stream_by_id now sid s2)))
           else
             (case queue_control (frame_new Fin sid) s of
                (Inl e, s1) \<Rightarrow> (RecvStop (Inl e), s1)
              | (Inr _, s1) \<Rightarrow> (RecvContinue, remove_stream_by_id now sid s1))))"

definition on_receive_syn_cmd :: "nat \<Rightarrow> u32 \<Rightarrow> session \<Rightarrow> flow \<times> session" where
  "on_receive_syn_cmd now sid s =
     (if is_client s \<or> incoming s = None then (RecvContinue, s)
      else if \<not> received_settings s then
        (case queue_control ((frame_new Alert 0)\<lparr>data := as_bytes ''client did not send its settings''\<rparr>) s of
           (Inl e, s1) \<Rightarrow> (RecvStop (Inl e), s1)
         | (Inr _, s1) \<Rightarrow> (RecvStop (Inl InvalidData), s1))
      else if stream_active sid s then (RecvContinue, s)
      else if is_expired now s \<or> streams s \<noteq> None then
        (let message = (if is_expired now s then ''session reached its maximum age''
                        else ''session stream limit reached'')
         in case queue_control ((frame_new SynAck sid)\<lparr>data := as_bytes message\<rparr>) s of
              (Inl e, s1) \<Rightarrow> (RecvStop (Inl e), s1)
            | (Inr _, s1) \<Rightarrow> (RecvContinue, s1))
      else
        let (st, s1) = stream_state_new sid s;
            s2 = s1\<lparr>streams := Some (sid, st)\<rparr>
        in case incoming s2 of
             None \<Rightarrow> (RecvContinue, s2)
           | Some queue \<Rightarrow>
               (if \<not> incoming_alive s2 then (RecvStop (Inl BrokenPipe), remove_stream_by_id now sid s2)
                else if length queue < 1 then (RecvContinue, s2\<lparr>incoming := Some (queue @ [sid])\<rparr>)
                else (case queue_control ((frame_new SynAck sid)\<lparr>data := as_bytes ''incoming stream queue is full''\<rparr>) s2 of
                        (Inl e, s3) \<Rightarrow> (RecvStop (Inl e), s3)
                      | (Inr _, s3) \<Rightarrow> (RecvContinue, remove_stream_by_id now sid s3))))"

definition on_receive_fin_cmd :: "nat \<Rightarrow> u32 \<Rightarrow> session \<Rightarrow> flow \<times> session" where
  "on_receive_fin_cmd now sid s =
     (case streams s of
        None \<Rightarrow> (RecvContinue, s)
      | Some (active_id, st) \<Rightarrow>
          (if active_id = sid \<and> \<not> remote_fin st
           then
             let s1 = s\<lparr>streams := Some (active_id, st\<lparr>remote_fin := True\<rparr>)\<rparr>
             in case push_send (stream_pump st) PushFin s1 of
                  (Sent, s2) \<Rightarrow> (RecvContinue, s2)
                | (SendClosed, s2) \<Rightarrow> (RecvContinue, on_stream_read_closed now sid s2)
                | (SendFull, s2) \<Rightarrow>
                    (RecvContinue, s2\<lparr>tasks := tasks s2 @ [AwaitFinSend (stream_pump st) sid]\<rparr>)
           else (RecvContinue, s)))"

definition server_settings :: "session \<Rightarrow> (string \<times> string) list" where
  "server_settings s = [(''v'', ''2''), (''session'', nat_to_string (session_id s))]"

definition on_receive_settings ::
    "((string \<times> string) list \<Rightarrow> (string \<times> string) list) \<Rightarrow> byte list \<Rightarrow> session \<Rightarrow> flow \<times> session" where
  "on_receive_settings order bs s =
     (if is_client s then (RecvContinue, s)
      else
        let s1 = s\<lparr>received_settings := True\<rparr>;
            settings = from_bytes bs;
            s2 = (case Option.bind (settings ''session'') parse_usize of
                    None \<Rightarrow> s1 | Some n \<Rightarrow> set_peer_session_id n s1);
            (r3, s3) =
              (if settings ''padding-md5'' \<noteq> Some (md5 (padding s2))
               then queue_control ((frame_new UpdatePaddingScheme 0)\<lparr>data := raw_scheme (padding s2)\<rparr>) s2
               else (Inr (), s2))
        in case r3 of
             Inl e \<Rightarrow> (RecvStop (Inl e), s3)
           | Inr _ \<Rightarrow>
               (if (case Option.bind (settings ''v'') parse_u8 of None \<Rightarrow> 0 | Some v \<Rightarrow> v) \<ge> 2
                then
                  let s4 = s3\<lparr>peer_version := 2\<rparr>
                  in case queue_control ((frame_new ServerSettings 0)\<lparr>data := to_bytes (order (server_settings s4))\<rparr>) s4 of
                       (Inl e, s5) \<Rightarrow> (RecvStop (Inl e), s5)
                     | (Inr _, s5) \<Rightarrow> (RecvContinue, s5)
                else (RecvContinue, s3)))"

definition on_receive_synack :: "nat \<Rightarrow> u32 \<Rightarrow> byte list \<Rightarrow> session \<Rightarrow> flow \<times> session" where
  "on_receive_synack now sid bs s =
     (if bs = [] then (RecvContinue, s)
      else
        let s1 = (if is_client s then shutdown s else s)
        in (RecvContinue, remove_stream_by_id now sid s1))"

definition on_receive_heart_request :: "u32 \<Rightarrow> session \<Rightarrow> flow \<times> session" where
  "on_receive_heart_request sid s =
     (case queue_control (frame_new HeartResponse sid) s of
        (Inl e, s1) \<Rightarrow> (RecvStop (Inl e), s1)
      | (Inr _, s1) \<Rightarrow> (RecvContinue, s1))"

definition on_receive_server_settings :: "byte list \<Rightarrow> session \<Rightarrow> flow \<times> session" where
  "on_receive_server_settings bs s =
     (if is_client s then
        let settings = from_bytes bs;
            s1 = (case Option.bind (settings ''v'') parse_u8 of
                    None \<Rightarrow> s | Some version \<Rightarrow> s\<lparr>peer_version := version\<rparr>)
        in (RecvContinue,
            case Option.bind (settings ''session'') parse_usize of
              None \<Rightarrow> s1 | Some n \<Rightarrow> set_peer_session_id n s1)
      else (RecvContinue, s))"

definition on_receive_update_padding :: "(byte list \<Rightarrow> byte list) \<Rightarrow> byte list \<Rightarrow> session \<Rightarrow> flow \<times> session" where
  "on_receive_update_padding digest bs s =
     (if is_client s then
        (case padding_new digest bs of
           None \<Rightarrow> (RecvContinue, s) | Some factory \<Rightarrow> (RecvContinue, s\<lparr>padding := factory\<rparr>))
      else (RecvContinue, s))"

section \<open>One frame and the loop\<close>

definition receive_frame ::
    "(byte list \<Rightarrow> byte list) \<Rightarrow> ((string \<times> string) list \<Rightarrow> (string \<times> string) list) \<Rightarrow>
     nat \<Rightarrow> frame \<Rightarrow> session \<Rightarrow> flow \<times> session" where
  "receive_frame digest order now fr s =
     (let sid = stream_id fr;
          s0 = s\<lparr>last_activity := now\<rparr>
      in if \<not> valid_stream_id (command fr) sid then (RecvStop (Inl InvalidData), s0)
         else if \<not> allows_data (command fr) \<and> data fr \<noteq> [] then (RecvStop (Inl InvalidData), s0)
         else case command fr of
                Push \<Rightarrow> on_receive_push now sid (data fr) s0
              | Waste \<Rightarrow> (RecvContinue, s0)
              | Syn \<Rightarrow> on_receive_syn_cmd now sid s0
              | Fin \<Rightarrow> on_receive_fin_cmd now sid s0
              | Settings \<Rightarrow> on_receive_settings order (data fr) s0
              | SynAck \<Rightarrow> on_receive_synack now sid (data fr) s0
              | HeartRequest \<Rightarrow> on_receive_heart_request sid s0
              | HeartResponse \<Rightarrow> (RecvContinue, s0\<lparr>heart_notified := True\<rparr>)
              | ServerSettings \<Rightarrow> on_receive_server_settings (data fr) s0
              | UpdatePaddingScheme \<Rightarrow> on_receive_update_padding digest (data fr) s0
              | Alert \<Rightarrow> (RecvStop (Inr ()), s0))"

lemma read_from_or_eof_shrinks:
  assumes "read_from_or_eof r = Inr (Some fr, r')"
  shows "length (avail r') < length (avail r)"
proof -
  obtain b xs f where r: "r = Reader (b # xs) f"
    using assms by (cases r; cases "avail r")
      (auto simp: read_from_or_eof_def read_byte_def split: option.splits)
  with assms obtain h r2 n d where "read_exact 6 (Reader xs f) = Inr (h, r2)" "read_exact n r2 = Inr (d, r')"
    by (cases "command_try_from b")
      (auto simp: read_from_or_eof_def read_byte_def HEADER_OVERHEAD_SIZE_def io_bind_Inr_iff Let_def)
  then have "length (avail r') \<le> length xs" by (auto elim!: read_exact_InrE)
  with r show ?thesis by simp
qed

text \<open>
  The loop of \<^verbatim>\<open>receive_loop\<close> on a reader, at an instant \<open>now\<close>, run to its end without another
  task in between (the interleavings are the subject of the step relation): it ends because
  every frame consumes input.
\<close>

function receive_loop ::
    "(byte list \<Rightarrow> byte list) \<Rightarrow> ((string \<times> string) list \<Rightarrow> (string \<times> string) list) \<Rightarrow>
     nat \<Rightarrow> reader \<Rightarrow> session \<Rightarrow> unit io_result \<times> session" where
  "receive_loop digest order now r s =
     (if close_token s then (Inr (), s)
      else
        case read_from_or_eof r of
          Inl e \<Rightarrow> (if is_peer_disconnect e then (Inr (), s) else (Inl e, s))
        | Inr (None, r') \<Rightarrow> (Inr (), s)
        | Inr (Some fr, r') \<Rightarrow>
            (case receive_frame digest order now fr s of
               (RecvStop res, s') \<Rightarrow> (res, s')
             | (RecvContinue, s') \<Rightarrow> receive_loop digest order now r' s'))"
  by pat_completeness auto
termination
  by (relation "measure (\<lambda>(digest, order, now, r, s). length (avail r))")
    (auto dest: read_from_or_eof_shrinks)

declare receive_loop.simps [simp del]

text \<open>\<^verbatim>\<open>do_main_loop_task\<close>: whatever ends the loop, the session is shut down.\<close>

definition do_main_loop_task ::
    "(byte list \<Rightarrow> byte list) \<Rightarrow> ((string \<times> string) list \<Rightarrow> (string \<times> string) list) \<Rightarrow>
     nat \<Rightarrow> reader \<Rightarrow> session \<Rightarrow> session" where
  "do_main_loop_task digest order now r s =
     (let (_, s1) = receive_loop digest order now r s in shutdown (s1\<lparr>main_loop_running := False\<rparr>))"

section \<open>Accepting a stream\<close>

text \<open>
  \<open>None\<close> means that the caller keeps waiting. With a stream queued and the session closed, the
  \<^verbatim>\<open>select!\<close> takes either branch; \<open>prefer_close\<close> is its choice. A stream in the queue has never
  been handed out, so its \<^verbatim>\<open>is_closed\<close> is false.
\<close>

definition accept_stream :: "bool \<Rightarrow> session \<Rightarrow> u32 io_result option \<times> session" where
  "accept_stream prefer_close s =
     (case incoming s of
        None \<Rightarrow> (Some (Inl Unsupported), s)
      | Some [] \<Rightarrow> (if close_token s then (Some (Inl BrokenPipe), s) else (None, s))
      | Some (sid # rest) \<Rightarrow>
          (if close_token s \<and> prefer_close then (Some (Inl BrokenPipe), s)
           else (Some (Inr sid), s\<lparr>incoming := Some rest\<rparr>)))"

end
