(* ===== verification/Session_Tasks.thy ===== *)
theory Session_Tasks
  imports Session_Receive
begin

text \<open>
  A session as a system of concurrent tasks (\<^verbatim>\<open>src/runtime/session.rs\<close>): the writer task, the
  pump tasks, the heartbeat and expiration tasks, the receive loop and the callers of the
  public operations. A step runs one task from one \<^verbatim>\<open>await\<close> to the next; any task that can run
  may run. Every step has an instant \<open>now\<close>; instants need not grow, so what is shown here does
  not depend on the clock.
\<close>

section \<open>The writer task\<close>

text \<open>The biased \<^verbatim>\<open>select!\<close>: control requests overtake data requests.\<close>

definition writer_take :: "session \<Rightarrow> session option" where
  "writer_take s =
     (if \<not> writer_alive s \<or> writing s \<noteq> None then None
      else case control_queue s of
             r # rs \<Rightarrow> Some (s\<lparr>control_queue := rs, writing := Some r\<rparr>)
           | [] \<Rightarrow>
               (case data_queue s of
                  r # rs \<Rightarrow> Some (s\<lparr>data_queue := rs, writing := Some r\<rparr>)
                | [] \<Rightarrow> None))"

text \<open>The writer task ends: its channels and the request it holds are dropped.\<close>

definition writer_exit :: "session \<Rightarrow> session" where
  "writer_exit s = s\<lparr>writer_alive := False, writing := None, control_queue := [], data_queue := []\<rparr>"

text \<open>The write of the current request ended with a result, the session being open.\<close>

definition writer_finish :: "unit io_result \<Rightarrow> session \<Rightarrow> session option" where
  "writer_finish res s =
     (if close_token s then None
      else case writing s of
             None \<Rightarrow> None
           | Some r \<Rightarrow>
               (let s1 = s\<lparr>writing := None,
                           served := (if is_ok res then served s @ [bytes r] else served s),
                           completions :=
                             (case result_sender r of
                                None \<Rightarrow> completions s | Some i \<Rightarrow> completions s @ [(i, res)])\<rparr>
                in Some (if is_ok res then s1
                         else writer_exit (s1\<lparr>closed := True, close_token := True\<rparr>))))"

definition writer_cancelled :: "session \<Rightarrow> session option" where
  "writer_cancelled s = (if close_token s \<and> writer_alive s then Some (writer_exit s) else None)"

section \<open>The pump tasks\<close>

text \<open>A message sender is held by the stream entry and by a task waiting to send a FIN.\<close>

definition sender_held :: "nat \<Rightarrow> session \<Rightarrow> bool" where
  "sender_held i s \<longleftrightarrow>
     (case streams s of Some (_, st) \<Rightarrow> stream_pump st = i | None \<Rightarrow> False) \<or>
     list_ex (\<lambda>t. case t of AwaitFinSend j _ \<Rightarrow> j = i | _ \<Rightarrow> False) (tasks s)"

text \<open>The messages without their FIN markers, as bytes.\<close>

definition data_of :: "push_message list \<Rightarrow> byte list" where
  "data_of ms = concat (map (\<lambda>m. case m of PushData d \<Rightarrow> d | PushFin \<Rightarrow> []) ms)"

text \<open>The pump drops its receiver: queued messages are lost and their permits released.\<close>

definition pump_exit :: "pump \<Rightarrow> pump" where
  "pump_exit p =
     p\<lparr>pump_phase := PumpDone, push_queue := [],
       push_slots := push_slots p + length (data_of (push_queue p))\<rparr>"

text \<open>The biased \<^verbatim>\<open>select!\<close> of the pump: queued messages come before the close signal.\<close>

definition pump_recv :: "nat \<Rightarrow> nat \<Rightarrow> session \<Rightarrow> session option" where
  "pump_recv now i s =
     (let p = pumps s ! i
      in if i \<ge> length (pumps s) \<or> pump_phase p \<noteq> PumpRecv then None
         else case push_queue p of
                PushData d # rest \<Rightarrow>
                  Some (update_pump i (\<lambda>p. p\<lparr>push_queue := rest, pump_phase := PumpWrite d\<rparr>) s)
              | PushFin # rest \<Rightarrow>
                  Some (on_stream_read_closed now (pump_stream p)
                    (update_pump i (\<lambda>p. p\<lparr>push_queue := rest, pump_phase := PumpExit, delivered_eof := True\<rparr>) s))
              | [] \<Rightarrow>
                  (if pump_token p \<or> \<not> sender_held i s then Some (update_pump i pump_exit s) else None))"

text \<open>
  The write into the stream's pipe: it completes, fails after \<open>n\<close> bytes, or, once the stream is
  closed, times out after \<open>n\<close> bytes. The permit of the message is released in each case.
\<close>

definition pump_written :: "nat \<Rightarrow> session \<Rightarrow> session option" where
  "pump_written i s =
     (if i \<ge> length (pumps s) then None
      else case pump_phase (pumps s ! i) of
             PumpWrite d \<Rightarrow>
               Some (update_pump i (\<lambda>p. p\<lparr>pump_phase := PumpRecv, delivered := delivered p @ d,
                       push_slots := push_slots p + length d\<rparr>) s)
           | _ \<Rightarrow> None)"

definition pump_stopped :: "nat \<Rightarrow> pump \<Rightarrow> byte list \<Rightarrow> pump" where
  "pump_stopped n p d =
     p\<lparr>pump_phase := PumpExit, delivered := delivered p @ take n d, push_slots := push_slots p + length d\<rparr>"

definition pump_failed :: "nat \<Rightarrow> nat \<Rightarrow> nat \<Rightarrow> session \<Rightarrow> session option" where
  "pump_failed now n i s =
     (if i \<ge> length (pumps s) then None
      else case pump_phase (pumps s ! i) of
             PumpWrite d \<Rightarrow>
               Some (on_stream_read_closed now (pump_stream (pumps s ! i))
                 (update_pump i (\<lambda>p. pump_stopped n p d) s))
           | _ \<Rightarrow> None)"

definition pump_timed_out :: "nat \<Rightarrow> nat \<Rightarrow> session \<Rightarrow> session option" where
  "pump_timed_out n i s =
     (if i \<ge> length (pumps s) \<or> \<not> pump_token (pumps s ! i) then None
      else case pump_phase (pumps s ! i) of
             PumpWrite d \<Rightarrow> Some (update_pump i (\<lambda>p. pump_stopped n p d) s)
           | _ \<Rightarrow> None)"

definition pump_returned :: "nat \<Rightarrow> session \<Rightarrow> session option" where
  "pump_returned i s =
     (if i < length (pumps s) \<and> pump_phase (pumps s ! i) = PumpExit
      then Some (update_pump i pump_exit s) else None)"

section \<open>Heartbeat and expiration\<close>

definition heartbeat_tick :: "nat \<Rightarrow> session \<Rightarrow> session option" where
  "heartbeat_tick now s =
     (case heartbeat s of
        HbTick next \<Rightarrow>
          (if now < next then None
           else if peer_version s < 2 then Some (s\<lparr>heartbeat := HbTick (now + HEARTBEAT_INTERVAL)\<rparr>)
           else
             (case write_heartbeat now (s\<lparr>heartbeat := HbWrite (now + HEARTBEAT_INTERVAL), heart_notified := False\<rparr>) of
                (Some r, s1) \<Rightarrow> Some (snd (heartbeat_rest now r s1))
              | (None, s1) \<Rightarrow> Some s1))
      | _ \<Rightarrow> None)"

definition heartbeat_answered :: "session \<Rightarrow> session option" where
  "heartbeat_answered s =
     (case heartbeat s of
        HbAwait next since \<Rightarrow> (if heart_notified s then Some (s\<lparr>heartbeat := HbTick next\<rparr>) else None)
      | _ \<Rightarrow> None)"

text \<open>The response timer restarts whenever a frame arrives.\<close>

definition heartbeat_timed_out :: "nat \<Rightarrow> session \<Rightarrow> session option" where
  "heartbeat_timed_out now s =
     (case heartbeat s of
        HbAwait next since \<Rightarrow>
          (if max since (last_activity s) + HEARTBEAT_TIMEOUT \<le> now
           then Some ((shutdown s)\<lparr>heartbeat := HbOff\<rparr>) else None)
      | _ \<Rightarrow> None)"

definition heartbeat_cancelled :: "session \<Rightarrow> session option" where
  "heartbeat_cancelled s =
     (if close_token s \<and> heartbeat s \<noteq> HbOff
      then Some (s\<lparr>heartbeat := HbOff,
                   tasks := filter (\<lambda>t. case t of
                     AwaitPermit _ _ _ _ Heartbeat \<Rightarrow> False | AwaitResult _ Heartbeat \<Rightarrow> False | _ \<Rightarrow> True) (tasks s)\<rparr>)
      else None)"

definition expiration_fired :: "nat \<Rightarrow> session \<Rightarrow> session option" where
  "expiration_fired now s =
     (if expiration_armed s \<and> \<not> close_token s \<and> created_at s + max_age s \<le> now
      then Some (let s1 = s\<lparr>expiration_armed := False\<rparr> in if is_idle s1 then shutdown s1 else s1)
      else None)"

section \<open>Suspended operations\<close>

definition drop_task :: "task \<Rightarrow> session \<Rightarrow> session" where
  "drop_task t s = s\<lparr>tasks := remove1 t (tasks s)\<rparr>"

text \<open>The rest of \<^verbatim>\<open>enqueue_encoded_with_mode\<close> once the queue has room.\<close>

definition permit_granted :: "queue_sel \<Rightarrow> byte list \<Rightarrow> bool \<Rightarrow> continuation \<Rightarrow> session \<Rightarrow> session option" where
  "permit_granted q bs disable k s =
     (if writer_alive s \<and> length (queue_of q s) < WRITE_QUEUE_CAPACITY
      then
        (let s1 = push_request q
               \<lparr>bytes = bs, disable_buffering_after = disable, result_sender = Some (next_request s)\<rparr> s
         in Some (s1\<lparr>tasks := tasks s1 @ [AwaitResult (next_request s) k], next_request := next_request s + 1\<rparr>))
      else None)"

text \<open>Why a task waiting for room can give up.\<close>

definition permit_refused :: "nat \<Rightarrow> nat option \<Rightarrow> io_error \<Rightarrow> session \<Rightarrow> bool" where
  "permit_refused now deadline e s \<longleftrightarrow>
     (e = BrokenPipe \<and> (close_token s \<or> \<not> writer_alive s)) \<or>
     (e = TimedOut \<and> (case deadline of Some d \<Rightarrow> d \<le> now | None \<Rightarrow> False))"

text \<open>The answers a task waiting for its write request can see.\<close>

definition request_answer :: "nat \<Rightarrow> unit io_result \<Rightarrow> session \<Rightarrow> bool" where
  "request_answer i r s \<longleftrightarrow>
     (i, r) \<in> set (completions s) \<or>
     (r = Inl BrokenPipe \<and> (close_token s \<or> (\<not> writer_alive s \<and> i \<notin> fst ` set (completions s))))"

definition forget_completion :: "nat \<Rightarrow> session \<Rightarrow> session" where
  "forget_completion i s = s\<lparr>completions := filter (\<lambda>c. fst c \<noteq> i) (completions s)\<rparr>"

definition fin_send :: "nat \<Rightarrow> nat \<Rightarrow> u32 \<Rightarrow> session \<Rightarrow> session option" where
  "fin_send now i sid s =
     (case push_send i PushFin s of
        (Sent, s1) \<Rightarrow> Some s1
      | (SendClosed, s1) \<Rightarrow> Some (on_stream_read_closed now sid s1)
      | (SendFull, s1) \<Rightarrow> None)"

section \<open>Steps\<close>

text \<open>
  The steps a session takes by itself, with the iteration order \<open>order\<close> of a hash map and the
  package version. Client sessions reserve streams, as only the client pool calls
  \<^verbatim>\<open>reserve_stream\<close>, and it calls it after \<^verbatim>\<open>run\<close>, which takes the reader; the reservation step is
  the locked section alone, so that it may run after the session was closed. The operations on a
  stream come from a stream handle, which carries the non-zero id of a reserved or accepted stream;
  the control frames written by callers are the SynAck frames of the two handshake reports, for a
  peer of version 2. The client that pools a session sets its idle sender and receives what it
  sends. The padding scheme is shared with the other sessions and may change at any time.
\<close>

inductive local_step ::
    "((string \<times> string) list \<Rightarrow> (string \<times> string) list) \<Rightarrow> string \<Rightarrow> session \<Rightarrow> session \<Rightarrow> bool"
  for order pkg_version where
    step_writer_take: "writer_take s = Some s' \<Longrightarrow> local_step order pkg_version s s'"
  | step_writer_finish: "writer_finish res s = Some s' \<Longrightarrow> local_step order pkg_version s s'"
  | step_writer_cancelled: "writer_cancelled s = Some s' \<Longrightarrow> local_step order pkg_version s s'"
  | step_pump_recv: "pump_recv now i s = Some s' \<Longrightarrow> local_step order pkg_version s s'"
  | step_pump_written: "pump_written i s = Some s' \<Longrightarrow> local_step order pkg_version s s'"
  | step_pump_failed: "pump_failed now n i s = Some s' \<Longrightarrow> local_step order pkg_version s s'"
  | step_pump_timed_out: "pump_timed_out n i s = Some s' \<Longrightarrow> local_step order pkg_version s s'"
  | step_pump_returned: "pump_returned i s = Some s' \<Longrightarrow> local_step order pkg_version s s'"
  | step_heartbeat_tick: "heartbeat_tick now s = Some s' \<Longrightarrow> local_step order pkg_version s s'"
  | step_heartbeat_answered: "heartbeat_answered s = Some s' \<Longrightarrow> local_step order pkg_version s s'"
  | step_heartbeat_timed_out: "heartbeat_timed_out now s = Some s' \<Longrightarrow> local_step order pkg_version s s'"
  | step_heartbeat_cancelled: "heartbeat_cancelled s = Some s' \<Longrightarrow> local_step order pkg_version s s'"
  | step_expiration: "expiration_fired now s = Some s' \<Longrightarrow> local_step order pkg_version s s'"
  | step_permit_granted:
      "AwaitPermit q bs disable deadline k \<in> set (tasks s) \<Longrightarrow>
       permit_granted q bs disable k (drop_task (AwaitPermit q bs disable deadline k) s) = Some s' \<Longrightarrow>
       local_step order pkg_version s s'"
  | step_permit_refused:
      "AwaitPermit q bs disable deadline k \<in> set (tasks s) \<Longrightarrow> permit_refused now deadline e s \<Longrightarrow>
       s' = snd (resume now k (Inl e) (drop_task (AwaitPermit q bs disable deadline k) s)) \<Longrightarrow>
       local_step order pkg_version s s'"
  | step_answered:
      "AwaitResult i k \<in> set (tasks s) \<Longrightarrow> request_answer i r s \<Longrightarrow>
       s' = snd (resume now k r (forget_completion i (drop_task (AwaitResult i k) s))) \<Longrightarrow>
       local_step order pkg_version s s'"
  | step_fin_send:
      "AwaitFinSend i sid \<in> set (tasks s) \<Longrightarrow> fin_send now i sid (drop_task (AwaitFinSend i sid) s) = Some s' \<Longrightarrow>
       local_step order pkg_version s s'"
  | step_fin_cancelled:
      "AwaitFinSend i sid \<in> set (tasks s) \<Longrightarrow> pump_token (pumps s ! i) \<Longrightarrow>
       local_step order pkg_version s (drop_task (AwaitFinSend i sid) s)"
  | step_close_timeout:
      "AwaitCloseTimeout sid deadline \<in> set (tasks s) \<Longrightarrow> deadline \<le> now \<Longrightarrow>
       local_step order pkg_version s
         (close_timeout_fired sid (drop_task (AwaitCloseTimeout sid deadline) s))"
  | step_receive_end:
      "main_loop_running s \<Longrightarrow> s' = shutdown (s\<lparr>main_loop_running := False\<rparr>) \<Longrightarrow>
       local_step order pkg_version s s'"
  | step_run: "run order pkg_version now s = (r, s') \<Longrightarrow> local_step order pkg_version s s'"
  | step_reserve:
      "is_client s \<Longrightarrow> \<not> reader_present s \<Longrightarrow> sid \<noteq> 0 \<Longrightarrow> reserve_locked now sid s = (r, s') \<Longrightarrow>
       local_step order pkg_version s s'"
  | step_open: "\<not> reader_present s \<Longrightarrow> sid \<noteq> 0 \<Longrightarrow> open_reserved_stream now sid s = (r, s') \<Longrightarrow> local_step order pkg_version s s'"
  | step_write: "sid \<noteq> 0 \<Longrightarrow> write_data sid bs s = (r, s') \<Longrightarrow> local_step order pkg_version s s'"
  | step_send_fin: "sid \<noteq> 0 \<Longrightarrow> send_fin_by_id sid ShutdownWrite s = (r, s') \<Longrightarrow> local_step order pkg_version s s'"
  | step_close: "sid \<noteq> 0 \<Longrightarrow> close_stream_by_id now sid s = (r, s') \<Longrightarrow> local_step order pkg_version s s'"
  | step_drop: "sid \<noteq> 0 \<Longrightarrow> s' = helper_drop_stream_by_id now sid s \<Longrightarrow> local_step order pkg_version s s'"
  | step_control:
      "2 \<le> peer_version s \<Longrightarrow> command fr = SynAck \<Longrightarrow> stream_id fr \<noteq> 0 \<Longrightarrow> write_control fr WriteControl s = (r, s') \<Longrightarrow> local_step order pkg_version s s'"
  | step_accept: "accept_stream prefer_close s = (r, s') \<Longrightarrow> local_step order pkg_version s s'"
  | step_shutdown: "s' = shutdown s \<Longrightarrow> local_step order pkg_version s s'"
  | step_idle_sender: "s' = set_idle_sender s \<Longrightarrow> local_step order pkg_version s s'"
  | step_idle_received:
      "0 < idle_notices s \<Longrightarrow> s' = s\<lparr>idle_notices := idle_notices s - 1\<rparr> \<Longrightarrow> local_step order pkg_version s s'"
  | step_padding: "s' = s\<lparr>padding := pf\<rparr> \<Longrightarrow> local_step order pkg_version s s'"

text \<open>
  The receive loop handles a frame, also after the close signal, as its \<^verbatim>\<open>select!\<close> is not biased;
  \<open>digest\<close> is MD5.
\<close>

inductive receive_step ::
    "(byte list \<Rightarrow> byte list) \<Rightarrow> ((string \<times> string) list \<Rightarrow> (string \<times> string) list) \<Rightarrow> frame \<Rightarrow>
     session \<Rightarrow> session \<Rightarrow> bool"
  for digest order fr where
    step_receive:
      "main_loop_running s \<Longrightarrow> receive_frame digest order now fr s = (RecvContinue, s') \<Longrightarrow>
       receive_step digest order fr s s'"
  | step_receive_stop:
      "main_loop_running s \<Longrightarrow> receive_frame digest order now fr s = (RecvStop res, s1) \<Longrightarrow>
       s' = shutdown (s1\<lparr>main_loop_running := False\<rparr>) \<Longrightarrow> receive_step digest order fr s s'"

text \<open>A session whose peer may send anything.\<close>

inductive session_step ::
    "(byte list \<Rightarrow> byte list) \<Rightarrow> ((string \<times> string) list \<Rightarrow> (string \<times> string) list) \<Rightarrow> string \<Rightarrow>
     session \<Rightarrow> session \<Rightarrow> bool"
  for digest order pkg_version where
    session_local: "local_step order pkg_version s s' \<Longrightarrow> session_step digest order pkg_version s s'"
  | session_receive: "receive_step digest order fr s s' \<Longrightarrow> session_step digest order pkg_version s s'"

definition session_init :: "session \<Rightarrow> bool" where
  "session_init s \<longleftrightarrow> (\<exists>sid pf age now. s = new_client sid pf age now \<or> s = new_server sid pf age now)"

end
