(* ===== verification/Session_Keep.thy ===== *)
theory Session_Keep
  imports Session_Tasks
begin

text \<open>
  What is kept by the primitive updates of a session is kept by everything built from them.
  \<open>kept\<close> names the updates every operation uses: the fields that carry no stream and no request,
  a new task, the close flags, cancelling, flagging and creating a stream, and the control queue;
  a request is the encoding of a frame the receiver admits. \<open>kept_local\<close> adds those of the tasks,
  the pumps and the writer, \<open>kept_receive\<close> those of the received stream commands. Their lemmas go
  through the operations once; the invariants of a session and its stable properties are instances.
\<close>

definition encodes_frame :: "byte list \<Rightarrow> bool" where
  "encodes_frame bs \<longleftrightarrow> (\<exists>fr. frame_ok fr \<and> encode fr = Inr bs)"

definition plain_task :: "task \<Rightarrow> bool" where
  "plain_task t =
     (case t of AwaitPermit _ bs _ _ _ \<Rightarrow> encodes_frame bs | AwaitCloseTimeout _ _ \<Rightarrow> True | _ \<Rightarrow> False)"

lemma push_send_not_sent: "push_send i m s = (r, s') \<Longrightarrow> r \<noteq> Sent \<Longrightarrow> s' = s"
  by (auto simp: push_send_def Let_def split: if_splits)

lemma stream_frame_ok:
  "sid \<noteq> 0 \<Longrightarrow> c \<in> {Syn, Fin, Push, SynAck} \<Longrightarrow> frame_ok (frame_new c sid)"
  "sid \<noteq> 0 \<Longrightarrow> c \<in> {Push, SynAck} \<Longrightarrow> frame_ok ((frame_new c sid)\<lparr>data := bs\<rparr>)"
  by (auto simp: frame_ok_new valid_stream_id_def allows_data_def word_gt_0)

lemma control_frame_ok:
  "c \<in> {HeartRequest, HeartResponse} \<Longrightarrow> frame_ok (frame_new c 0)"
  "c \<in> {Settings, ServerSettings, UpdatePaddingScheme, Alert} \<Longrightarrow> frame_ok ((frame_new c 0)\<lparr>data := bs\<rparr>)"
  by (auto simp: frame_ok_new valid_stream_id_def allows_data_def)

text \<open>The definitions that unfold the primitive updates, for predicates on few fields.\<close>

lemmas primitive_updates = queue_control_def push_request_def cancel_stream_def update_pump_def stream_state_new_def
  take_slots_def push_send_def drop_task_def forget_completion_def permit_granted_def writer_take_def
  writer_finish_def writer_exit_def Let_def

lemmas primitive_splits = sum.splits if_splits list.splits option.splits queue_sel.splits

locale kept =
  fixes P :: "session \<Rightarrow> bool"
  assumes keep_fields:
      "P (s\<lparr>idle_sender := b\<rparr>) = P s" "P (s\<lparr>heartbeat := h\<rparr>) = P s" "P (s\<lparr>heart_notified := b\<rparr>) = P s"
      "P (s\<lparr>expiration_armed := b\<rparr>) = P s"
      "P (s\<lparr>main_loop_running := b\<rparr>) = P s" "P (s\<lparr>last_activity := n\<rparr>) = P s"
      "P (s\<lparr>peer_version := v\<rparr>) = P s" "P (s\<lparr>peer_session_id := x\<rparr>) = P s" "P (s\<lparr>padding := pf\<rparr>) = P s"
    and keep_reader: "P s \<Longrightarrow> P (s\<lparr>reader_present := False\<rparr>)"
    and keep_settings: "P s \<Longrightarrow> P (s\<lparr>received_settings := True\<rparr>)"
    and keep_incoming: "P s \<Longrightarrow> incoming s = Some [] \<Longrightarrow> P (s\<lparr>incoming := Some [sid]\<rparr>)"
    and keep_task: "P s \<Longrightarrow> plain_task t \<Longrightarrow> P (s\<lparr>tasks := tasks s @ [t]\<rparr>)"
    and keep_close: "P s \<Longrightarrow> P (s\<lparr>closed := True, close_token := True\<rparr>)"
    and keep_cancel: "P s \<Longrightarrow> streams s = Some (sid, st) \<Longrightarrow> P (cancel_stream st (s\<lparr>streams := None\<rparr>))"
    and keep_notice: "P s \<Longrightarrow> streams s = Some (sid, st) \<Longrightarrow>
      P ((cancel_stream st (s\<lparr>streams := None\<rparr>))\<lparr>idle_notices := Suc (idle_notices s)\<rparr>)"
    and keep_flags: "P s \<Longrightarrow> streams s = Some (sid, st) \<Longrightarrow> stream_pump st' = stream_pump st \<Longrightarrow>
      P (s\<lparr>streams := Some (sid, st')\<rparr>)"
    and keep_control: "P s \<Longrightarrow> frame_ok fr \<Longrightarrow> P (snd (queue_control fr s))"
begin

declare keep_fields [simp]

section \<open>Closing and removing\<close>

lemma shutdown_keep: "P s \<Longrightarrow> P (shutdown s)"
  using keep_reader [OF keep_close, of s] keep_cancel [of "s\<lparr>closed := True, close_token := True, reader_present := False\<rparr>"]
  by (auto simp: shutdown_def Let_def split: option.splits)

lemma remove_stream_keep: "P s \<Longrightarrow> P (remove_stream_by_id now sid s)"
  using keep_cancel [of s] keep_notice [of s]
  by (auto simp: remove_stream_by_id_def cancel_stream_def update_pump_def Let_def split: option.splits
      intro: shutdown_keep)

lemma set_stream_keep:
  "(\<And>st. stream_pump (f st) = stream_pump st) \<Longrightarrow> P s \<Longrightarrow> P (set_stream sid f s)"
  by (auto simp: set_stream_def split: option.splits intro: keep_flags)

lemma finish_stream_keep: "P s \<Longrightarrow> P (finish_stream_if_closed now sid s)"
  by (simp add: finish_stream_if_closed_def Let_def remove_stream_keep)

lemma read_closed_keep: "P s \<Longrightarrow> P (on_stream_read_closed now sid s)"
  unfolding on_stream_read_closed_def by (intro finish_stream_keep set_stream_keep) simp_all

lemma finish_or_retire_keep: "P s \<Longrightarrow> P (finish_or_retire_stream now sid b s)"
  using keep_task [of s "AwaitCloseTimeout sid (now + STREAM_CLOSE_TIMEOUT)"]
  by (simp add: finish_or_retire_stream_def remove_stream_keep shutdown_keep plain_task_def)

lemma close_timeout_keep: "P s \<Longrightarrow> P (close_timeout_fired sid s)"
  by (simp add: close_timeout_fired_def shutdown_keep)

section \<open>Suspending and resuming\<close>

lemma enqueue_keep: "P s \<Longrightarrow> encode fr = Inr bs \<Longrightarrow> frame_ok fr \<Longrightarrow> P (enqueue_encoded_with_mode q bs d dl k s)"
  using keep_task [of s "AwaitPermit q bs d dl k"]
  by (auto simp: enqueue_encoded_with_mode_def plain_task_def encodes_frame_def)

lemma enqueue_frame_keep:
  "P s \<Longrightarrow> frame_ok fr \<Longrightarrow> P (snd (enqueue_frame fr d k s))"
  "P s \<Longrightarrow> frame_ok fr \<Longrightarrow> P (snd (write_control fr k s))"
  "P s \<Longrightarrow> sid \<noteq> 0 \<Longrightarrow> P (snd (enqueue_fin sid k s))"
  by (auto simp: enqueue_frame_def write_control_def enqueue_fin_def enqueue_bytes_def stream_frame_ok
      split: sum.splits intro!: enqueue_keep)

lemma open_rest_keep: "P s \<Longrightarrow> P (snd (open_reserved_stream_rest now sid r s))"
  by (auto simp: open_reserved_stream_rest_def split: sum.splits intro: remove_stream_keep)

lemma close_rest_keep: "P s \<Longrightarrow> P (snd (close_stream_rest now sid r s))"
  by (auto simp: close_stream_rest_def Let_def split: sum.splits intro: finish_or_retire_keep)

lemma send_fin_rest_keep: "P s \<Longrightarrow> P (snd (send_fin_rest now sid b c r s))"
  by (auto simp: send_fin_rest_def Let_def split: fin_caller.splits intro: close_rest_keep finish_stream_keep)

lemma drop_rest_keep: "P s \<Longrightarrow> P (drop_stream_rest now sid r s)"
  by (simp add: drop_stream_rest_def finish_or_retire_keep finish_stream_keep)

lemma run_rest_keep: "P s \<Longrightarrow> P (snd (run_rest now s))"
  using keep_reader [of s] by (simp add: run_rest_def)

lemma heartbeat_rest_keep: "P s \<Longrightarrow> P (snd (heartbeat_rest now r s))"
  by (auto simp: heartbeat_rest_def split: sum.splits intro: shutdown_keep)

lemma resume_keep: "P s \<Longrightarrow> P (snd (resume now k r s))"
  by (auto simp: resume_def split: continuation.splits sum.splits
      intro: open_rest_keep send_fin_rest_keep drop_rest_keep run_rest_keep heartbeat_rest_keep)

section \<open>Stream operations\<close>

lemma local_fin_keep: "P s \<Longrightarrow> streams s = Some (sid, st) \<Longrightarrow> P (s\<lparr>streams := Some (sid, st\<lparr>local_fin := True\<rparr>)\<rparr>)"
  by (erule keep_flags) simp_all

lemma open_keep: "P s \<Longrightarrow> sid \<noteq> 0 \<Longrightarrow> P (snd (open_reserved_stream now sid s))"
  by (auto simp: open_reserved_stream_def enqueue_frame_def remove_stream_keep stream_frame_ok
      split: sum.splits intro!: enqueue_keep)

lemma write_data_keep: "P s \<Longrightarrow> sid \<noteq> 0 \<Longrightarrow> P (snd (write_data sid bs s))"
  by (auto simp: write_data_def enqueue_bytes_def stream_frame_ok Let_def split: sum.splits intro!: enqueue_keep)

lemma send_fin_keep: "P s \<Longrightarrow> sid \<noteq> 0 \<Longrightarrow> P (snd (send_fin_by_id sid c s))"
  by (auto simp: send_fin_by_id_def split: option.splits intro!: enqueue_frame_keep(3) local_fin_keep)

lemma close_stream_keep:
  assumes "P s" and "sid \<noteq> 0"
  shows "P (snd (close_stream_by_id now sid s))"
proof -
  obtain r s1 where f: "send_fin_by_id sid CloseStream s = (r, s1)" by fastforce
  then have "P s1" using send_fin_keep [OF assms, of CloseStream] by simp
  with f assms show ?thesis
    using close_rest_keep [of s1 now sid]
    by (auto simp: close_stream_by_id_def split: option.splits prod.splits) (metis snd_conv)
qed

lemma drop_stream_keep: "P s \<Longrightarrow> sid \<noteq> 0 \<Longrightarrow> P (helper_drop_stream_by_id now sid s)"
  using local_fin_keep [of s] drop_rest_keep
  by (auto simp: helper_drop_stream_by_id_def enqueue_fin_def enqueue_bytes_def stream_frame_ok
      split: option.splits sum.splits intro!: enqueue_keep)

lemma run_keep: "P s \<Longrightarrow> P (snd (run order v now s))"
  using run_rest_keep [of s now] by (auto simp: run_def control_frame_ok split: prod.splits intro!: enqueue_frame_keep(2))

section \<open>Timers\<close>

lemma heartbeat_tick_keep: "heartbeat_tick now s = Some s' \<Longrightarrow> P s \<Longrightarrow> P s'"
  by (auto simp: heartbeat_tick_def write_heartbeat_def control_frame_ok split: heartbeat.splits if_splits sum.splits
      intro!: heartbeat_rest_keep enqueue_keep)

lemma heartbeat_answered_keep: "heartbeat_answered s = Some s' \<Longrightarrow> P s \<Longrightarrow> P s'"
  by (auto simp: heartbeat_answered_def split: heartbeat.splits if_splits)

lemma heartbeat_timed_out_keep: "heartbeat_timed_out now s = Some s' \<Longrightarrow> P s \<Longrightarrow> P s'"
  by (auto simp: heartbeat_timed_out_def split: heartbeat.splits if_splits intro!: shutdown_keep)

lemma expiration_keep: "expiration_fired now s = Some s' \<Longrightarrow> P s \<Longrightarrow> P s'"
  by (auto simp: expiration_fired_def Let_def split: if_splits intro!: shutdown_keep)

lemmas timer_keep = heartbeat_tick_keep heartbeat_answered_keep heartbeat_timed_out_keep expiration_keep

section \<open>Received commands\<close>

lemma queue_control_case:
  assumes "P s" and "frame_ok fr" and "\<And>t. P t \<Longrightarrow> P (g t)"
  shows "P (snd (case queue_control fr s of
    (Inl e, t) \<Rightarrow> (RecvStop (Inl e), t) | (Inr _, t) \<Rightarrow> (fl, g t)))"
  using keep_control [OF assms(1,2)] assms(3) by (auto split: prod.splits sum.splits)

lemma on_receive_settings_keep:
  assumes "P s"
  shows "P (snd (on_receive_settings order bs s))"
proof -
  define s2 where "s2 = (case Option.bind (from_bytes bs ''session'') parse_usize of
    None \<Rightarrow> s\<lparr>received_settings := True\<rparr> | Some n \<Rightarrow> set_peer_session_id n (s\<lparr>received_settings := True\<rparr>))"
  have s2: "P s2" using keep_settings [OF assms] by (simp add: s2_def set_peer_session_id_def split: option.splits)
  obtain r3 s3 where s3: "(if from_bytes bs ''padding-md5'' \<noteq> Some (md5 (padding s2))
      then queue_control ((frame_new UpdatePaddingScheme 0)\<lparr>data := raw_scheme (padding s2)\<rparr>) s2
      else (Inr (), s2)) = (r3, s3)" by fastforce
  then have "P s3" using s2 keep_control [OF s2 control_frame_ok(2) [of UpdatePaddingScheme]] by (metis insertI1 insertI2 snd_conv)
  then have "P (snd (case queue_control ((frame_new ServerSettings 0)\<lparr>data := d\<rparr>) (s3\<lparr>peer_version := 2\<rparr>) of
      (Inl e, t) \<Rightarrow> (RecvStop (Inl e), t) | (Inr _, t) \<Rightarrow> (RecvContinue, t)))" for d
    by (intro queue_control_case) (simp_all add: control_frame_ok)
  with \<open>P s3\<close> assms show ?thesis
    unfolding on_receive_settings_def Let_def s2_def [symmetric] s3 by (auto split: sum.splits)
qed

lemma on_receive_info_keep:
  assumes "P s"
  shows "P (snd (on_receive_synack now sid bs s))"
    and "P (snd (on_receive_heart_request 0 s))"
    and "P (snd (on_receive_server_settings bs s))"
    and "P (snd (on_receive_update_padding digest bs s))"
proof -
  show "P (snd (on_receive_synack now sid bs s))"
    using assms by (auto simp: on_receive_synack_def Let_def intro: remove_stream_keep shutdown_keep)
  show "P (snd (on_receive_heart_request 0 s))"
    using queue_control_case [OF assms control_frame_ok(1) [of HeartResponse], of "\<lambda>t. t"]
    by (simp add: on_receive_heart_request_def)
  show "P (snd (on_receive_server_settings bs s))"
    using assms by (auto simp: on_receive_server_settings_def Let_def set_peer_session_id_def split: option.splits)
  show "P (snd (on_receive_update_padding digest bs s))"
    using assms by (auto simp: on_receive_update_padding_def split: option.splits)
qed

lemma on_receive_fin_keep:
  assumes "P s" and push_fin: "\<And>st r s1. streams s = Some (sid, st) \<Longrightarrow>
      push_send (stream_pump st) PushFin (s\<lparr>streams := Some (sid, st\<lparr>remote_fin := True\<rparr>)\<rparr>) = (r, s1) \<Longrightarrow>
      P s1 \<and> P (s1\<lparr>tasks := tasks s1 @ [AwaitFinSend (stream_pump st) sid]\<rparr>)"
  shows "P (snd (on_receive_fin_cmd now sid s))"
proof (cases "\<exists>st. streams s = Some (sid, st) \<and> \<not> remote_fin st")
  case False
  with assms(1) show ?thesis by (auto simp: on_receive_fin_cmd_def split: option.splits)
next
  case True
  then obtain st where st: "streams s = Some (sid, st)" "\<not> remote_fin st" by blast
  obtain r s1 where send: "push_send (stream_pump st) PushFin (s\<lparr>streams := Some (sid, st\<lparr>remote_fin := True\<rparr>)\<rparr>) = (r, s1)"
    by fastforce
  with push_fin [OF st(1) send] st show ?thesis
    by (cases r) (simp_all add: on_receive_fin_cmd_def read_closed_keep)
qed

lemma on_receive_syn_keep:
  assumes "P s" and "sid \<noteq> 0"
    and new_stream: "\<And>st s1. streams s = None \<Longrightarrow> \<not> is_client s \<Longrightarrow> received_settings s \<Longrightarrow>
      stream_state_new sid s = (st, s1) \<Longrightarrow> P (s1\<lparr>streams := Some (sid, st)\<rparr>)"
  shows "P (snd (on_receive_syn_cmd now sid s))"
proof -
  obtain st s1 where new: "stream_state_new sid s = (st, s1)" by fastforce
  let ?s2 = "s1\<lparr>streams := Some (sid, st)\<rparr>"
  have inc: "incoming ?s2 = incoming s" using new by (auto simp: stream_state_new_def)
  consider (ignored) "is_client s \<or> incoming s = None \<or> (received_settings s \<and> stream_active sid s)"
    | (early) "\<not> is_client s" "incoming s \<noteq> None" "\<not> received_settings s"
    | (rejected) "\<not> is_client s" "incoming s \<noteq> None" "received_settings s" "\<not> stream_active sid s"
        "is_expired now s \<or> streams s \<noteq> None"
    | (accepted) queue where "\<not> is_client s" "incoming s = Some queue" "received_settings s" "\<not> stream_active sid s"
        "\<not> is_expired now s" "streams s = None" by fastforce
  then show ?thesis
  proof cases
    case ignored
    with assms(1) show ?thesis by (auto simp: on_receive_syn_cmd_def)
  next
    case early
    then show ?thesis
      using keep_control [OF assms(1) control_frame_ok(2) [of Alert]]
      by (auto simp: on_receive_syn_cmd_def split: prod.splits sum.splits) (metis snd_conv)+
  next
    case rejected
    then show ?thesis
      using queue_control_case [OF assms(1) stream_frame_ok(2) [OF assms(2), of SynAck], of "\<lambda>t. t"] assms(1)
      by (simp add: on_receive_syn_cmd_def Let_def)
  next
    case accepted
    then have s2: "P ?s2" using new_stream [OF _ _ _ new] by simp
    then have "P (snd (case queue_control ((frame_new SynAck sid)\<lparr>data := bs\<rparr>) ?s2 of
        (Inl e, t) \<Rightarrow> (RecvStop (Inl e), t) | (Inr _, t) \<Rightarrow> (RecvContinue, remove_stream_by_id now sid t)))" for bs
      using remove_stream_keep assms(2) by (intro queue_control_case) (simp_all add: stream_frame_ok)
    with accepted s2 keep_incoming [OF s2] inc show ?thesis
      by (auto simp: on_receive_syn_cmd_def new Let_def remove_stream_keep)
  qed
qed

lemmas caller_keep = open_keep write_data_keep send_fin_keep close_stream_keep run_keep enqueue_frame_keep(2)

lemmas plain_keep = drop_stream_keep shutdown_keep resume_keep close_timeout_keep read_closed_keep

end

section \<open>Received frames\<close>

locale kept_receive = kept +
  assumes keep_accepted: "P s \<Longrightarrow> streams s = None \<Longrightarrow> sid \<noteq> 0 \<Longrightarrow> \<not> is_client s \<Longrightarrow> received_settings s \<Longrightarrow>
      stream_state_new sid s = (st, s1) \<Longrightarrow> P (s1\<lparr>streams := Some (sid, st)\<rparr>)"
    and keep_push: "P s \<Longrightarrow> streams s = Some (sid, st) \<Longrightarrow> length bs \<le> push_slots (pumps s ! stream_pump st) \<Longrightarrow>
      push_send (stream_pump st) (PushData bs) s = (Sent, s1) \<Longrightarrow> P (take_slots (stream_pump st) (length bs) s1)"
    and keep_push_fin: "P s \<Longrightarrow> streams s = Some (sid, st) \<Longrightarrow> push_send (stream_pump st) PushFin s = (r, s1) \<Longrightarrow>
      P s1 \<and> P (s1\<lparr>tasks := tasks s1 @ [AwaitFinSend (stream_pump st) sid]\<rparr>)"
begin

lemma on_receive_push_keep:
  assumes "P s" and "sid \<noteq> 0"
  shows "P (snd (on_receive_push now sid bs s))"
proof (cases "\<exists>st. streams s = Some (sid, st)")
  case False
  with assms show ?thesis by (auto simp: on_receive_push_def split: option.splits)
next
  case True
  then obtain st where st: "streams s = Some (sid, st)" by blast
  have fin: "P (snd (case queue_control (frame_new Fin sid) s of
      (Inl e, t) \<Rightarrow> (RecvStop (Inl e), t) | (Inr _, t) \<Rightarrow> (RecvContinue, remove_stream_by_id now sid t)))"
    using assms remove_stream_keep by (intro queue_control_case) (simp_all add: stream_frame_ok)
  obtain r s1 where send: "push_send (stream_pump st) (PushData bs) s = (r, s1)" by fastforce
  have "r \<noteq> Sent \<Longrightarrow> s1 = s" using push_send_not_sent [OF send] .
  with st send fin assms keep_push [OF assms(1) st, of bs s1] show ?thesis
    by (cases r) (simp_all add: on_receive_push_def)
qed

lemma stream_commands_keep:
  assumes "P s"
  shows "P (snd (on_receive_fin_cmd now sid s))" and "sid \<noteq> 0 \<Longrightarrow> P (snd (on_receive_syn_cmd now sid s))"
proof -
  show "P (snd (on_receive_fin_cmd now sid s))"
  proof (rule on_receive_fin_keep [OF assms])
    fix st r s1
    let ?st = "st\<lparr>remote_fin := True\<rparr>" and ?s = "s\<lparr>streams := Some (sid, st\<lparr>remote_fin := True\<rparr>)\<rparr>"
    assume "streams s = Some (sid, st)" and send: "push_send (stream_pump st) PushFin ?s = (r, s1)"
    with assms have "P ?s" by (intro keep_flags) simp_all
    with keep_push_fin [of ?s sid ?st r s1] send
    show "P s1 \<and> P (s1\<lparr>tasks := tasks s1 @ [AwaitFinSend (stream_pump st) sid]\<rparr>)" by simp
  qed
  show "sid \<noteq> 0 \<Longrightarrow> P (snd (on_receive_syn_cmd now sid s))"
    using on_receive_syn_keep [OF assms] keep_accepted [OF assms] by blast
qed

lemma receive_frame_keep:
  assumes "P s"
  shows "P (snd (receive_frame digest order now fr s))"
proof -
  have "P (s\<lparr>last_activity := now\<rparr>)" using assms by simp
  then show ?thesis
    unfolding receive_frame_def Let_def
    by (cases "command fr")
      (auto simp: valid_stream_id_def intro: on_receive_push_keep stream_commands_keep
        on_receive_settings_keep on_receive_info_keep)
qed

lemma receive_step_keep: "receive_step digest order fr s s' \<Longrightarrow> P s \<Longrightarrow> P s'"
proof (induction rule: receive_step.induct)
  case (step_receive s now s')
  then show ?case using receive_frame_keep [of s digest order now fr] by simp
next
  case (step_receive_stop s now res s1 s')
  then show ?case using receive_frame_keep [of s digest order now fr] by (simp add: shutdown_keep)
qed

end

section \<open>Local steps\<close>

text \<open>What one pump task does to its own state.\<close>

inductive pump_step :: "pump \<Rightarrow> pump \<Rightarrow> bool" where
    pump_takes: "pump_phase p = PumpRecv \<Longrightarrow> push_queue p = PushData d # rest \<Longrightarrow>
      pump_step p (p\<lparr>push_queue := rest, pump_phase := PumpWrite d\<rparr>)"
  | pump_ends: "pump_phase p = PumpRecv \<Longrightarrow> push_queue p = PushFin # rest \<Longrightarrow>
      pump_step p (p\<lparr>push_queue := rest, pump_phase := PumpExit, delivered_eof := True\<rparr>)"
  | pump_writes: "pump_phase p = PumpWrite d \<Longrightarrow>
      pump_step p (p\<lparr>pump_phase := PumpRecv, delivered := delivered p @ d, push_slots := push_slots p + length d\<rparr>)"
  | pump_stops: "pump_phase p = PumpWrite d \<Longrightarrow> pump_step p (pump_stopped n p d)"
  | pump_exits: "\<forall>d. pump_phase p \<noteq> PumpWrite d \<Longrightarrow> pump_step p (pump_exit p)"

text \<open>The remaining primitive updates: those of the tasks, the pumps and the writer.\<close>

locale kept_local = kept +
  assumes keep_reserved: "P s \<Longrightarrow> streams s = None \<Longrightarrow> sid \<noteq> 0 \<Longrightarrow> is_client s \<Longrightarrow> \<not> reader_present s \<Longrightarrow> \<not> closed s \<Longrightarrow>
      stream_state_new sid s = (st, s1) \<Longrightarrow> P (s1\<lparr>streams := Some (sid, st)\<rparr>)"
    and keep_pump: "P s \<Longrightarrow> i < length (pumps s) \<Longrightarrow> pump_step (pumps s ! i) p \<Longrightarrow> P (s\<lparr>pumps := (pumps s)[i := p]\<rparr>)"
    and keep_drop_task: "P s \<Longrightarrow> P (drop_task t s)"
    and keep_filter_tasks: "P s \<Longrightarrow> P (s\<lparr>tasks := filter Q (tasks s)\<rparr>)"
    and keep_answer: "P s \<Longrightarrow> AwaitResult i k \<in> set (tasks s) \<Longrightarrow>
      P (forget_completion i (drop_task (AwaitResult i k) s))"
    and keep_permit: "P s \<Longrightarrow> AwaitPermit q bs d dl k \<in> set (tasks s) \<Longrightarrow>
      permit_granted q bs d k (drop_task (AwaitPermit q bs d dl k) s) = Some s' \<Longrightarrow> P s'"
    and keep_fin_send: "P s \<Longrightarrow> AwaitFinSend i sid \<in> set (tasks s) \<Longrightarrow>
      push_send i PushFin (drop_task (AwaitFinSend i sid) s) = (r, s') \<Longrightarrow> P s'"
    and keep_take: "P s \<Longrightarrow> writer_take s = Some s' \<Longrightarrow> P s'"
    and keep_finish: "P s \<Longrightarrow> writer_finish res s = Some s' \<Longrightarrow> P s'"
    and keep_exit: "P s \<Longrightarrow> close_token s \<Longrightarrow> P (writer_exit s)"
    and keep_received: "P s \<Longrightarrow> 0 < idle_notices s \<Longrightarrow> P (s\<lparr>idle_notices := idle_notices s - 1\<rparr>)"
    and keep_accept: "P s \<Longrightarrow> incoming s = Some (sid # rest) \<Longrightarrow> P (s\<lparr>incoming := Some rest\<rparr>)"
begin

lemma reserve_keep:
  assumes "P s" and "is_client s" and "\<not> reader_present s" and "sid \<noteq> 0"
  shows "P (snd (reserve_locked now sid s))"
  using assms keep_reserved [OF assms(1) _ assms(4,2,3)]
  by (cases "streams s") (auto simp: reserve_locked_def split: prod.splits)

lemma update_pump_keep: "P s \<Longrightarrow> i < length (pumps s) \<Longrightarrow> pump_step (pumps s ! i) (f (pumps s ! i)) \<Longrightarrow> P (update_pump i f s)"
  unfolding update_pump_def by (rule keep_pump)

lemma pump_recv_keep: "pump_recv now i s = Some s' \<Longrightarrow> P s \<Longrightarrow> P s'"
  by (auto simp: pump_recv_def Let_def split: if_splits list.splits push_message.splits
      intro!: read_closed_keep update_pump_keep pump_step.intros)

lemma pump_written_keep: "pump_written i s = Some s' \<Longrightarrow> P s \<Longrightarrow> P s'"
  by (auto simp: pump_written_def split: if_splits pump_phase.splits intro!: update_pump_keep pump_step.intros)

lemma pump_failed_keep: "pump_failed now n i s = Some s' \<Longrightarrow> P s \<Longrightarrow> P s'"
  by (auto simp: pump_failed_def split: if_splits pump_phase.splits
      intro!: read_closed_keep update_pump_keep pump_step.intros)

lemma pump_timed_out_keep: "pump_timed_out n i s = Some s' \<Longrightarrow> P s \<Longrightarrow> P s'"
  by (auto simp: pump_timed_out_def split: if_splits pump_phase.splits intro!: update_pump_keep pump_step.intros)

lemma pump_returned_keep: "pump_returned i s = Some s' \<Longrightarrow> P s \<Longrightarrow> P s'"
  by (auto simp: pump_returned_def split: if_splits intro!: update_pump_keep pump_step.intros)

lemma heartbeat_cancelled_keep: "heartbeat_cancelled s = Some s' \<Longrightarrow> P s \<Longrightarrow> P s'"
  using keep_filter_tasks [of "s\<lparr>heartbeat := HbOff\<rparr>"]
  by (auto simp: heartbeat_cancelled_def split: if_splits)

lemma writer_cancelled_keep: "writer_cancelled s = Some s' \<Longrightarrow> P s \<Longrightarrow> P s'"
  by (auto simp: writer_cancelled_def split: if_splits intro: keep_exit)

lemma fin_send_keep:
  assumes "fin_send now i sid (drop_task (AwaitFinSend i sid) s) = Some s'" and "P s" and "AwaitFinSend i sid \<in> set (tasks s)"
  shows "P s'"
proof -
  obtain r s1 where send: "push_send i PushFin (drop_task (AwaitFinSend i sid) s) = (r, s1)" by fastforce
  with keep_fin_send [OF assms(2,3)] have "P s1" by blast
  with send assms(1) show ?thesis by (cases r) (auto simp: fin_send_def intro: read_closed_keep)
qed

lemma accept_keep: "P s \<Longrightarrow> P (snd (accept_stream b s))"
  using keep_accept [of s] by (simp add: accept_stream_def split: option.splits list.splits)

lemma stepped_keep: "f = (r, s') \<Longrightarrow> P (snd f) \<Longrightarrow> P s'"
  by simp

lemmas background_keep = keep_take [rotated] keep_finish [rotated] writer_cancelled_keep pump_recv_keep
  pump_written_keep pump_failed_keep pump_timed_out_keep pump_returned_keep timer_keep heartbeat_cancelled_keep

lemma control_keep:
  "P s \<Longrightarrow> command fr = SynAck \<Longrightarrow> stream_id fr \<noteq> 0 \<Longrightarrow> P (snd (write_control fr k s))"
  by (rule enqueue_frame_keep(2)) (simp_all add: frame_ok_def valid_stream_id_def allows_data_def word_gt_0)

lemma local_step_keep: "local_step order v s s' \<Longrightarrow> P s \<Longrightarrow> P s'"
proof (induction rule: local_step.induct)
  case (step_permit_granted q bs disable deadline k s s')
  then show ?case using keep_permit by blast
next
  case (step_idle_received s s')
  then show ?case using keep_received by blast
qed (erule (1) background_keep
    | (erule stepped_keep, (rule caller_keep control_keep reserve_keep accept_keep; assumption))
    | (erule fin_send_keep; assumption) | simp add: plain_keep keep_drop_task keep_answer set_idle_sender_def)+

end

locale kept_steps = kept_local + kept_receive
begin

lemma step_keep: "session_step digest order v s s' \<Longrightarrow> P s \<Longrightarrow> P s'"
  by (induction rule: session_step.induct) (simp_all add: local_step_keep receive_step_keep)

end

end
