(* ===== verification/Transition.thy ===== *)
theory Transition
  imports Main
begin

text \<open>
  Transition systems and their invariants: a predicate that holds initially and is kept by
  every step holds in every reachable state, and a predicate that every step keeps is stable.
  The session, the tunnel, the pool, the relay, the panel task, the reload of certificates and the C interface
  are instances.
\<close>

locale transition_system =
  fixes init :: "'s \<Rightarrow> bool" and step :: "'s \<Rightarrow> 's \<Rightarrow> bool"
begin

lemma stable_reachable:
  assumes "\<And>s s'. P s \<Longrightarrow> step s s' \<Longrightarrow> P s'" and "P s" and "step\<^sup>*\<^sup>* s s'"
  shows "P s'"
  using assms(3,2) by (induction rule: rtranclp_induct) (auto intro: assms(1))

end

locale invariant_system = transition_system +
  fixes inv :: "'s \<Rightarrow> bool"
  assumes init_inv: "init s \<Longrightarrow> inv s"
    and step_inv: "inv s \<Longrightarrow> step s s' \<Longrightarrow> inv s'"
begin

lemma reachable_inv: "init s \<Longrightarrow> step\<^sup>*\<^sup>* s s' \<Longrightarrow> inv s'"
  using stable_reachable [of inv, OF step_inv init_inv] .

text \<open>Under the invariant a property that single steps keep is kept for good.\<close>

lemma stable_under_inv:
  assumes "\<And>s s'. inv s \<Longrightarrow> P s \<Longrightarrow> step s s' \<Longrightarrow> P s'" and "inv s" and "P s" and "step\<^sup>*\<^sup>* s s'"
  shows "P s'"
  using stable_reachable [of "\<lambda>s. inv s \<and> P s" s s'] assms step_inv by blast

end

end
