(* ===== verification/Session_System.thy ===== *)
theory Session_System
  imports Session_Keep Transition "HOL-Library.Sublist"
begin

text \<open>
  The invariants of a session under every interleaving of its tasks: the link between the
  active stream and its pump, the order and accounting of inbound data, the bounds of the
  queues, the callers waiting for an answer, and what a closed session keeps. Each is an
  instance of the locale of \<^verbatim>\<open>Session_Keep\<close>, and of an invariant of a transition system.
\<close>

section \<open>The invariant\<close>

text \<open>
  The active stream owns a pump whose close signal is not set and which carries its id; every
  other pump has been told to stop.
\<close>

definition linked :: "(u32 \<times> stream_state) option \<Rightarrow> pump list \<Rightarrow> bool" where
  "linked act ps \<longleftrightarrow>
     (case act of
        None \<Rightarrow> (\<forall>p\<in>set ps. pump_token p)
      | Some (sid, st) \<Rightarrow>
          sid \<noteq> 0 \<and> stream_pump st < length ps \<and>
          pump_stream (ps ! stream_pump st) = sid \<and> \<not> pump_token (ps ! stream_pump st) \<and>
          (\<forall>i<length ps. i \<noteq> stream_pump st \<longrightarrow> pump_token (ps ! i)))"

definition inflight :: "pump \<Rightarrow> byte list" where
  "inflight p = (case pump_phase p of PumpWrite d \<Rightarrow> d | _ \<Rightarrow> [])"

definition before_fin :: "push_message list \<Rightarrow> push_message list" where
  "before_fin ms = takeWhile (\<lambda>m. m \<noteq> PushFin) ms"

text \<open>
  What a pump has written is what its queue accepted, in order: while it runs, everything but
  the message in flight and the queue; afterwards a prefix of the data before the FIN, and all
  of it when it signalled end of file.
\<close>

definition pump_order :: "pump \<Rightarrow> bool" where
  "pump_order p \<longleftrightarrow>
     (case pump_phase p of
        PumpRecv \<Rightarrow>
          (\<exists>ms. accepted p = ms @ push_queue p \<and> PushFin \<notin> set ms \<and> delivered p = data_of ms \<and>
             \<not> delivered_eof p)
      | PumpWrite d \<Rightarrow>
          (\<exists>ms. accepted p = ms @ PushData d # push_queue p \<and> PushFin \<notin> set ms \<and> delivered p = data_of ms \<and>
             \<not> delivered_eof p)
      | _ \<Rightarrow>
          prefix (delivered p) (data_of (before_fin (accepted p))) \<and>
          (delivered_eof p \<longrightarrow> delivered p = data_of (before_fin (accepted p)) \<and> PushFin \<in> set (accepted p)))"

definition pump_inv :: "pump \<Rightarrow> bool" where
  "pump_inv p \<longleftrightarrow>
     push_slots p + length (inflight p) + length (data_of (push_queue p)) = INBOUND_PUSH_QUEUE_BYTES \<and>
     length (push_queue p) \<le> INBOUND_PUSH_QUEUE_MESSAGES + 1 \<and> pump_order p"

text \<open>Only a server has an incoming queue, of one stream.\<close>

definition incoming_ok :: "u32 list option \<Rightarrow> bool \<Rightarrow> bool" where
  "incoming_ok inc client = (case inc of None \<Rightarrow> client | Some q \<Rightarrow> \<not> client \<and> length q \<le> 1)"

definition session_inv :: "session \<Rightarrow> bool" where
  "session_inv s \<longleftrightarrow>
     closed s = close_token s \<and>
     linked (streams s) (pumps s) \<and>
     (\<forall>p\<in>set (pumps s). pump_inv p) \<and>
     length (control_queue s) \<le> WRITE_QUEUE_CAPACITY \<and> length (data_queue s) \<le> WRITE_QUEUE_CAPACITY \<and>
     incoming_ok (incoming s) (is_client s) \<and>
     (streams s \<noteq> None \<longrightarrow> is_client s \<or> received_settings s) \<and>
     (\<forall>i sid. AwaitFinSend i sid \<in> set (tasks s) \<longrightarrow> i < length (pumps s))"

section \<open>Lemmas on pumps\<close>

lemma data_of_simps [simp]:
  "data_of [] = []" "data_of (PushData d # ms) = d @ data_of ms" "data_of (PushFin # ms) = data_of ms"
  "data_of (ms @ ns) = data_of ms @ data_of ns"
  by (simp_all add: data_of_def)

lemma all_update:
  "\<forall>x\<in>set xs. P x \<Longrightarrow> i < length xs \<Longrightarrow> P y \<Longrightarrow> \<forall>x\<in>set (xs[i := y]). P x"
  by (auto dest: set_update_subset_insert [THEN subsetD])

lemma pump_inv_token [simp]: "pump_inv (p\<lparr>pump_token := b\<rparr>) = pump_inv p"
  by (cases "pump_phase p") (simp_all add: pump_inv_def pump_order_def inflight_def)

lemma before_fin_append:
  "PushFin \<in> set ms \<Longrightarrow> before_fin (ms @ ns) = before_fin ms"
  "PushFin \<notin> set ms \<Longrightarrow> before_fin (ms @ ns) = ms @ before_fin ns"
  unfolding before_fin_def by (induction ms) auto

lemma before_fin_simps [simp]:
  "before_fin [] = []" "before_fin (PushData d # ms) = PushData d # before_fin ms"
  "before_fin (PushFin # ms) = []"
  by (simp_all add: before_fin_def)

lemma pump_inv_new [inv_intros]: "pump_inv (pump_new sid)"
  by (simp add: pump_inv_def pump_order_def inflight_def pump_new_def)

text \<open>A message enters the queue with its permits taken.\<close>

lemma pump_inv_send:
  assumes "pump_inv p" and "length (push_queue p) < INBOUND_PUSH_QUEUE_MESSAGES + 1"
    and "length (data_of [m]) \<le> push_slots p"
  shows "pump_inv (p\<lparr>push_queue := push_queue p @ [m], accepted := accepted p @ [m],
    push_slots := push_slots p - length (data_of [m])\<rparr>)"
proof -
  have "prefix (data_of (before_fin (accepted p))) (data_of (before_fin (accepted p @ [m])))"
    using before_fin_append(2) [of "accepted p" "[]"]
    by (cases "PushFin \<in> set (accepted p)") (simp_all add: before_fin_append)
  then show ?thesis
    using assms by (cases "pump_phase p")
      (auto simp: pump_inv_def pump_order_def inflight_def before_fin_append(1) intro: prefix_order.trans)
qed

lemma pump_inv_recv:
  assumes "pump_inv p" and "pump_phase p = PumpRecv" and "push_queue p = PushData d # rest"
  shows "pump_inv (p\<lparr>push_queue := rest, pump_phase := PumpWrite d\<rparr>)"
  using assms by (auto simp: pump_inv_def pump_order_def inflight_def)

lemma pump_inv_fin:
  assumes "pump_inv p" and "pump_phase p = PumpRecv" and "push_queue p = PushFin # rest"
  shows "pump_inv (p\<lparr>push_queue := rest, pump_phase := PumpExit, delivered_eof := True\<rparr>)"
  using assms by (auto simp: pump_inv_def pump_order_def inflight_def before_fin_append(2))

lemma pump_inv_written:
  assumes "pump_inv p" and "pump_phase p = PumpWrite d"
  shows "pump_inv (p\<lparr>pump_phase := PumpRecv, delivered := delivered p @ d, push_slots := push_slots p + length d\<rparr>)"
proof -
  from assms obtain ms where "accepted p = ms @ PushData d # push_queue p" "PushFin \<notin> set ms"
    "delivered p = data_of ms" "\<not> delivered_eof p" by (auto simp: pump_inv_def pump_order_def)
  then have "accepted p = (ms @ [PushData d]) @ push_queue p \<and> PushFin \<notin> set (ms @ [PushData d]) \<and>
      delivered p @ d = data_of (ms @ [PushData d]) \<and> \<not> delivered_eof p" by simp
  then have "pump_order (p\<lparr>pump_phase := PumpRecv, delivered := delivered p @ d, push_slots := push_slots p + length d\<rparr>)"
    unfolding pump_order_def by (simp del: set_append append_assoc)
  with assms show ?thesis by (simp add: pump_inv_def inflight_def)
qed

lemma pump_inv_stopped:
  assumes "pump_inv p" and "pump_phase p = PumpWrite d"
  shows "pump_inv (pump_stopped n p d)"
  using assms
  by (auto simp: pump_inv_def pump_order_def inflight_def pump_stopped_def before_fin_append(2) take_is_prefix
      intro: prefix_order.trans [OF take_is_prefix prefixI])

lemma pump_inv_exit:
  assumes "pump_inv p" and "\<forall>d. pump_phase p \<noteq> PumpWrite d"
  shows "pump_inv (pump_exit p)"
  using assms
  by (cases "pump_phase p")
    (auto simp: pump_inv_def pump_order_def inflight_def pump_exit_def before_fin_append(2))

text \<open>A pump keeps its invariant, its stream and its close signal.\<close>

lemma pump_step_inv:
  assumes "pump_step p p'" and "pump_inv p"
  shows "pump_inv p' \<and> pump_stream p' = pump_stream p \<and> pump_token p' = pump_token p"
  using assms
  by (induction rule: pump_step.induct)
    (simp_all add: pump_inv_recv pump_inv_fin pump_inv_written pump_inv_stopped pump_inv_exit,
     simp_all add: pump_stopped_def pump_exit_def)

section \<open>The invariant is kept\<close>

lemma linked_cancel:
  assumes "linked (Some (sid, st)) ps"
  shows "linked None (ps[stream_pump st := (ps ! stream_pump st)\<lparr>pump_token := True\<rparr>])"
  using assms by (fastforce simp: linked_def in_set_conv_nth nth_list_update)

lemma set_pump_inv:
  assumes "session_inv s" and "i < length (pumps s)" and "pump_inv p"
    and "pump_stream p = pump_stream (pumps s ! i)" and "pump_token p = pump_token (pumps s ! i)"
  shows "session_inv (s\<lparr>pumps := (pumps s)[i := p]\<rparr>)"
proof -
  have "linked (streams s) ((pumps s)[i := p])"
    using assms by (auto simp: session_inv_def linked_def nth_list_update split: option.splits
        dest: set_update_subset_insert [THEN subsetD])
  moreover have "\<forall>p\<in>set ((pumps s)[i := p]). pump_inv p"
    using assms by (intro all_update) (auto simp: session_inv_def)
  ultimately show ?thesis using assms(1) by (simp add: session_inv_def)
qed

lemma pump_inv_nth: "session_inv s \<Longrightarrow> i < length (pumps s) \<Longrightarrow> pump_inv (pumps s ! i)"
  by (simp add: session_inv_def)

lemma active_pump:
  "session_inv s \<Longrightarrow> streams s = Some (sid, st) \<Longrightarrow> stream_pump st < length (pumps s)"
  by (simp add: session_inv_def linked_def)

lemma cancel_stream_inv:
  assumes "session_inv s" and "streams s = Some (sid, st)"
  shows "session_inv (cancel_stream st (s\<lparr>streams := None\<rparr>))"
proof -
  have l: "linked (Some (sid, st)) (pumps s)" and p: "\<forall>p\<in>set (pumps s). pump_inv p"
    using assms by (simp_all add: session_inv_def)
  then have i: "stream_pump st < length (pumps s)" by (simp add: linked_def)
  with p have "pump_inv ((pumps s ! stream_pump st)\<lparr>pump_token := True\<rparr>)" by simp
  from all_update [OF p i this] linked_cancel [OF l] assms show ?thesis
    by (simp add: session_inv_def cancel_stream_def update_pump_def)
qed

lemma notices_inv [simp]: "session_inv (s\<lparr>idle_notices := n\<rparr>) = session_inv s"
  by (simp add: session_inv_def)

lemma new_stream_inv:
  assumes "session_inv s" and "streams s = None" and "sid \<noteq> 0" and "is_client s \<or> received_settings s"
    and "stream_state_new sid s = (st, s1)"
  shows "session_inv (s1\<lparr>streams := Some (sid, st)\<rparr>)"
proof -
  have st: "stream_pump st = length (pumps s)" and s1: "s1 = s\<lparr>pumps := pumps s @ [pump_new sid]\<rparr>"
    using assms(5) by (auto simp: stream_state_new_def)
  have "linked (Some (sid, st)) (pumps s @ [pump_new sid])"
    using assms(1-3) by (auto simp: session_inv_def linked_def st nth_append pump_new_def)
  moreover have "\<forall>p\<in>set (pumps s @ [pump_new sid]). pump_inv p"
    using assms(1) pump_inv_new by (auto simp: session_inv_def)
  ultimately show ?thesis
    using assms(1,4) unfolding s1 session_inv_def by (auto simp: less_Suc_eq)
qed

lemma push_data_inv:
  assumes "session_inv s" and "i < length (pumps s)" and "length bs \<le> push_slots (pumps s ! i)"
    and "push_send i (PushData bs) s = (Sent, s1)"
  shows "session_inv (take_slots i (length bs) s1)"
proof -
  let ?p = "pumps s ! i"
  let ?q = "?p\<lparr>push_queue := push_queue ?p @ [PushData bs], accepted := accepted ?p @ [PushData bs],
    push_slots := push_slots ?p - length bs\<rparr>"
  have room: "length (push_queue ?p) < INBOUND_PUSH_QUEUE_MESSAGES + 1"
    and s1: "take_slots i (length bs) s1 = s\<lparr>pumps := (pumps s)[i := ?q]\<rparr>"
    using assms(2,4) by (auto simp: push_send_def take_slots_def update_pump_def Let_def split: if_splits)
  have "pump_inv ?q"
    using pump_inv_send [OF pump_inv_nth [OF assms(1,2)] room, of "PushData bs"] assms(3) by simp
  then show ?thesis unfolding s1 using set_pump_inv [OF assms(1,2), of ?q] by simp
qed

lemma push_fin_inv:
  assumes "session_inv s" and "i < length (pumps s)" and "push_send i PushFin s = (r, s1)"
  shows "session_inv s1 \<and> session_inv (s1\<lparr>tasks := tasks s1 @ [AwaitFinSend i sid]\<rparr>)"
proof -
  let ?p = "pumps s ! i"
  let ?q = "?p\<lparr>push_queue := push_queue ?p @ [PushFin], accepted := accepted ?p @ [PushFin]\<rparr>"
  have "pump_inv ?q" if "length (push_queue ?p) < INBOUND_PUSH_QUEUE_MESSAGES + 1"
    using pump_inv_send [OF pump_inv_nth [OF assms(1,2)] that, of PushFin] by (simp add: data_of_def)
  then have "session_inv s1" "length (pumps s1) = length (pumps s)"
    using set_pump_inv [OF assms(1,2), of ?q] assms(1,3)
    by (auto simp: push_send_def update_pump_def Let_def split: if_splits)
  then show ?thesis using assms(2) by (auto simp: session_inv_def)
qed

lemma queue_control_inv: "session_inv s \<Longrightarrow> session_inv (snd (queue_control fr s))"
  by (simp add: queue_control_def push_request_def session_inv_def split: sum.splits)

lemma fewer_tasks_inv: "session_inv s \<Longrightarrow> set ts \<subseteq> set (tasks s) \<Longrightarrow> session_inv (s\<lparr>tasks := ts\<rparr>)"
  by (auto simp: session_inv_def)

lemma drop_task_inv: "session_inv s \<Longrightarrow> session_inv (drop_task t s)"
  unfolding drop_task_def by (rule fewer_tasks_inv) (auto dest: set_remove1_subset [THEN subsetD])

lemma permit_granted_inv:
  assumes "session_inv s" and "permit_granted q bs d k (drop_task t s) = Some s'"
  shows "session_inv s'"
  using drop_task_inv [OF assms(1), of t] assms(2)
  by (cases q) (clarsimp simp: permit_granted_def queue_of_def push_request_def session_inv_def Let_def
      split: if_splits)+

lemma writer_take_inv:
  assumes "session_inv s" and "writer_take s = Some s'"
  shows "session_inv s'"
proof -
  have "session_inv (s\<lparr>control_queue := q, writing := w\<rparr>)" "session_inv (s\<lparr>data_queue := q, writing := w\<rparr>)"
    if "length q \<le> WRITE_QUEUE_CAPACITY" for q w using assms(1) that by (simp_all add: session_inv_def)
  moreover have "length (control_queue s) \<le> WRITE_QUEUE_CAPACITY" "length (data_queue s) \<le> WRITE_QUEUE_CAPACITY"
    using assms(1) by (simp_all add: session_inv_def)
  ultimately show ?thesis using assms(2) by (auto simp: writer_take_def split: if_splits list.splits)
qed

lemma writer_fields_inv:
  "session_inv (s\<lparr>writing := w\<rparr>) = session_inv s" "session_inv (s\<lparr>served := o'\<rparr>) = session_inv s"
  "session_inv (s\<lparr>completions := c\<rparr>) = session_inv s"
  "session_inv s \<Longrightarrow> session_inv (writer_exit (s\<lparr>closed := True, close_token := True\<rparr>))"
  by (simp_all add: session_inv_def writer_exit_def)

lemma writer_finish_inv:
  "session_inv s \<Longrightarrow> writer_finish res s = Some s' \<Longrightarrow> session_inv s'"
  by (cases res) (auto simp: writer_finish_def Let_def writer_fields_inv split: if_splits option.splits)

interpretation session_kept: kept_steps session_inv
proof
  fix s t and k :: continuation and i :: nat and sid st st' bs r s1 p
  show "session_inv s \<Longrightarrow> plain_task t \<Longrightarrow> session_inv (s\<lparr>tasks := tasks s @ [t]\<rparr>)"
    by (auto simp: session_inv_def plain_task_def)
  show "session_inv s \<Longrightarrow> streams s = Some (sid, st) \<Longrightarrow> stream_pump st' = stream_pump st \<Longrightarrow>
      session_inv (s\<lparr>streams := Some (sid, st')\<rparr>)"
    by (simp add: session_inv_def linked_def)
  show "session_inv s \<Longrightarrow> streams s = Some (sid, st) \<Longrightarrow> length bs \<le> push_slots (pumps s ! stream_pump st) \<Longrightarrow>
      push_send (stream_pump st) (PushData bs) s = (Sent, s1) \<Longrightarrow> session_inv (take_slots (stream_pump st) (length bs) s1)"
    by (metis active_pump push_data_inv)
  show "session_inv s \<Longrightarrow> streams s = Some (sid, st) \<Longrightarrow> push_send (stream_pump st) PushFin s = (r, s1) \<Longrightarrow>
      session_inv s1 \<and> session_inv (s1\<lparr>tasks := tasks s1 @ [AwaitFinSend (stream_pump st) sid]\<rparr>)"
    by (metis active_pump push_fin_inv)
  show "session_inv s \<Longrightarrow> i < length (pumps s) \<Longrightarrow> pump_step (pumps s ! i) p \<Longrightarrow>
      session_inv (s\<lparr>pumps := (pumps s)[i := p]\<rparr>)"
    using pump_step_inv [of "pumps s ! i" p] pump_inv_nth [of s i] by (intro set_pump_inv) simp_all
  show "session_inv s \<Longrightarrow> session_inv (forget_completion i (drop_task (AwaitResult i k) s))"
    using drop_task_inv by (simp add: forget_completion_def session_inv_def)
  show "session_inv s \<Longrightarrow> AwaitFinSend i sid \<in> set (tasks s) \<Longrightarrow>
      push_send i PushFin (drop_task (AwaitFinSend i sid) s) = (r, s1) \<Longrightarrow> session_inv s1"
    using push_fin_inv [OF drop_task_inv, of s i "AwaitFinSend i sid" r s1]
    by (auto simp: session_inv_def drop_task_def)
qed ((erule (1) permit_granted_inv writer_take_inv writer_finish_inv cancel_stream_inv)
    | (simp add: cancel_stream_inv new_stream_inv queue_control_inv drop_task_inv; fail) | (erule fewer_tasks_inv, force)
    | (auto simp: session_inv_def incoming_ok_def writer_exit_def; fail))+

lemma session_init_inv: "session_init s \<Longrightarrow> session_inv s"
  by (auto simp: session_init_def new_client_def new_server_def session_new_def session_inv_def linked_def
      incoming_ok_def)

interpretation session: invariant_system session_init "session_step digest order v" session_inv
  for digest order v
  using session_init_inv session_kept.step_keep by unfold_locales

section \<open>Callers waiting for an answer\<close>

text \<open>
  A caller waits for the answer to exactly one request of its own. The request is in a queue or
  with the writer, or it has been answered, or the writer task is gone.
\<close>

definition result_ids :: "task list \<Rightarrow> nat list" where
  "result_ids ts = List.map_filter (\<lambda>t. case t of AwaitResult i _ \<Rightarrow> Some i | _ \<Rightarrow> None) ts"

definition pending_ids :: "write_request list \<Rightarrow> write_request list \<Rightarrow> write_request option \<Rightarrow> nat set" where
  "pending_ids cq dq w = {i. \<exists>r\<in>set cq \<union> set dq \<union> set_option w. result_sender r = Some i}"

definition waiters_inv :: "session \<Rightarrow> bool" where
  "waiters_inv s \<longleftrightarrow>
     distinct (result_ids (tasks s)) \<and>
     (\<forall>i\<in>set (result_ids (tasks s)). i < next_request s \<and>
        (i \<in> pending_ids (control_queue s) (data_queue s) (writing s) \<or> i \<in> fst ` set (completions s) \<or>
         \<not> writer_alive s))"

lemma result_ids_simps [simp]:
  "result_ids [] = []" "result_ids (AwaitResult i k # ts) = i # result_ids ts"
  "result_ids (AwaitPermit q bs d dl k # ts) = result_ids ts" "result_ids (AwaitFinSend j sid # ts) = result_ids ts"
  "result_ids (AwaitCloseTimeout sid n # ts) = result_ids ts"
  "result_ids (ts @ us) = result_ids ts @ result_ids us"
  by (simp_all add: result_ids_def map_filter_def)

lemma result_ids_plain: "plain_task t \<Longrightarrow> result_ids [t] = []"
  by (cases t) (simp_all add: plain_task_def)

lemma result_ids_filter:
  "set (result_ids (filter Q ts)) \<subseteq> set (result_ids ts)"
  "distinct (result_ids ts) \<Longrightarrow> distinct (result_ids (filter Q ts))"
proof (induction ts)
  case (Cons t ts)
  { case 1 with Cons.IH(1) show ?case
      by (cases t) auto }
  { case 2 with Cons.IH show ?case
      by (cases t) auto }
qed simp_all

lemma result_ids_remove1:
  "set (result_ids (remove1 t ts)) \<subseteq> set (result_ids ts)"
  "distinct (result_ids ts) \<Longrightarrow> distinct (result_ids (remove1 t ts))"
proof (induction ts)
  case (Cons u ts)
  { case 1 with Cons.IH(1) show ?case by (cases u) auto }
  { case 2 with Cons.IH show ?case by (cases u) auto }
qed simp_all

lemma result_ids_answered:
  "distinct (result_ids ts) \<Longrightarrow> AwaitResult i k \<in> set ts \<Longrightarrow> i \<notin> set (result_ids (remove1 (AwaitResult i k) ts))"
proof (induction ts)
  case (Cons t ts)
  show ?case
  proof (cases "t = AwaitResult i k")
    case True
    with Cons.prems show ?thesis by simp
  next
    case False
    with Cons.prems have "AwaitResult i k \<in> set ts" by auto
    moreover from this have "i \<in> set (result_ids ts)"
      by (force simp: result_ids_def map_filter_def)
    ultimately show ?thesis
      using False Cons by (cases t) auto
  qed
qed simp

lemma pending_ids_simps [simp]:
  "pending_ids (cq @ [r]) dq w = set_option (result_sender r) \<union> pending_ids cq dq w"
  "pending_ids cq (dq @ [r]) w = set_option (result_sender r) \<union> pending_ids cq dq w"
  "pending_ids (r # cq) dq None = pending_ids cq dq (Some r)"
  "pending_ids cq (r # dq) None = pending_ids cq dq (Some r)"
  "pending_ids cq dq (Some r) = set_option (result_sender r) \<union> pending_ids cq dq None"
  by (auto simp: pending_ids_def)

lemma waiters_fewer:
  assumes "waiters_inv s" and "set (result_ids ts) \<subseteq> set (result_ids (tasks s))" and "distinct (result_ids ts)"
  shows "waiters_inv (s\<lparr>tasks := ts\<rparr>)"
  using assms by (auto simp: waiters_inv_def)

lemma waiters_drop: "waiters_inv s \<Longrightarrow> waiters_inv (drop_task t s)"
  unfolding drop_task_def
  by (rule waiters_fewer) (auto simp: waiters_inv_def result_ids_remove1(2) dest: result_ids_remove1(1) [THEN subsetD])

lemma waiters_answer:
  assumes "waiters_inv s" and "AwaitResult i k \<in> set (tasks s)"
  shows "waiters_inv (forget_completion i (drop_task (AwaitResult i k) s))"
proof -
  have "i \<notin> set (result_ids (remove1 (AwaitResult i k) (tasks s)))"
    using assms by (simp add: waiters_inv_def result_ids_answered)
  moreover have "waiters_inv (drop_task (AwaitResult i k) s)" using assms(1) by (rule waiters_drop)
  ultimately show ?thesis
    unfolding waiters_inv_def forget_completion_def drop_task_def by (simp add: image_iff) fastforce
qed

lemma waiters_permit:
  assumes "waiters_inv s0" and "permit_granted q bs d k (drop_task t s0) = Some s'"
  shows "waiters_inv s'"
proof -
  define s where "s = drop_task t s0"
  have "waiters_inv s" unfolding s_def using assms(1) by (rule waiters_drop)
  moreover from this have "next_request s \<notin> set (result_ids (tasks s))" by (auto simp: waiters_inv_def)
  ultimately show ?thesis using assms(2) unfolding s_def [symmetric]
    by (cases q) (auto simp: permit_granted_def push_request_def waiters_inv_def Let_def less_Suc_eq split: if_splits)
qed

lemma waiters_take: "waiters_inv s \<Longrightarrow> writer_take s = Some s' \<Longrightarrow> waiters_inv s'"
  by (auto simp: writer_take_def waiters_inv_def split: if_splits list.splits)

lemma waiters_finish: "waiters_inv s \<Longrightarrow> writer_finish res s = Some s' \<Longrightarrow> waiters_inv s'"
  by (cases res)
    (auto simp: writer_finish_def writer_exit_def waiters_inv_def Let_def split: if_splits option.splits)

lemma push_send_waiters: "push_send i m s = (r, s') \<Longrightarrow> waiters_inv s \<Longrightarrow> waiters_inv s'"
  by (auto simp: push_send_def update_pump_def waiters_inv_def Let_def split: if_splits)

interpretation waiters_kept: kept_steps waiters_inv
proof
  fix s t and k :: continuation and i :: nat and sid st bs r s1
  show "waiters_inv s \<Longrightarrow> plain_task t \<Longrightarrow> waiters_inv (s\<lparr>tasks := tasks s @ [t]\<rparr>)"
    using result_ids_plain [of t] by (simp add: waiters_inv_def)
  show "waiters_inv s \<Longrightarrow> push_send (stream_pump st) (PushData bs) s = (Sent, s1) \<Longrightarrow>
      waiters_inv (take_slots (stream_pump st) (length bs) s1)"
    using push_send_waiters [of "stream_pump st" "PushData bs" s Sent s1]
    by (simp add: take_slots_def update_pump_def waiters_inv_def)
  show "waiters_inv s \<Longrightarrow> push_send (stream_pump st) PushFin s = (r, s1) \<Longrightarrow>
      waiters_inv s1 \<and> waiters_inv (s1\<lparr>tasks := tasks s1 @ [AwaitFinSend (stream_pump st) sid]\<rparr>)"
    using push_send_waiters [of "stream_pump st" PushFin s r s1] by (simp add: waiters_inv_def)
  show "waiters_inv s \<Longrightarrow> push_send i PushFin (drop_task (AwaitFinSend i sid) s) = (r, s1) \<Longrightarrow> waiters_inv s1"
    using push_send_waiters waiters_drop by blast
  show "waiters_inv s \<Longrightarrow> waiters_inv (s\<lparr>tasks := filter Q (tasks s)\<rparr>)" for Q
    by (rule waiters_fewer) (auto simp: waiters_inv_def result_ids_filter(2) dest: result_ids_filter(1) [THEN subsetD])
qed ((erule (1) waiters_permit waiters_take waiters_finish waiters_answer) | (erule waiters_drop)
    | (auto simp: waiters_inv_def queue_control_def push_request_def cancel_stream_def update_pump_def
        stream_state_new_def writer_exit_def split: sum.splits; fail))+

interpretation waiters: invariant_system session_init "session_step digest order v" waiters_inv
  for digest order v
proof
  show "waiters_inv s" if "session_init s" for s
    using that by (auto simp: session_init_def new_client_def new_server_def session_new_def waiters_inv_def)
qed (rule waiters_kept.step_keep)

section \<open>What a closed session keeps\<close>

text \<open>A closed client session without a stream.\<close>

definition retired :: "session \<Rightarrow> bool" where
  "retired s \<longleftrightarrow> is_client s \<and> closed s \<and> streams s = None"

interpretation closed_kept: kept_steps closed
  by unfold_locales
    (auto simp: primitive_updates split: primitive_splits)

interpretation retired_kept: kept_steps retired
  by unfold_locales
    (auto simp: retired_def primitive_updates split: primitive_splits)

end
