(* ===== verification/Client_Pool.thy ===== *)
theory Client_Pool
  imports Session_System "HOL-Library.Multiset"
begin

text \<open>
  The client's session pool (\<^verbatim>\<open>src/client.rs\<close>). Sessions are kept in the order of their ids, which
  are the sequence numbers the client hands out; the pool holds ids with the instant since which
  they are idle. Shutdowns that the code spawns are applied at once. A dialled transport is the
  \<open>outcome\<close> of the dialer and of its timeout.
\<close>

definition MAX_IDLE_SESSIONS :: nat where "MAX_IDLE_SESSIONS = 4"
definition SESSION_CONNECT_TIMEOUT :: nat where "SESSION_CONNECT_TIMEOUT = 15000"

record idle_session =
  since :: nat
  idle_id :: nat

record client =
  sessions :: "session list"
  idle_pool :: "idle_session list"
  client_closed :: bool
  max_session_age :: nat
  pool_padding :: padding_factory

definition client_new :: "padding_factory \<Rightarrow> nat \<Rightarrow> client" where
  "client_new pf age =
     \<lparr>sessions = [], idle_pool = [], client_closed = False, max_session_age = age, pool_padding = pf\<rparr>"

definition update_session :: "nat \<Rightarrow> (session \<Rightarrow> session) \<Rightarrow> client \<Rightarrow> client" where
  "update_session k f c = c\<lparr>sessions := (sessions c)[k := f (sessions c ! k)]\<rparr>"

definition ensure_running :: "client \<Rightarrow> unit io_result" where
  "ensure_running c = (if client_closed c then Inl BrokenPipe else Inr ())"

section \<open>Taking an idle session\<close>

text \<open>The first item with the smallest session id, and its position.\<close>

fun find_min :: "idle_session list \<Rightarrow> (nat \<times> idle_session) option" where
  "find_min [] = None"
| "find_min (x # xs) =
     (case find_min xs of
        None \<Rightarrow> Some (0, x)
      | Some (i, y) \<Rightarrow> if idle_id x \<le> idle_id y then Some (0, x) else Some (Suc i, y))"

definition swap_remove :: "nat \<Rightarrow> 'a list \<Rightarrow> 'a list" where
  "swap_remove i xs = butlast (xs[i := last xs])"

function take_idle :: "nat \<Rightarrow> client \<Rightarrow> nat option \<times> client" where
  "take_idle now c =
     (case find_min (idle_pool c) of
        None \<Rightarrow> (None, c)
      | Some (i, item) \<Rightarrow>
          (let c1 = c\<lparr>idle_pool := swap_remove i (idle_pool c)\<rparr>;
               s = sessions c ! idle_id item
           in if \<not> closed s \<and> \<not> is_expired now s then (Some (idle_id item), c1)
              else take_idle now (update_session (idle_id item) shutdown c1)))"
  by pat_completeness auto
termination
proof (relation "measure (\<lambda>(now, c). length (idle_pool c))")
  fix now :: nat and c c1 :: client and x i item and s :: session
  assume "find_min (idle_pool c) = Some x" "(i, item) = x" "c1 = c\<lparr>idle_pool := swap_remove i (idle_pool c)\<rparr>"
  then show "((now, update_session (idle_id item) shutdown c1), now, c) \<in> measure (\<lambda>(now, c). length (idle_pool c))"
    by (cases "idle_pool c = []") (simp_all add: update_session_def swap_remove_def)
qed simp

declare take_idle.simps [simp del]

definition reserve_pooled_stream :: "nat \<Rightarrow> u32 \<Rightarrow> client \<Rightarrow> (nat \<times> u32) option io_result \<times> u32 \<times> client" where
  "reserve_pooled_stream now next_stream_id c =
     (case ensure_running c of
        Inl e \<Rightarrow> (Inl e, next_stream_id, c)
      | Inr _ \<Rightarrow>
          (case take_idle now c of
             (None, c1) \<Rightarrow> (Inr None, next_stream_id, c1)
           | (Some k, c1) \<Rightarrow>
               (let (r, next, s) = reserve_stream now next_stream_id (sessions c1 ! k);
                    c2 = update_session k (\<lambda>_. s) c1
                in case r of
                     Inr sid \<Rightarrow> (Inr (Some (k, sid)), next, c2)
                   | Inl e \<Rightarrow>
                       (if e \<in> {WouldBlock, BrokenPipe, TimedOut} then (Inr None, next, c2)
                        else (Inl e, next, c2)))))"

section \<open>Creating a session and a stream\<close>

text \<open>
  \<^verbatim>\<open>create_session\<close> up to the write of its settings, with the outcome of the dialer; \<open>None\<close> is the
  suspended \<^verbatim>\<open>run\<close>.
\<close>

definition create_session ::
    "((string \<times> string) list \<Rightarrow> (string \<times> string) list) \<Rightarrow> string \<Rightarrow> nat \<Rightarrow> unit io_result \<Rightarrow> client \<Rightarrow>
     (nat \<times> op_result) io_result \<times> client" where
  "create_session order pkg_version now outcome c =
     (case outcome of
        Inl e \<Rightarrow> (Inl e, c)
      | Inr _ \<Rightarrow>
          (let sequence = length (sessions c);
               s = set_idle_sender (new_client sequence (pool_padding c) (max_session_age c) now);
               (r, s1) = run order pkg_version now s
           in (Inr (sequence, r), c\<lparr>sessions := sessions c @ [s1]\<rparr>)))"

text \<open>The task that ties a session to the client's close signal.\<close>

definition client_close_session :: "nat \<Rightarrow> client \<Rightarrow> client" where
  "client_close_session k c = (if client_closed c then update_session k shutdown c else c)"

text \<open>What \<^verbatim>\<open>create_stream\<close> does before it has to dial: \<open>Inr None\<close> means that it dials.\<close>

definition create_stream_pooled ::
    "nat \<Rightarrow> u32 \<Rightarrow> client \<Rightarrow> (nat \<times> u32) option io_result \<times> u32 \<times> client" where
  "create_stream_pooled now next_stream_id c =
     (case ensure_running c of
        Inl e \<Rightarrow> (Inl e, next_stream_id, c)
      | Inr _ \<Rightarrow>
          (let (r, next, c1) = reserve_pooled_stream now next_stream_id c
           in case r of
                Inr (Some (k, sid)) \<Rightarrow>
                  (Inr (Some (k, sid)), next,
                   update_session k (\<lambda>s. snd (open_reserved_stream now sid s)) c1)
              | other \<Rightarrow> (other, next, c1)))"

text \<open>\<^verbatim>\<open>create_stream\<close> once the new session \<open>k\<close> runs, with the result of \<^verbatim>\<open>create_session\<close>.\<close>

definition create_stream_dialled ::
    "nat \<Rightarrow> u32 \<Rightarrow> nat \<Rightarrow> unit io_result \<Rightarrow> client \<Rightarrow> (nat \<times> u32) io_result \<times> u32 \<times> client" where
  "create_stream_dialled now next_stream_id k result c =
     (case result of
        Inl e \<Rightarrow> (Inl e, next_stream_id, c)
      | Inr _ \<Rightarrow>
          (case ensure_running c of
             Inl e \<Rightarrow> (Inl e, next_stream_id, c)
           | Inr _ \<Rightarrow>
               (let (r, next, s) = reserve_stream now next_stream_id (sessions c ! k)
                in case r of
                     Inl e \<Rightarrow> (Inl e, next, update_session k (\<lambda>_. s) c)
                   | Inr sid \<Rightarrow>
                       (Inr (k, sid), next, update_session k (\<lambda>_. snd (open_reserved_stream now sid s)) c))))"

text \<open>The end of \<^verbatim>\<open>create_stream\<close>: a session whose SYN could not be sent is shut down.\<close>

definition create_stream_opened :: "nat \<Rightarrow> u32 \<Rightarrow> unit io_result \<Rightarrow> client \<Rightarrow> u32 io_result \<times> client" where
  "create_stream_opened k sid result c =
     (case result of
        Inr _ \<Rightarrow> (Inr sid, c)
      | Inl e \<Rightarrow> (Inl e, update_session k shutdown c))"

section \<open>Returning, cleaning up, shutting down\<close>

text \<open>
  The task of \<^verbatim>\<open>create_session\<close> that receives session \<open>k\<close> from its idle channel: what it checks
  before it waits for the pool's lock (whether it goes on to it), and what it does with the lock.
\<close>

definition idle_received :: "nat \<Rightarrow> nat \<Rightarrow> client \<Rightarrow> bool \<times> client" where
  "idle_received now k c0 =
     (let c = update_session k (\<lambda>s. s\<lparr>idle_notices := idle_notices s - 1\<rparr>) c0;
          s = sessions c ! k
      in if client_closed c then (False, update_session k shutdown c)
         else if \<not> closed s \<and> is_idle s then
           (if is_expired now s then (False, update_session k shutdown c) else (True, c))
         else (False, c))"

definition idle_pooled :: "nat \<Rightarrow> nat \<Rightarrow> client \<Rightarrow> client" where
  "idle_pooled now k c =
     (if list_ex (\<lambda>item. idle_id item = k) (idle_pool c) then c
      else if length (idle_pool c) < MAX_IDLE_SESSIONS
      then c\<lparr>idle_pool := idle_pool c @ [\<lparr>since = now, idle_id = k\<rparr>]\<rparr>
      else update_session k shutdown c)"

definition idle_returned :: "nat \<Rightarrow> nat \<Rightarrow> client \<Rightarrow> client" where
  "idle_returned now k c0 = (let (go_on, c) = idle_received now k c0 in if go_on then idle_pooled now k c else c)"

definition cleanup :: "nat \<Rightarrow> nat \<Rightarrow> client \<Rightarrow> client" where
  "cleanup now timeout c =
     (let expiration = (if timeout \<le> now then now - timeout else now);
          stale = (\<lambda>item. since item < expiration \<or> is_expired now (sessions c ! idle_id item));
          closing = fold (\<lambda>item. update_session (idle_id item) shutdown) (filter stale (idle_pool c))
      in (closing c)\<lparr>idle_pool := filter (\<lambda>item. \<not> stale item) (idle_pool c)\<rparr>)"

definition client_shutdown :: "client \<Rightarrow> unit io_result \<times> client" where
  "client_shutdown c =
     (let closing = fold (\<lambda>item. update_session (idle_id item) shutdown) (idle_pool c)
      in (Inr (), (closing (c\<lparr>client_closed := True\<rparr>))\<lparr>idle_pool := []\<rparr>))"

section \<open>The pool invariant\<close>

text \<open>At most four idle sessions, each once, and each a session of the client.\<close>

definition pool_inv :: "client \<Rightarrow> bool" where
  "pool_inv c \<longleftrightarrow>
     length (idle_pool c) \<le> MAX_IDLE_SESSIONS \<and> distinct (map idle_id (idle_pool c)) \<and>
     (\<forall>item\<in>set (idle_pool c). idle_id item < length (sessions c))"

lemma find_min_Some:
  "find_min xs = Some (i, x) \<Longrightarrow> i < length xs \<and> xs ! i = x \<and> (\<forall>y\<in>set xs. idle_id x \<le> idle_id y)"
proof (induction xs arbitrary: i x)
  case (Cons y ys)
  show ?case
  proof (cases "find_min ys")
    case None
    then have "ys = []" by (cases ys) (auto split: option.splits prod.splits if_splits)
    with Cons.prems show ?thesis by simp
  next
    case (Some p)
    with Cons.IH [of "fst p" "snd p"] Cons.prems show ?thesis
      by (cases p) (auto split: if_splits)
  qed
qed simp

lemma find_min_None: "find_min xs = None \<longleftrightarrow> xs = []"
  by (cases xs) (auto split: option.splits)

lemma swap_remove_mset:
  assumes "i < length xs"
  shows "mset (swap_remove i xs) = mset xs - {#xs ! i#}"
proof (cases xs rule: rev_cases)
  case (snoc ys y)
  show ?thesis
  proof (cases "i = length ys")
    case True
    then show ?thesis by (simp add: swap_remove_def snoc)
  next
    case False
    with assms snoc have i: "i < length ys" by simp
    then have "swap_remove i xs = ys[i := y]"
      by (simp add: swap_remove_def snoc list_update_append butlast_append)
    moreover have "mset (ys[i := y]) = add_mset y (mset ys - {#ys ! i#})" using i by (rule mset_update)
    moreover have "ys ! i \<in># mset ys" using i by simp
    ultimately show ?thesis using i snoc by (simp add: nth_append)
  qed
qed (use assms in simp)

lemma swap_remove_set:
  assumes "i < length xs" and "distinct (map f xs)"
  shows "set (swap_remove i xs) = set xs - {xs ! i}" and "distinct (map f (swap_remove i xs))"
    and "length (swap_remove i xs) = length xs - 1"
proof -
  have m: "mset (swap_remove i xs) = mset xs - {#xs ! i#}" using assms(1) by (rule swap_remove_mset)
  then have r: "mset (swap_remove i xs) = mset (remove1 (xs ! i) xs)" by simp
  have "distinct xs" using assms(2) by (simp add: distinct_map)
  then show "set (swap_remove i xs) = set xs - {xs ! i}"
    using mset_eq_setD [OF r] by (simp add: set_remove1_eq)
  have "mset (map f (remove1 (xs ! i) xs)) = mset (map f (swap_remove i xs))" using r by simp
  moreover have "distinct (map f (remove1 (xs ! i) xs))"
    using assms(2) by (auto simp: distinct_map inj_on_diff)
  ultimately show "distinct (map f (swap_remove i xs))" using mset_eq_imp_distinct_iff by blast
  show "length (swap_remove i xs) = length xs - 1" by (simp add: swap_remove_def)
qed

abbreviation idle_ids :: "client \<Rightarrow> nat set" where
  "idle_ids c \<equiv> idle_id ` set (idle_pool c)"

definition session_live :: "nat \<Rightarrow> client \<Rightarrow> nat \<Rightarrow> bool" where
  "session_live now c k \<longleftrightarrow> \<not> closed (sessions c ! k) \<and> \<not> is_expired now (sessions c ! k)"

lemma update_session_fields [simp]:
  "idle_pool (update_session k f c) = idle_pool c" "client_closed (update_session k f c) = client_closed c"
  "length (sessions (update_session k f c)) = length (sessions c)"
  by (simp_all add: update_session_def)

lemma sessions_update:
  "k < length (sessions c) \<Longrightarrow> sessions (update_session k f c) ! j = (if j = k then f (sessions c ! k) else sessions c ! j)"
  by (simp add: update_session_def nth_list_update)

text \<open>One step of \<^verbatim>\<open>take_idle\<close>: the item with the smallest id leaves the pool.\<close>

lemma pool_without_min:
  assumes "pool_inv c" and "find_min (idle_pool c) = Some (i, x)"
  defines "c1 \<equiv> c\<lparr>idle_pool := swap_remove i (idle_pool c)\<rparr>"
  shows "pool_inv c1" and "idle_ids c1 = idle_ids c - {idle_id x}" and "idle_id x \<in> idle_ids c"
    and "\<forall>j\<in>idle_ids c. idle_id x \<le> j" and "idle_id x < length (sessions c)"
proof -
  have i: "i < length (idle_pool c)" "idle_pool c ! i = x" and le: "\<forall>y\<in>set (idle_pool c). idle_id x \<le> idle_id y"
    using find_min_Some [OF assms(2)] by auto
  have d: "distinct (map idle_id (idle_pool c))" using assms(1) by (simp add: pool_inv_def)
  note s = swap_remove_set [OF i(1) d, unfolded i(2)]
  show "pool_inv c1" using assms(1) s unfolding c1_def pool_inv_def by auto
  have x: "x \<in> set (idle_pool c)" using i nth_mem by blast
  then show "idle_ids c1 = idle_ids c - {idle_id x}"
    using s(1) d unfolding c1_def by (auto simp: distinct_map inj_on_def)
  show "idle_id x \<in> idle_ids c" "\<forall>j\<in>idle_ids c. idle_id x \<le> j" "idle_id x < length (sessions c)"
    using x le assms(1) by (auto simp: pool_inv_def)
qed

definition taken :: "nat \<Rightarrow> client \<Rightarrow> nat option \<Rightarrow> client \<Rightarrow> bool" where
  "taken now c r c' \<longleftrightarrow>
     pool_inv c' \<and> client_closed c' = client_closed c \<and> length (sessions c') = length (sessions c) \<and>
     (case r of
        None \<Rightarrow> (\<forall>j\<in>idle_ids c. \<not> session_live now c j) \<and> idle_ids c' = {}
      | Some k \<Rightarrow> k \<in> idle_ids c \<and> session_live now c k \<and> (\<forall>j\<in>idle_ids c. session_live now c j \<longrightarrow> k \<le> j) \<and>
          idle_ids c' = {j \<in> idle_ids c. k < j}) \<and>
     (\<forall>j<length (sessions c). sessions c' ! j =
        (if j \<in> idle_ids c \<and> (case r of None \<Rightarrow> True | Some k \<Rightarrow> j < k)
         then shutdown (sessions c ! j) else sessions c ! j))"

text \<open>A dead session with the smallest id is shut down before the search goes on.\<close>

lemma taken_after_dead:
  assumes "k \<in> idle_ids c" and "\<forall>j\<in>idle_ids c. k \<le> j" and "k < length (sessions c)" and "\<not> session_live now c k"
    and "idle_ids c1 = idle_ids c - {k}" and "sessions c1 = sessions c \<and> client_closed c1 = client_closed c"
    and "taken now (update_session k shutdown c1) r c'"
  shows "taken now c r c'"
proof -
  let ?c2 = "update_session k shutdown c1"
  have ids: "idle_ids ?c2 = idle_ids c - {k}" using assms(5) by simp
  have len: "length (sessions ?c2) = length (sessions c)" "client_closed ?c2 = client_closed c"
    using assms(6) by simp_all
  have s: "sessions ?c2 ! j = (if j = k then shutdown (sessions c ! k) else sessions c ! j)" for j
    using assms(3,6) by (simp add: sessions_update)
  then have live: "session_live now ?c2 j = session_live now c j" if "j \<noteq> k" for j
    using that by (simp add: session_live_def)
  have tk: "pool_inv c'" "client_closed c' = client_closed c" "length (sessions c') = length (sessions c)"
    and sess: "\<forall>j<length (sessions c). sessions c' ! j =
        (if j \<in> idle_ids c - {k} \<and> (case r of None \<Rightarrow> True | Some i \<Rightarrow> j < i)
         then shutdown (sessions ?c2 ! j) else sessions ?c2 ! j)"
    using assms(7) unfolding taken_def ids len by blast+
  have r: "case r of
        None \<Rightarrow> (\<forall>j\<in>idle_ids c - {k}. \<not> session_live now ?c2 j) \<and> idle_ids c' = {}
      | Some i \<Rightarrow> i \<in> idle_ids c - {k} \<and> session_live now ?c2 i \<and>
          (\<forall>j\<in>idle_ids c - {k}. session_live now ?c2 j \<longrightarrow> i \<le> j) \<and> idle_ids c' = {j \<in> idle_ids c - {k}. i < j}"
    using assms(7) unfolding taken_def ids by blast
  show ?thesis
  proof (cases r)
    case None
    with r live assms(4) have "(\<forall>j\<in>idle_ids c. \<not> session_live now c j) \<and> idle_ids c' = {}" by auto
    with None tk sess s assms(1) show ?thesis unfolding taken_def by simp
  next
    case (Some i)
    with r have i: "i \<in> idle_ids c" "i \<noteq> k" "session_live now ?c2 i" by auto
    have "k \<le> i" using assms(2) i(1) by (rule bspec)
    with i(2) have "k < i" by simp
    have "idle_ids c' = {j \<in> idle_ids c. i < j}" using r Some \<open>k < i\<close> by auto
    moreover have "\<forall>j\<in>idle_ids c. session_live now c j \<longrightarrow> i \<le> j" using r Some live assms(4) by auto
    ultimately show ?thesis using \<open>k < i\<close> Some i live tk sess s assms(1) unfolding taken_def by simp
  qed
qed

lemma take_idle_taken:
  "pool_inv c \<Longrightarrow> take_idle now c = (r, c') \<Longrightarrow> taken now c r c'"
proof (induction now c arbitrary: r c' rule: take_idle.induct)
  case (1 now c)
  show ?case
  proof (cases "find_min (idle_pool c)")
    case None
    then have "idle_pool c = []" by (simp add: find_min_None)
    with 1 None show ?thesis by (simp add: take_idle.simps [of now c] taken_def)
  next
    case (Some p)
    obtain i x where p: "p = (i, x)" by (cases p)
    let ?k = "idle_id x" and ?c1 = "c\<lparr>idle_pool := swap_remove i (idle_pool c)\<rparr>"
    note m = pool_without_min [OF 1(2) Some [unfolded p]]
    show ?thesis
    proof (cases "session_live now c ?k")
      case True
      with 1 Some p have "r = Some ?k" "c' = ?c1"
        by (simp_all add: take_idle.simps [of now c] session_live_def)
      with True m show ?thesis by (force simp: taken_def)
    next
      case False
      let ?c2 = "update_session ?k shutdown ?c1"
      have t: "take_idle now ?c2 = (r, c')"
        using 1(3) False Some p
        by (auto simp: take_idle.simps [of now c] session_live_def Let_def split: if_splits)
      have inv: "pool_inv ?c2" using m(1) by (simp add: pool_inv_def)
      have tk: "taken now ?c2 r c'"
        using 1(1) [OF Some p [symmetric] refl refl _ inv t] False by (simp add: session_live_def)
      show ?thesis using taken_after_dead [OF m(3-5) False _ _ tk] m(2) by simp
    qed
  qed
qed

text \<open>The pool hands out the open, unexpired idle session with the smallest id, which leaves the
  pool together with the sessions of smaller ids; these are all closed or expired and are shut down,
  no other session is touched, and nothing is handed out only when no idle session is usable.\<close>

theorem take_idle_smallest_live:
  assumes "pool_inv c" and "take_idle now c = (r, c')"
  shows "(case r of
      None \<Rightarrow> (\<forall>j\<in>idle_ids c. \<not> session_live now c j) \<and> idle_ids c' = {}
    | Some k \<Rightarrow> k \<in> idle_ids c \<and> session_live now c k \<and> (\<forall>j\<in>idle_ids c. session_live now c j \<longrightarrow> k \<le> j) \<and>
        idle_ids c' = {j \<in> idle_ids c. k < j}) \<and>
    (\<forall>j<length (sessions c). sessions c' ! j =
       (if j \<in> idle_ids c \<and> (case r of None \<Rightarrow> True | Some k \<Rightarrow> j < k)
        then shutdown (sessions c ! j) else sessions c ! j))"
  using take_idle_taken [OF assms] by (simp add: taken_def)

text \<open>Two sessions for the witnesses: session 0 is closed, session 1 is idle, both are pooled.\<close>

definition sample_pf :: padding_factory where
  "sample_pf = \<lparr>raw_scheme = [], stop = 1, md5 = [], scheme = Map.empty\<rparr>"

definition sample_client :: client where
  "sample_client =
     \<lparr>sessions = [shutdown (new_client 0 sample_pf 0 0), (new_client 1 sample_pf 0 0)\<lparr>idle_notices := 1\<rparr>],
      idle_pool = [\<lparr>since = 5, idle_id = 1\<rparr>, \<lparr>since = 3, idle_id = 0\<rparr>], client_closed = False,
      max_session_age = 0, pool_padding = sample_pf\<rparr>"

lemmas client_defs = sample_client_def sample_pf_def new_client_def session_new_def shutdown_def is_expired_def

lemma sample_client_inv: "pool_inv sample_client"
  by (simp add: pool_inv_def client_defs MAX_IDLE_SESSIONS_def)

theorem take_idle_smallest_live_witness:
  "\<exists>c'. take_idle 9 sample_client = (Some 1, c') \<and> idle_ids c' = {j \<in> idle_ids sample_client. 1 < j} \<and>
    sessions c' ! 0 = shutdown (sessions sample_client ! 0)"
proof -
  obtain c' where c': "take_idle 9 sample_client = (Some 1, c')"
    by (simp add: take_idle.simps client_defs swap_remove_def update_session_def Let_def)
  from take_idle_smallest_live [OF sample_client_inv this] c' show ?thesis
    by (simp add: sample_client_def)
qed

section \<open>Every operation keeps the pool invariant\<close>

lemma pool_inv_update [simp]: "pool_inv (update_session k f c) = pool_inv c"
  by (simp add: pool_inv_def)

lemma fold_shutdown_fields [simp]:
  "idle_pool (fold (\<lambda>item. update_session (idle_id item) shutdown) items c) = idle_pool c"
  "client_closed (fold (\<lambda>item. update_session (idle_id item) shutdown) items c) = client_closed c"
  "length (sessions (fold (\<lambda>item. update_session (idle_id item) shutdown) items c)) = length (sessions c)"
  by (induction items arbitrary: c) simp_all

lemma fold_shutdown_nth:
  "distinct (map idle_id items) \<Longrightarrow> \<forall>item\<in>set items. idle_id item < length (sessions c) \<Longrightarrow>
   sessions (fold (\<lambda>item. update_session (idle_id item) shutdown) items c) ! j =
     (if j \<in> idle_id ` set items then shutdown (sessions c ! j) else sessions c ! j)"
  by (induction items arbitrary: c) (auto simp: sessions_update)

lemma reserve_pooled_inv:
  assumes "pool_inv c" and "reserve_pooled_stream now n c = (r, n', c')"
  shows "pool_inv c'"
proof -
  obtain t c1 where t: "take_idle now c = (t, c1)" by fastforce
  then have "pool_inv c1" using take_idle_taken [OF assms(1)] by (simp add: taken_def)
  with assms t show ?thesis
    by (auto simp: reserve_pooled_stream_def Let_def split: sum.splits option.splits prod.splits if_splits)
qed

lemma idle_received_fields:
  "idle_received now k c = (go_on, c') \<Longrightarrow> idle_pool c' = idle_pool c \<and> length (sessions c') = length (sessions c)"
  by (auto simp: idle_received_def Let_def split: if_splits)

lemma idle_pooled_inv: "pool_inv c \<Longrightarrow> k < length (sessions c) \<Longrightarrow> pool_inv (idle_pooled now k c)"
  by (auto simp: idle_pooled_def pool_inv_def list_ex_iff)

lemma idle_returned_inv:
  assumes "pool_inv c" and "k < length (sessions c)"
  shows "pool_inv (idle_returned now k c)"
proof -
  obtain go_on c1 where c1: "idle_received now k c = (go_on, c1)" by fastforce
  with idle_received_fields [OF c1] assms have "pool_inv c1" "k < length (sessions c1)"
    by (simp_all add: pool_inv_def)
  with c1 show ?thesis by (simp add: idle_returned_def idle_pooled_inv)
qed

lemma cleanup_inv: "pool_inv c \<Longrightarrow> pool_inv (cleanup now timeout c)"
  by (auto simp: cleanup_def pool_inv_def Let_def distinct_map_filter intro: order_trans [OF length_filter_le])

lemma create_session_inv: "pool_inv c \<Longrightarrow> pool_inv (snd (create_session order v now outcome c))"
  by (auto simp: create_session_def pool_inv_def Let_def less_SucI split: sum.splits prod.splits)

text \<open>However streams are requested and sessions come back, time out or are closed, the pool
  holds at most four idle sessions, none of them twice, and only sessions of the client.\<close>

theorem pool_stays_bounded:
  assumes "pool_inv c" and "k < length (sessions c)"
  shows "pool_inv (snd (take_idle now c)) \<and> pool_inv (snd (snd (create_stream_pooled now n c))) \<and>
    pool_inv (snd (create_session order v now outcome c)) \<and>
    pool_inv (snd (snd (create_stream_dialled now n k result c))) \<and>
    pool_inv (snd (create_stream_opened k sid result c)) \<and> pool_inv (idle_returned now k c) \<and>
    pool_inv (cleanup now timeout c) \<and> pool_inv (snd (client_shutdown c))"
proof -
  have "pool_inv (snd (take_idle now c))"
    using take_idle_taken [OF assms(1)] by (metis prod.collapse taken_def)
  moreover have "pool_inv (snd (snd (create_stream_pooled now n c)))"
    using assms(1) reserve_pooled_inv [OF assms(1), of now n]
    by (auto simp: create_stream_pooled_def split: sum.splits prod.splits option.splits)
  moreover have "pool_inv (snd (create_session order v now outcome c))"
    using assms(1) by (rule create_session_inv)
  moreover have "pool_inv (snd (snd (create_stream_dialled now n k result c)))"
    using assms(1) by (auto simp: create_stream_dialled_def Let_def split: sum.splits prod.splits)
  moreover have "pool_inv (snd (create_stream_opened k sid result c))"
    using assms(1) by (simp add: create_stream_opened_def split: sum.splits)
  moreover have "pool_inv (cleanup now timeout c)"
    using assms(1) by (rule cleanup_inv)
  moreover have "pool_inv (snd (client_shutdown c))"
    by (simp add: client_shutdown_def pool_inv_def)
  ultimately show ?thesis using idle_returned_inv [OF assms] by blast
qed

theorem pool_stays_bounded_witness: "pool_inv (idle_returned 7 1 sample_client)"
  using pool_stays_bounded [OF sample_client_inv, of 1 7] by (simp add: sample_client_def)

text \<open>Cleaning up keeps exactly the idle sessions that became idle within the timeout and have not
  outlived their maximum age, in their order; every other pooled session is closed and the sessions
  that stay are not touched.\<close>

theorem cleanup_closes_stale:
  assumes "pool_inv c" and "timeout \<le> now"
  shows "idle_pool (cleanup now timeout c) =
      filter (\<lambda>item. now \<le> since item + timeout \<and> \<not> is_expired now (sessions c ! idle_id item)) (idle_pool c) \<and>
    (\<forall>item\<in>set (idle_pool c).
       sessions (cleanup now timeout c) ! idle_id item =
         (if item \<in> set (idle_pool (cleanup now timeout c)) then sessions c ! idle_id item
          else shutdown (sessions c ! idle_id item)))"
proof -
  define stale where "stale = (\<lambda>item :: idle_session. since item < now - timeout \<or> is_expired now (sessions c ! idle_id item))"
  define closing where "closing = fold (\<lambda>item. update_session (idle_id item) shutdown) (filter stale (idle_pool c))"
  have c': "cleanup now timeout c = (closing c)\<lparr>idle_pool := filter (\<lambda>item. \<not> stale item) (idle_pool c)\<rparr>"
    using assms(2) by (simp add: cleanup_def stale_def closing_def Let_def)
  have d: "distinct (map idle_id (idle_pool c))" and l: "\<forall>item\<in>set (idle_pool c). idle_id item < length (sessions c)"
    using assms(1) by (simp_all add: pool_inv_def)
  have "sessions (closing c) ! idle_id item = (if stale item then shutdown (sessions c ! idle_id item) else sessions c ! idle_id item)"
    if "item \<in> set (idle_pool c)" for item
  proof -
    have "idle_id item \<in> idle_id ` set (filter stale (idle_pool c)) \<longleftrightarrow> stale item"
      using that d by (auto simp: distinct_map inj_on_def)
    then show ?thesis
      unfolding closing_def using l d by (simp add: fold_shutdown_nth distinct_map_filter)
  qed
  then show ?thesis
    unfolding c' using stale_def by (auto simp: less_diff_conv not_less cong: filter_cong)
qed

theorem cleanup_closes_stale_witness:
  "idle_pool (cleanup 9 5 sample_client) = [\<lparr>since = 5, idle_id = 1\<rparr>]"
  using cleanup_closes_stale [OF sample_client_inv, of 5 9]
  by (simp add: client_defs)

text \<open>After its shutdown a client has no idle sessions, the ones it had are closed, and no stream can
  be created: a request fails with \<^verbatim>\<open>BrokenPipe\<close>, also one that had dialled before, and a session that
  comes back is closed instead of pooled.\<close>

theorem client_shutdown_final:
  assumes "pool_inv c" and "snd (client_shutdown c) = c'" and "k < length (sessions c)"
  shows "idle_pool c' = [] \<and> (\<forall>j\<in>idle_ids c. closed (sessions c' ! j)) \<and>
    create_stream_pooled now n c' = (Inl BrokenPipe, n, c') \<and>
    create_stream_dialled now n k (Inr ()) c' = (Inl BrokenPipe, n, c') \<and>
    closed (sessions (idle_returned now k c') ! k) \<and> idle_pool (idle_returned now k c') = []"
proof -
  let ?cl = "fold (\<lambda>item. update_session (idle_id item) shutdown) (idle_pool c) (c\<lparr>client_closed := True\<rparr>)"
  have c': "c' = ?cl\<lparr>idle_pool := []\<rparr>" using assms(2) by (simp add: client_shutdown_def Let_def)
  have f: "client_closed c'" "length (sessions c') = length (sessions c)"
    by (simp_all add: c')
  have cl: "closed (shutdown s)" for s by (simp add: shutdown_def cancel_stream_def update_pump_def Let_def split: option.splits)
  have "\<forall>j\<in>idle_ids c. closed (sessions c' ! j)"
    using assms(1) cl by (auto simp: c' pool_inv_def fold_shutdown_nth)
  moreover have "closed (sessions (idle_returned now k c') ! k) \<and> idle_pool (idle_returned now k c') = []"
    using f assms(3) cl by (simp add: idle_returned_def idle_received_def Let_def sessions_update c')
  ultimately show ?thesis
    using f by (simp add: create_stream_pooled_def create_stream_dialled_def ensure_running_def c')
qed

theorem client_shutdown_final_witness:
  "create_stream_pooled 0 4 (snd (client_shutdown sample_client)) = (Inl BrokenPipe, 4, snd (client_shutdown sample_client))"
  using client_shutdown_final [OF sample_client_inv refl, of 0 0 4] by (simp add: sample_client_def)

end
