(* ===== verification/Pool_Tasks.thy ===== *)
theory Pool_Tasks
  imports Client_Pool
begin

text \<open>
  The client's pool as a system of concurrent tasks (\<^verbatim>\<open>src/client.rs\<close>): any number of callers of
  \<^verbatim>\<open>create_stream\<close>, the tasks that take idle sessions back, the cleanup, the shutdown, and the
  sessions, each of which takes its own steps. A caller is cut where another task can come in
  between; the counter of stream ids is the process-wide one.
\<close>

section \<open>Callers of \<^verbatim>\<open>create_stream\<close>\<close>

text \<open>
  How far a call has come. \<open>Taken\<close> and \<open>Reserving\<close> say whether the session comes from the pool;
  \<open>Running\<close> waits for \<^verbatim>\<open>Session::run\<close> of the session it has dialled; the last number of a reserved
  stream is its pump, the task that feeds the reading end of the stream handle.
\<close>

datatype caller =
    Called
  | Checked
  | Taken nat bool
  | Dialling
  | Running nat
  | Reserving nat u32 bool
  | Reserved nat u32 nat
  | Opening nat u32 nat
  | Granted nat u32 nat
  | Refused io_error
  | Gone

text \<open>A pooled session that cannot be used is replaced by a new one, a new one is not.\<close>

definition refusal :: "bool \<Rightarrow> io_error \<Rightarrow> caller" where
  "refusal pooled e = (if pooled \<and> e \<in> {WouldBlock, BrokenPipe, TimedOut} then Dialling else Refused e)"

definition caller_started :: "unit io_result \<Rightarrow> nat \<Rightarrow> client \<Rightarrow> caller" where
  "caller_started result k c =
     (case result of
        Inl e \<Rightarrow> Refused e
      | Inr _ \<Rightarrow> (case ensure_running c of Inl e \<Rightarrow> Refused e | Inr _ \<Rightarrow> Taken k False))"

definition caller_opened :: "unit io_result \<Rightarrow> nat \<Rightarrow> u32 \<Rightarrow> nat \<Rightarrow> client \<Rightarrow> caller \<times> client" where
  "caller_opened result k sid i c =
     (case create_stream_opened k sid result c of
        (Inl e, c') \<Rightarrow> (Refused e, c')
      | (Inr _, c') \<Rightarrow> (Granted k sid i, c'))"

text \<open>The moves a caller makes without waiting for the network.\<close>

fun caller_moves :: "nat \<Rightarrow> caller \<Rightarrow> u32 \<Rightarrow> client \<Rightarrow> (caller \<times> u32 \<times> client) option" where
  "caller_moves now Called n c =
     Some (case ensure_running c of Inl e \<Rightarrow> (Refused e, n, c) | Inr _ \<Rightarrow> (Checked, n, c))"
| "caller_moves now Checked n c =
     Some (case take_idle now c of (None, c') \<Rightarrow> (Dialling, n, c') | (Some k, c') \<Rightarrow> (Taken k True, n, c'))"
| "caller_moves now (Taken k pooled) n c =
     Some (if closed (sessions c ! k) then (refusal pooled BrokenPipe, n, c)
           else let (sid, n') = allocate_stream_id n in (Reserving k sid pooled, n', c))"
| "caller_moves now (Reserving k sid pooled) n c =
     Some (let (r, s) = reserve_locked now sid (sessions c ! k);
               c' = update_session k (\<lambda>_. s) c
           in case r of
                Inl e \<Rightarrow> (refusal pooled e, n, c')
              | Inr _ \<Rightarrow> (Reserved k sid (length (pumps (sessions c ! k))), n, c'))"
| "caller_moves now (Reserved k sid i) n c =
     Some (let (r, s) = open_reserved_stream now sid (sessions c ! k);
               c' = update_session k (\<lambda>_. s) c
           in case r of
                None \<Rightarrow> (Opening k sid i, n, c')
              | Some result \<Rightarrow> (let (x, c'') = caller_opened result k sid i c' in (x, n, c'')))"
| "caller_moves now _ n c = None"

text \<open>A suspended operation of a session returns to its caller.\<close>

inductive op_returns :: "nat \<Rightarrow> continuation \<Rightarrow> unit io_result \<Rightarrow> session \<Rightarrow> session \<Rightarrow> bool" where
    returns_refused:
      "AwaitPermit q bs disable deadline k \<in> set (tasks s) \<Longrightarrow> permit_refused now deadline e s \<Longrightarrow>
       resume now k (Inl e) (drop_task (AwaitPermit q bs disable deadline k) s) = (result, s') \<Longrightarrow>
       op_returns now k result s s'"
  | returns_answered:
      "AwaitResult i k \<in> set (tasks s) \<Longrightarrow> request_answer i r s \<Longrightarrow>
       resume now k r (forget_completion i (drop_task (AwaitResult i k) s)) = (result, s') \<Longrightarrow>
       op_returns now k result s s'"

section \<open>Steps\<close>

record pool_system =
  pool :: client
  counter :: u32
  callers :: "caller list"
  returning :: "nat list"

definition pool_start :: "padding_factory \<Rightarrow> nat \<Rightarrow> u32 \<Rightarrow> pool_system" where
  "pool_start pf age n = \<lparr>pool = client_new pf age, counter = n, callers = [], returning = []\<rparr>"

text \<open>What becomes of a caller and of the client; the other callers do not notice.\<close>

definition moved :: "nat \<Rightarrow> caller \<Rightarrow> u32 \<Rightarrow> client \<Rightarrow> pool_system \<Rightarrow> pool_system" where
  "moved i x n c p = p\<lparr>callers := (callers p)[i := x], counter := n, pool := c\<rparr>"

text \<open>
  A session may take any step of its own at any time, except that only callers reserve streams and
  only the tasks of the pool receive the notices of idle sessions. A caller that has not yet reserved a
  stream may be dropped while it waits; later this is the drop of its stream, a step of the session. The connect timeout covers the dialler and \<^verbatim>\<open>run\<close>; a caller
  that is cut off there leaves a session behind that nobody uses. A shutdown first sets the close
  signal and then drains the pool.
\<close>

inductive pool_step ::
    "(byte list \<Rightarrow> byte list) \<Rightarrow> ((string \<times> string) list \<Rightarrow> (string \<times> string) list) \<Rightarrow> string \<Rightarrow>
     pool_system \<Rightarrow> pool_system \<Rightarrow> bool"
  for digest order pkg_version where
    pool_call: "pool_step digest order pkg_version p (p\<lparr>callers := callers p @ [Called]\<rparr>)"
  | pool_move:
      "i < length (callers p) \<Longrightarrow> caller_moves now (callers p ! i) (counter p) (pool p) = Some (x, n, c) \<Longrightarrow>
       pool_step digest order pkg_version p (moved i x n c p)"
  | pool_dial:
      "i < length (callers p) \<Longrightarrow> callers p ! i = Dialling \<Longrightarrow>
       create_session order pkg_version now outcome (pool p) = (r, c) \<Longrightarrow>
       x = (case r of
              Inl e \<Rightarrow> Refused e
            | Inr (k, None) \<Rightarrow> Running k
            | Inr (k, Some result) \<Rightarrow> caller_started result k c) \<Longrightarrow>
       pool_step digest order pkg_version p (moved i x (counter p) c p)"
  | pool_cut_off:
      "i < length (callers p) \<Longrightarrow> callers p ! i = Dialling \<or> callers p ! i = Running k \<Longrightarrow>
       e = TimedOut \<or> (e = BrokenPipe \<and> client_closed (pool p)) \<Longrightarrow>
       pool_step digest order pkg_version p (moved i (Refused e) (counter p) (pool p) p)"
  | pool_started:
      "i < length (callers p) \<Longrightarrow> callers p ! i = Running k \<Longrightarrow>
       op_returns now RunSession result (sessions (pool p) ! k) s \<Longrightarrow>
       c = update_session k (\<lambda>_. s) (pool p) \<Longrightarrow> x = caller_started result k c \<Longrightarrow>
       pool_step digest order pkg_version p (moved i x (counter p) c p)"
  | pool_opened:
      "i < length (callers p) \<Longrightarrow> callers p ! i = Opening k sid j \<Longrightarrow>
       op_returns now (OpenReserved sid) result (sessions (pool p) ! k) s \<Longrightarrow>
       caller_opened result k sid j (update_session k (\<lambda>_. s) (pool p)) = (x, c) \<Longrightarrow>
       pool_step digest order pkg_version p (moved i x (counter p) c p)"
  | pool_gone:
      "i < length (callers p) \<Longrightarrow>
       callers p ! i \<in> {Called, Checked, Taken k b, Dialling, Running k, Reserving k sid b} \<Longrightarrow>
       pool_step digest order pkg_version p (moved i Gone (counter p) (pool p) p)"
  | pool_session:
      "k < length (sessions (pool p)) \<Longrightarrow> session_step digest order pkg_version (sessions (pool p) ! k) s \<Longrightarrow>
       length (pumps s) = length (pumps (sessions (pool p) ! k)) \<Longrightarrow>
       idle_notices (sessions (pool p) ! k) \<le> idle_notices s \<Longrightarrow>
       pool_step digest order pkg_version p (p\<lparr>pool := update_session k (\<lambda>_. s) (pool p)\<rparr>)"
  | pool_idle_received:
      "k < length (sessions (pool p)) \<Longrightarrow> 0 < idle_notices (sessions (pool p) ! k) \<Longrightarrow>
       idle_received now k (pool p) = (go_on, c) \<Longrightarrow>
       pool_step digest order pkg_version p
         (p\<lparr>pool := c, returning := (if go_on then returning p @ [k] else returning p)\<rparr>)"
  | pool_idle_pooled:
      "k \<in> set (returning p) \<Longrightarrow>
       pool_step digest order pkg_version p
         (p\<lparr>pool := idle_pooled now k (pool p), returning := remove1 k (returning p)\<rparr>)"
  | pool_cleanup: "pool_step digest order pkg_version p (p\<lparr>pool := cleanup now timeout (pool p)\<rparr>)"
  | pool_cancel: "pool_step digest order pkg_version p (p\<lparr>pool := (pool p)\<lparr>client_closed := True\<rparr>\<rparr>)"
  | pool_shutdown: "pool_step digest order pkg_version p (p\<lparr>pool := snd (client_shutdown (pool p))\<rparr>)"
  | pool_close_session:
      "k < length (sessions (pool p)) \<Longrightarrow>
       pool_step digest order pkg_version p (p\<lparr>pool := client_close_session k (pool p)\<rparr>)"

section \<open>What a session owes\<close>

text \<open>
  The stream of a session and the notices it has sent. A stream that ends leaves one notice at
  most, so the sum grows only when a stream starts, which adds a pump.
\<close>

definition load :: "session \<Rightarrow> nat" where
  "load s = idle_notices s + of_bool (streams s \<noteq> None)"

lemma load_0: "load s = 0 \<longleftrightarrow> idle_notices s = 0 \<and> streams s = None"
  by (cases "streams s") (simp_all add: load_def)

interpretation load_kept: kept_steps "\<lambda>s. load s + a \<le> length (pumps s) + b" for a b
  by unfold_locales
    (auto simp: load_def primitive_updates split: primitive_splits)

lemma session_step_load:
  "session_step digest order v s s' \<Longrightarrow> load s' + length (pumps s) \<le> length (pumps s') + load s"
  using load_kept.step_keep [of digest order v s s' "length (pumps s)" "load s"] by simp

text \<open>A client session has no stream before its reader is taken by \<^verbatim>\<open>run\<close> or by a shutdown.\<close>

definition unread :: "session \<Rightarrow> bool" where
  "unread s \<longleftrightarrow> is_client s \<and> (reader_present s \<longrightarrow> pumps s = [])"

interpretation unread_kept: kept_steps unread
  by unfold_locales
    (auto simp: unread_def primitive_updates split: primitive_splits)

interpretation reader_kept: kept_steps "\<lambda>s. \<not> reader_present s"
  by unfold_locales
    (auto simp: primitive_updates split: primitive_splits)

end
