(* ===== verification/Pool_System.thy ===== *)
theory Pool_System
  imports Pool_Tasks
begin

text \<open>
  The pool under every interleaving of its tasks: each session has at most one owner (the pool, a
  caller on its way to a stream, a task that takes it back, or its stream or the notice that the
  stream has ended), and each session behaves as a session does by itself.
\<close>

section \<open>Owners\<close>

text \<open>The session a caller is about to use, and the stream it has reserved (as its session and pump).\<close>

fun claims :: "caller \<Rightarrow> nat option" where
  "claims (Taken k _) = Some k"
| "claims (Running k) = Some k"
| "claims (Reserving k _ _) = Some k"
| "claims _ = None"

fun holds :: "caller \<Rightarrow> (nat \<times> nat) option" where
  "holds (Reserved k _ i) = Some (k, i)"
| "holds (Opening k _ i) = Some (k, i)"
| "holds (Granted k _ i) = Some (k, i)"
| "holds _ = None"

text \<open>Streams have ids from the allocator.\<close>

fun valid_caller :: "caller \<Rightarrow> bool" where
  "valid_caller (Reserving _ sid _) = (sid \<noteq> 0)"
| "valid_caller (Reserved _ sid _) = (sid \<noteq> 0)"
| "valid_caller (Opening _ sid _) = (sid \<noteq> 0)"
| "valid_caller _ = True"

definition claims_of :: "nat \<Rightarrow> caller list \<Rightarrow> nat" where
  "claims_of k xs = sum_list (map (\<lambda>x. of_bool (claims x = Some k)) xs)"

definition owners :: "nat \<Rightarrow> pool_system \<Rightarrow> nat" where
  "owners k p = of_bool (k \<in> idle_ids (pool p)) + claims_of k (callers p) + count_list (returning p) k +
     load (sessions (pool p) ! k)"

definition caller_in :: "client \<Rightarrow> caller \<Rightarrow> bool" where
  "caller_in c x \<longleftrightarrow> valid_caller x \<and>
     (\<forall>k. claims x = Some k \<longrightarrow> k < length (sessions c)) \<and>
     (\<forall>k i. holds x = Some (k, i) \<longrightarrow> k < length (sessions c) \<and> i < length (pumps (sessions c ! k)))"

definition apart :: "caller list \<Rightarrow> bool" where
  "apart xs \<longleftrightarrow>
     (\<forall>i<length xs. \<forall>j<length xs. \<forall>h. holds (xs ! i) = Some h \<longrightarrow> holds (xs ! j) = Some h \<longrightarrow> i = j)"

definition owner_inv :: "pool_system \<Rightarrow> bool" where
  "owner_inv p \<longleftrightarrow>
     pool_inv (pool p) \<and> (\<forall>k<length (sessions (pool p)). owners k p \<le> 1) \<and>
     (\<forall>k\<in>set (returning p). k < length (sessions (pool p))) \<and>
     (\<forall>x\<in>set (callers p). caller_in (pool p) x) \<and> apart (callers p)"

lemma claims_of_update:
  "i < length xs \<Longrightarrow>
   claims_of k (xs[i := x]) + of_bool (claims (xs ! i) = Some k) = claims_of k xs + of_bool (claims x = Some k)"
proof (induction xs arbitrary: i)
  case (Cons y ys)
  then show ?case by (cases i) (auto simp: claims_of_def)
qed simp

lemma claims_of_pos: "x \<in> set xs \<Longrightarrow> claims x = Some k \<Longrightarrow> 0 < claims_of k xs"
  by (induction xs) (auto simp: claims_of_def)

lemma claims_of_two:
  assumes "i < length xs" and "j < length xs" and "i \<noteq> j" and "claims (xs ! i) = Some k" and "claims (xs ! j) = Some k"
  shows "2 \<le> claims_of k xs"
proof -
  have "xs ! j \<in> set (xs[i := Gone])" using assms(1-3) by (auto simp: in_set_conv_nth nth_list_update intro!: exI [of _ j])
  from claims_of_pos [OF this assms(5)] claims_of_update [OF assms(1), of k Gone] assms(4) show ?thesis by simp
qed

section \<open>What an operation of the client does to the owners\<close>

text \<open>
  Sessions are not forgotten, their pumps stay, and for one caller that turns from \<open>x\<close> into \<open>x'\<close> the
  number of owners of a session does not grow.
\<close>

definition share :: "nat \<Rightarrow> caller \<Rightarrow> client \<Rightarrow> nat" where
  "share k x c = of_bool (k \<in> idle_ids c) + of_bool (claims x = Some k) + load (sessions c ! k)"

definition fair :: "caller \<Rightarrow> client \<Rightarrow> caller \<Rightarrow> client \<Rightarrow> bool" where
  "fair x c x' c' \<longleftrightarrow>
     pool_inv c' \<and> length (sessions c') = length (sessions c) \<and> valid_caller x' \<and>
     (\<forall>k<length (sessions c). share k x' c' \<le> share k x c \<and>
        length (pumps (sessions c ! k)) \<le> length (pumps (sessions c' ! k))) \<and>
     (\<forall>k. claims x' = Some k \<longrightarrow> k < length (sessions c)) \<and>
     (\<forall>k i. holds x' = Some (k, i) \<longrightarrow> holds x = Some (k, i) \<or>
        k < length (sessions c) \<and> i = length (pumps (sessions c ! k)) \<and> i < length (pumps (sessions c' ! k)))"

lemma fair_in:
  assumes "fair x c x' c'" and "caller_in c x"
  shows "caller_in c' x'"
  using assms unfolding fair_def caller_in_def by (metis less_le_trans)

lemma fair_others:
  assumes "fair x c x' c'" and "caller_in c y"
  shows "caller_in c' y"
  using assms unfolding fair_def caller_in_def by (metis less_le_trans)

text \<open>A stream that is reserved now has a pump no caller knows.\<close>

lemma fair_new:
  assumes "fair x c x' c'" and "caller_in c y" and "holds x' = Some h" and "holds y = Some h"
  shows "holds x = Some h"
proof -
  obtain k i where h: "h = (k, i)" by (cases h)
  with assms(1,3) consider "holds x = Some (k, i)" | "i = length (pumps (sessions c ! k))" by (auto simp: fair_def)
  then show ?thesis
    using assms(2,4) h by cases (simp, metis caller_in_def less_irrefl)
qed

lemma apartD:
  "apart xs \<Longrightarrow> i < length xs \<Longrightarrow> j < length xs \<Longrightarrow> holds (xs ! i) = Some h \<Longrightarrow> holds (xs ! j) = Some h \<Longrightarrow> i = j"
  unfolding apart_def by blast

lemma apart_update:
  assumes "apart xs" and "\<And>j h. j < length xs \<Longrightarrow> j \<noteq> i \<Longrightarrow> holds x = Some h \<Longrightarrow> holds (xs ! j) \<noteq> Some h"
  shows "apart (xs[i := x])"
  unfolding apart_def
proof (intro allI impI)
  fix j m h
  assume jm: "j < length (xs[i := x])" "m < length (xs[i := x])"
    and h: "holds (xs[i := x] ! j) = Some h" "holds (xs[i := x] ! m) = Some h"
  show "j = m"
    using apartD [OF assms(1), of j m h] assms(2) [of j h] assms(2) [of m h] jm h
    by (cases "j = i"; cases "m = i") simp_all
qed

lemma apart_moved:
  assumes "apart xs" and "i < length xs" and "fair (xs ! i) c x' c'" and "\<forall>x\<in>set xs. caller_in c x"
  shows "apart (xs[i := x'])"
proof (rule apart_update [OF assms(1)])
  fix j h
  assume j: "j < length xs" "j \<noteq> i" and h: "holds x' = Some h"
  show "holds (xs ! j) \<noteq> Some h"
    using fair_new [OF assms(3) _ h, of "xs ! j"] apartD [OF assms(1), of j i h] assms(2,4) j by auto
qed

lemma owner_inv_moved:
  assumes "owner_inv p" and "i < length (callers p)" and f: "fair (callers p ! i) (pool p) x c"
  shows "owner_inv (moved i x n c p)"
proof -
  have "owners k (moved i x n c p) \<le> 1" if "k < length (sessions (pool p))" for k
  proof -
    have "share k x c \<le> share k (callers p ! i) (pool p)" using f that by (simp add: fair_def)
    then have "owners k (moved i x n c p) \<le> owners k p"
      using claims_of_update [OF assms(2), of k x] by (simp add: share_def owners_def moved_def)
    also have "\<dots> \<le> 1" using assms(1) that by (simp add: owner_inv_def)
    finally show ?thesis .
  qed
  moreover have "\<forall>y\<in>set ((callers p)[i := x]). caller_in c y"
    using assms fair_in [OF f] fair_others [OF f]
    by (auto simp: owner_inv_def dest!: set_update_subset_insert [THEN subsetD])
  moreover have "apart ((callers p)[i := x])"
    using apart_moved [OF _ assms(2) f] assms(1) by (simp add: owner_inv_def)
  ultimately show ?thesis
    using assms(1) f by (simp add: owner_inv_def moved_def fair_def)
qed

section \<open>The operations are fair\<close>

text \<open>A session that only loses streams and notices.\<close>

definition eases :: "session \<Rightarrow> session \<Rightarrow> bool" where
  "eases s s' \<longleftrightarrow> load s' \<le> load s \<and> length (pumps s') = length (pumps s)"

lemma eases_refl [simp]: "eases s s"
  by (simp add: eases_def)

lemma shutdown_eases [simp]: "eases s (shutdown s)"
  by (simp add: eases_def load_def shutdown_def cancel_stream_def update_pump_def Let_def split: option.splits)

lemma eases_trans: "eases s t \<Longrightarrow> eases t u \<Longrightarrow> eases s u"
  by (auto simp: eases_def)

lemma remove_eases: "eases s (remove_stream_by_id now sid s)"
  by (auto simp: remove_stream_by_id_def eases_def load_def shutdown_def cancel_stream_def update_pump_def Let_def
      split: option.splits)

lemma task_fields_ease:
  "eases s (drop_task t s)" "eases s (forget_completion i (drop_task t s))" "eases s (s\<lparr>tasks := ts\<rparr>)"
  by (simp_all add: eases_def load_def drop_task_def forget_completion_def)

lemma open_eases: "eases s (snd (open_reserved_stream now sid s))"
  using remove_eases [of s now sid] task_fields_ease(3)
  by (auto simp: open_reserved_stream_def enqueue_frame_def enqueue_encoded_with_mode_def split: sum.splits)

lemma resume_eases:
  "eases s (snd (resume now (OpenReserved sid) r s))" "eases s (snd (resume now RunSession r s))"
  using remove_eases [of s now sid]
  by (auto simp: resume_def open_reserved_stream_rest_def run_rest_def eases_def load_def split: sum.splits)

lemma op_returns_eases:
  assumes "op_returns now k result s s'" and "k = RunSession \<or> k = OpenReserved sid"
  shows "eases s s'"
proof -
  have "eases t (snd (resume now k r t))" for r t using resume_eases assms(2) by blast
  then have "resume now k r t = (result, s') \<Longrightarrow> eases s t \<Longrightarrow> eases s s'" for r t
    by (metis eases_trans snd_conv)
  with assms(1) task_fields_ease show ?thesis by (auto elim!: op_returns.cases)
qed

lemma session_step_eases:
  "session_step digest order v s s' \<Longrightarrow> length (pumps s') = length (pumps s) \<Longrightarrow> eases s s'"
  using session_step_load [of digest order v s s'] by (simp add: eases_def)

text \<open>A client whose sessions ease and whose pool shrinks.\<close>

definition gentle :: "client \<Rightarrow> client \<Rightarrow> bool" where
  "gentle c c' \<longleftrightarrow>
     pool_inv c' \<and> length (sessions c') = length (sessions c) \<and> idle_ids c' \<subseteq> idle_ids c \<and>
     (\<forall>k<length (sessions c). eases (sessions c ! k) (sessions c' ! k))"

lemma gentle_fair:
  assumes "gentle c c'" and "caller_in c x" and "claims x' = None \<or> claims x' = claims x"
    and "holds x' = None \<or> holds x' = holds x" and "valid_caller x'"
  shows "fair x c x' c'"
  using assms by (auto simp: gentle_def fair_def eases_def share_def caller_in_def intro!: add_mono)

lemma gentle_update:
  "pool_inv c \<Longrightarrow> k < length (sessions c) \<Longrightarrow> eases (sessions c ! k) (f (sessions c ! k)) \<Longrightarrow> gentle c (update_session k f c)"
  by (simp add: gentle_def sessions_update)

lemma gentle_trans:
  assumes "gentle c c1" and "gentle c1 c2"
  shows "gentle c c2"
proof -
  have "eases (sessions c ! k) (sessions c2 ! k)" if "k < length (sessions c)" for k
    using assms that eases_trans [of "sessions c ! k" "sessions c1 ! k"] by (simp add: gentle_def)
  moreover have "idle_ids c2 \<subseteq> idle_ids c" using assms unfolding gentle_def by (meson order_trans)
  ultimately show ?thesis using assms by (simp add: gentle_def)
qed

lemma gentle_ids: "gentle c c' \<Longrightarrow> idle_ids c' \<subseteq> idle_ids c"
  by (simp add: gentle_def)

lemma gentle_refl: "pool_inv c \<Longrightarrow> gentle c c"
  by (simp add: gentle_def)

lemma fold_shutdown_eases:
  "\<forall>item\<in>set items. idle_id item < length (sessions c) \<Longrightarrow>
   eases (sessions c ! k) (sessions (fold (\<lambda>item. update_session (idle_id item) shutdown) items c) ! k)"
proof (induction items arbitrary: c)
  case (Cons item items)
  have "eases (sessions c ! k) (sessions (update_session (idle_id item) shutdown c) ! k)"
    using Cons.prems by (simp add: sessions_update)
  moreover have "eases (sessions (update_session (idle_id item) shutdown c) ! k)
      (sessions (fold (\<lambda>item. update_session (idle_id item) shutdown) (item # items) c) ! k)" using Cons by simp
  ultimately show ?case by (rule eases_trans)
qed simp

lemma cleanup_gentle:
  assumes "pool_inv c"
  shows "gentle c (cleanup now timeout c)"
proof -
  have "\<forall>item\<in>set (idle_pool c). idle_id item < length (sessions c)" using assms by (simp add: pool_inv_def)
  then show ?thesis
    using cleanup_inv [OF assms] unfolding gentle_def
    by (auto simp: cleanup_def Let_def intro!: fold_shutdown_eases)
qed

lemma client_shutdown_gentle:
  assumes "pool_inv c"
  shows "gentle c (snd (client_shutdown c))"
proof -
  have "\<forall>item\<in>set (idle_pool c). idle_id item < length (sessions (c\<lparr>client_closed := True\<rparr>))"
    using assms by (simp add: pool_inv_def)
  from fold_shutdown_eases [OF this] show ?thesis
    by (simp add: gentle_def client_shutdown_def Let_def pool_inv_def)
qed

lemma take_idle_fair:
  assumes "pool_inv c" and "take_idle now c = (r, c')"
  shows "fair Checked c (case r of None \<Rightarrow> Dialling | Some k \<Rightarrow> Taken k True) c'"
proof -
  note t = take_idle_taken [OF assms, unfolded taken_def]
  have s: "\<forall>j<length (sessions c). eases (sessions c ! j) (sessions c' ! j)" using t by simp
  show ?thesis
  proof (cases r)
    case None
    with t s have "gentle c c'" by (simp add: gentle_def)
    then show ?thesis by (rule gentle_fair) (simp_all add: None caller_in_def)
  next
    case (Some k)
    with t have k: "k \<in> idle_ids c" "idle_ids c' = {j \<in> idle_ids c. k < j}" by simp_all
    then have "k < length (sessions c)" using assms(1) by (auto simp: pool_inv_def)
    moreover have "of_bool (j \<in> idle_ids c') + of_bool (k = j) \<le> (of_bool (j \<in> idle_ids c) :: nat)" for j
      unfolding k(2) using k(1) by (cases "j = k") simp_all
    ultimately show ?thesis using t s Some by (simp add: fair_def share_def eases_def add_mono)
  qed
qed

lemma opened_gentle:
  assumes "pool_inv c" and "k < length (sessions c)" and "caller_opened result k sid i c = (x, c')"
  shows "gentle c c' \<and> claims x = None \<and> (holds x = None \<or> holds x = Some (k, i)) \<and> valid_caller x"
  using assms gentle_update [OF assms(1,2), of shutdown] gentle_refl [OF assms(1)]
  by (auto simp: caller_opened_def create_stream_opened_def split: sum.splits)

lemma reserve_result:
  "reserve_locked now sid s = (r, s') \<Longrightarrow>
   (case r of
      Inl e \<Rightarrow> s' = s
    | Inr _ \<Rightarrow> load s' = Suc (load s) \<and> length (pumps s') = Suc (length (pumps s)))"
  by (auto simp: reserve_locked_def stream_state_new_def load_def split: if_splits)

lemma refusal_fields [simp]: "claims (refusal b e) = None" "holds (refusal b e) = None" "valid_caller (refusal b e)"
  by (simp_all add: refusal_def)

lemma reserving_fair:
  assumes "pool_inv c" and "caller_in c (Reserving k sid b)" and "reserve_locked now sid (sessions c ! k) = (r, s)"
  shows "fair (Reserving k sid b) c
    (case r of Inl e \<Rightarrow> refusal b e | Inr _ \<Rightarrow> Reserved k sid (length (pumps (sessions c ! k)))) (update_session k (\<lambda>_. s) c)"
proof -
  have k: "k < length (sessions c)" "sid \<noteq> 0" using assms(2) by (simp_all add: caller_in_def)
  show ?thesis
  proof (cases r)
    case (Inl e)
    with reserve_result [OF assms(3)] have "gentle c (update_session k (\<lambda>_. s) c)"
      using gentle_update [OF assms(1) k(1), of "\<lambda>_. s"] by simp
    then show ?thesis by (rule gentle_fair) (simp_all add: assms(2) Inl)
  next
    case (Inr u)
    with reserve_result [OF assms(3)] k assms(1) show ?thesis
      by (auto simp: fair_def share_def sessions_update)
  qed
qed

lemma reserved_fair:
  assumes "pool_inv c" and "caller_in c (Reserved k sid i)"
    and "caller_moves now (Reserved k sid i) n c = Some (x', n', c')"
  shows "fair (Reserved k sid i) c x' c'"
proof -
  have k: "k < length (sessions c)" "sid \<noteq> 0" using assms(2) by (simp_all add: caller_in_def)
  obtain r s where o: "open_reserved_stream now sid (sessions c ! k) = (r, s)" by fastforce
  let ?c = "update_session k (\<lambda>_. s) c"
  have g: "gentle c ?c" using gentle_update [OF assms(1) k(1), of "\<lambda>_. s"] open_eases [of "sessions c ! k" now sid] o by simp
  show ?thesis
  proof (cases r)
    case None
    with assms(3) o have "x' = Opening k sid i" "c' = ?c" by simp_all
    with gentle_fair [OF g assms(2)] k(2) show ?thesis by simp
  next
    case (Some result)
    with assms(3) o have op: "caller_opened result k sid i ?c = (x', c')" by (simp split: prod.splits)
    have "gentle ?c c' \<and> claims x' = None \<and> (holds x' = None \<or> holds x' = Some (k, i)) \<and> valid_caller x'"
      using opened_gentle [OF _ _ op] assms(1) k(1) by simp
    with gentle_fair [OF gentle_trans [OF g] assms(2)] show ?thesis by simp
  qed
qed

lemma allocate_nonzero: "allocate_stream_id n = (sid, n') \<Longrightarrow> sid \<noteq> 0"
  using add_2_wrap [of n] by (auto simp: allocate_stream_id_eq split: if_splits)

lemma caller_moves_fair:
  assumes "pool_inv c" and "caller_in c x" and "caller_moves now x n c = Some (x', n', c')"
  shows "fair x c x' c'"
proof (cases x)
  case Called
  with assms(3) show ?thesis
    using gentle_fair [OF gentle_refl [OF assms(1)] assms(2), of x'] by (auto split: sum.splits)
next
  case Checked
  obtain r c1 where "take_idle now c = (r, c1)" by fastforce
  with take_idle_fair [OF assms(1) this] Checked assms(3) show ?thesis by (cases r) simp_all
next
  case (Taken k b)
  with assms(3) have "c' = c" "claims x' = None \<or> claims x' = claims x" "holds x' = None" "valid_caller x'"
    by (auto split: if_splits prod.splits dest: allocate_nonzero)
  with gentle_fair [OF gentle_refl [OF assms(1)] assms(2), of x'] show ?thesis by simp
next
  case (Reserving k sid b)
  obtain r s where r: "reserve_locked now sid (sessions c ! k) = (r, s)" by fastforce
  with assms(3) Reserving have "x' = (case r of Inl e \<Rightarrow> refusal b e | Inr _ \<Rightarrow> Reserved k sid (length (pumps (sessions c ! k))))"
    "c' = update_session k (\<lambda>_. s) c" by (cases r; simp add: Let_def)+
  with reserving_fair [OF assms(1) _ r, of b] Reserving assms(2) show ?thesis by simp
next
  case (Reserved k sid i)
  with reserved_fair [OF assms(1)] assms(2,3) show ?thesis by blast
qed (use assms(3) in simp_all)

section \<open>Every step keeps the owners\<close>

lemma owner_inv_gentle:
  assumes "owner_inv p" and "gentle (pool p) c"
  shows "owner_inv (p\<lparr>pool := c\<rparr>)"
proof -
  have "owners k (p\<lparr>pool := c\<rparr>) \<le> owners k p" if "k < length (sessions (pool p))" for k
    using assms(2) that by (auto simp: gentle_def owners_def eases_def intro!: add_mono)
  moreover have "caller_in (pool p) x \<Longrightarrow> caller_in c x" for x
    using assms(2) by (auto simp: gentle_def caller_in_def eases_def)
  ultimately show ?thesis
    using assms by (auto simp: owner_inv_def gentle_def intro: order_trans)
qed

lemma owner_inv_dialled:
  assumes inv: "owner_inv p" and i: "i < length (callers p)" and "load s = 0"
    and x: "claims x = None \<or> claims x = Some (length (sessions (pool p)))" "holds x = None" "valid_caller x"
    and old: "claims (callers p ! i) = None"
  shows "owner_inv (moved i x n ((pool p)\<lparr>sessions := sessions (pool p) @ [s]\<rparr>) p)" (is "owner_inv ?p")
proof -
  let ?l = "length (sessions (pool p))"
  have zero: "claims_of ?l (callers p) = 0"
    using inv by (auto simp: claims_of_def owner_inv_def caller_in_def)
  have "owners k ?p \<le> 1" if "k < Suc ?l" for k
  proof (cases "k = ?l")
    case True
    have "?l \<notin> idle_ids (pool p)" "?l \<notin> set (returning p)" using inv by (auto simp: owner_inv_def pool_inv_def)
    with True zero claims_of_update [OF i, of k x] \<open>load s = 0\<close> old show ?thesis
      by (simp add: owners_def moved_def)
  next
    case False
    with that have k: "k < ?l" by simp
    then have "owners k ?p = owners k p"
      using claims_of_update [OF i, of k x] x(1) old by (auto simp: owners_def moved_def nth_append)
    with inv k show ?thesis by (simp add: owner_inv_def)
  qed
  moreover have "caller_in (pool p) y \<Longrightarrow> caller_in (pool ?p) y" for y
    by (fastforce simp: caller_in_def moved_def nth_append)
  moreover have "caller_in (pool ?p) x" using x by (auto simp: caller_in_def moved_def)
  moreover have "apart ((callers p)[i := x])" using inv x(2) by (auto simp: owner_inv_def intro: apart_update)
  ultimately show ?thesis
    using inv by (auto simp: owner_inv_def moved_def pool_inv_def less_SucI dest!: set_update_subset_insert [THEN subsetD])
qed

lemma run_fresh: "load (snd (run order v now (set_idle_sender (new_client sid pf age t)))) = 0"
  by (auto simp: load_def run_def write_control_def enqueue_frame_def enqueue_encoded_with_mode_def set_idle_sender_def
      new_client_def session_new_def split: sum.splits)

lemma started_fields [simp]:
  "claims (caller_started r k c) = None \<or> claims (caller_started r k c) = Some k"
  "holds (caller_started r k c) = None" "valid_caller (caller_started r k c)"
  by (auto simp: caller_started_def split: sum.splits)

lemma owner_inv_received:
  assumes inv: "owner_inv p" and k: "k < length (sessions (pool p))" and pos: "0 < idle_notices (sessions (pool p) ! k)"
    and r: "idle_received now k (pool p) = (go_on, c)"
  shows "owner_inv (p\<lparr>pool := c, returning := (if go_on then returning p @ [k] else returning p)\<rparr>)"
proof -
  let ?c = "update_session k (\<lambda>s. s\<lparr>idle_notices := idle_notices s - 1\<rparr>) (pool p)"
  have pool: "pool_inv (pool p)" using inv by (simp add: owner_inv_def)
  have g: "gentle (pool p) ?c" using pool k by (intro gentle_update) (simp_all add: eases_def load_def)
  show ?thesis
  proof (cases go_on)
    case False
    have "gentle ?c (update_session k shutdown ?c)" using pool k by (intro gentle_update) simp_all
    with g False r have "gentle (pool p) c"
      by (auto simp: idle_received_def Let_def split: if_splits intro: gentle_trans)
    with owner_inv_gentle [OF inv] False show ?thesis by simp
  next
    case True
    with r have c: "c = ?c" by (auto simp: idle_received_def Let_def split: if_splits)
    have "owners j (p\<lparr>pool := c, returning := returning p @ [k]\<rparr>) = owners j p" for j
      using pos k by (auto simp: owners_def c sessions_update load_def)
    with owner_inv_gentle [OF inv g] True inv k show ?thesis by (auto simp: owner_inv_def c)
  qed
qed

lemma count_list_remove1: "x \<in> set xs \<Longrightarrow> count_list xs y = count_list (remove1 x xs) y + of_bool (x = y)"
  by (induction xs) auto

lemma owner_inv_pooled:
  assumes inv: "owner_inv p" and k: "k \<in> set (returning p)"
  shows "owner_inv (p\<lparr>pool := idle_pooled now k (pool p), returning := remove1 k (returning p)\<rparr>)" (is "owner_inv ?p")
proof -
  have pool: "pool_inv (pool p)" "k < length (sessions (pool p))" using inv k by (simp_all add: owner_inv_def)
  note c = count_list_remove1 [OF k]
  have own: "owners j ?p \<le> owners j p" for j
    using c [of j] pool(2) shutdown_eases [of "sessions (pool p) ! k"]
    by (auto simp: owners_def idle_pooled_def sessions_update eases_def)
  have "owners j ?p \<le> 1" if "j < length (sessions (pool p))" for j
    using order_trans [OF own] inv that by (simp add: owner_inv_def)
  moreover have "length (sessions (pool ?p)) = length (sessions (pool p))" by (simp add: idle_pooled_def)
  moreover have "caller_in (pool p) x \<Longrightarrow> caller_in (pool ?p) x" for x
    using pool(2) shutdown_eases [of "sessions (pool p) ! k"]
    by (auto simp: caller_in_def idle_pooled_def sessions_update eases_def)
  ultimately show ?thesis
    using inv idle_pooled_inv [OF pool] unfolding owner_inv_def
    by (auto dest: set_remove1_subset [THEN subsetD])
qed

lemma apart_called:
  assumes "apart xs"
  shows "apart (xs @ [Called])"
proof -
  have "i < length xs \<and> holds (xs ! i) = Some h"
    if "i < length (xs @ [Called])" "holds ((xs @ [Called]) ! i) = Some h" for i h
    using that by (cases "i = length xs") (auto simp: nth_append)
  then show ?thesis unfolding apart_def using apartD [OF assms] by blast
qed

lemma owner_inv_quiet:
  assumes "owner_inv p" and "i < length (callers p)" and "gentle (pool p) c"
    and "claims x = None \<or> claims x = claims (callers p ! i)" and "holds x = None \<or> holds x = holds (callers p ! i)"
    and "valid_caller x"
  shows "owner_inv (moved i x n c p)"
proof (rule owner_inv_moved [OF assms(1,2)])
  have "caller_in (pool p) (callers p ! i)" using assms(1,2) by (simp add: owner_inv_def)
  then show "fair (callers p ! i) (pool p) x c" using assms(3-6) by (intro gentle_fair) simp_all
qed

lemma owner_inv_dial:
  assumes inv: "owner_inv p" and i: "i < length (callers p)" "callers p ! i = Dialling"
    and create: "create_session order v now outcome (pool p) = (r, c)"
    and x: "x = (case r of Inl e \<Rightarrow> Refused e | Inr (k, None) \<Rightarrow> Running k | Inr (k, Some result) \<Rightarrow> caller_started result k c)"
  shows "owner_inv (moved i x n c p)"
proof (cases outcome)
  case (Inl e)
  with create x have "c = pool p" "x = Refused e" by (auto simp: create_session_def)
  with owner_inv_quiet [OF inv i(1) gentle_refl] inv show ?thesis by (simp add: owner_inv_def)
next
  case (Inr u)
  define s where "s = run order v now (set_idle_sender (new_client (length (sessions (pool p))) (pool_padding (pool p))
    (max_session_age (pool p)) now))"
  have c: "c = (pool p)\<lparr>sessions := sessions (pool p) @ [snd s]\<rparr>" "r = Inr (length (sessions (pool p)), fst s)"
    using create Inr by (auto simp: create_session_def s_def Let_def split: prod.splits)
  then have "claims x = None \<or> claims x = Some (length (sessions (pool p)))" "holds x = None" "valid_caller x"
    using x by (auto split: option.splits)
  moreover have "claims (callers p ! i) = None" using i(2) by simp
  ultimately show ?thesis unfolding c(1) using owner_inv_dialled [OF inv i(1)] run_fresh s_def by simp
qed

lemma owner_inv_opened:
  assumes inv: "owner_inv p" and i: "i < length (callers p)" "callers p ! i = Opening k sid j"
    and ret: "op_returns now (OpenReserved sid) result (sessions (pool p) ! k) s"
    and op: "caller_opened result k sid j (update_session k (\<lambda>_. s) (pool p)) = (x, c)"
  shows "owner_inv (moved i x n c p)"
proof -
  let ?c = "update_session k (\<lambda>_. s) (pool p)"
  have "caller_in (pool p) (callers p ! i)" using inv i(1) by (simp add: owner_inv_def)
  with i(2) have k: "k < length (sessions (pool p))" by (simp add: caller_in_def)
  have pool: "pool_inv (pool p)" using inv by (simp add: owner_inv_def)
  have "gentle (pool p) ?c" using ret pool k by (auto intro!: gentle_update dest: op_returns_eases)
  moreover have x: "gentle ?c c \<and> claims x = None \<and> (holds x = None \<or> holds x = Some (k, j)) \<and> valid_caller x"
    using opened_gentle [OF _ _ op] pool k by simp
  ultimately have "gentle (pool p) c" using gentle_trans by blast
  with owner_inv_quiet [OF inv i(1)] x i(2) show ?thesis by simp
qed

lemma owner_inv_started:
  assumes inv: "owner_inv p" and i: "i < length (callers p)" "callers p ! i = Running k"
    and "op_returns now RunSession result (sessions (pool p) ! k) s"
  defines "c \<equiv> update_session k (\<lambda>_. s) (pool p)"
  shows "owner_inv (moved i (caller_started result k c) n c p)"
proof -
  have "caller_in (pool p) (callers p ! i)" using inv i(1) by (simp add: owner_inv_def)
  with i(2) have "k < length (sessions (pool p))" by (simp add: caller_in_def)
  with assms(4) inv have "gentle (pool p) c"
    unfolding c_def by (auto simp: owner_inv_def intro!: gentle_update dest: op_returns_eases)
  with owner_inv_quiet [OF inv i(1)] i(2) show ?thesis by simp
qed

lemma owner_step:
  assumes "pool_step digest order v p p'" and inv: "owner_inv p"
  shows "owner_inv p'"
proof -
  have pool: "pool_inv (pool p)" using inv by (simp add: owner_inv_def)
  note quiet = owner_inv_quiet [OF inv _ gentle_refl [OF pool]] and client = owner_inv_gentle [OF inv]
  from assms(1) show ?thesis
  proof cases
    case pool_call
    have "owners k (p\<lparr>callers := callers p @ [Called]\<rparr>) = owners k p" for k by (simp add: owners_def claims_of_def)
    with inv pool_call show ?thesis by (simp add: owner_inv_def caller_in_def apart_called)
  next
    case (pool_move i now x n c)
    then have "fair (callers p ! i) (pool p) x c" using caller_moves_fair [OF pool] inv by (simp add: owner_inv_def)
    with owner_inv_moved [OF inv] pool_move show ?thesis by simp
  next
    case (pool_session k s)
    then have "gentle (pool p) (update_session k (\<lambda>_. s) (pool p))"
      using pool by (auto intro!: gentle_update session_step_eases)
    with client pool_session(1) show ?thesis by simp
  next
    case (pool_idle_received k now go_on c)
    with owner_inv_received [OF inv] show ?thesis by simp
  next
    case pool_cancel
    have "gentle (pool p) ((pool p)\<lparr>client_closed := True\<rparr>)" using pool by (simp add: gentle_def pool_inv_def)
    with client pool_cancel show ?thesis by simp
  next
    case (pool_close_session k)
    then have "gentle (pool p) (client_close_session k (pool p))"
      using pool by (auto simp: client_close_session_def intro: gentle_update gentle_refl)
    with client pool_close_session(1) show ?thesis by simp
  qed (auto intro: quiet client owner_inv_dial [OF inv] owner_inv_opened [OF inv] owner_inv_started [OF inv]
      owner_inv_pooled [OF inv] cleanup_gentle [OF pool] client_shutdown_gentle [OF pool])
qed

end
