(* ===== verification/Session_Runs.thy ===== *)
theory Session_Runs
  imports Session_System
begin

text \<open>
  Runs of a session: a scheduler that executes a given sequence of moves, every one of them a step
  of the session, and the facts by which such runs are evaluated.
\<close>

section \<open>A scheduler\<close>

datatype move =
    Run
  | Take
  | Finish
  | Permit
  | Answer
  | Reserve u32
  | Open u32
  | Send u32 "byte list"
  | SendEnd u32
  | PumpTakes nat
  | PumpWrites nat

text \<open>The oldest suspended operation that can go on.\<close>

fun first_permit :: "task list \<Rightarrow> session \<Rightarrow> session option" where
  "first_permit [] s = None"
| "first_permit (AwaitPermit q bs d dl k # ts) s = permit_granted q bs d k (drop_task (AwaitPermit q bs d dl k) s)"
| "first_permit (_ # ts) s = first_permit ts s"

fun first_answer :: "task list \<Rightarrow> session \<Rightarrow> session option" where
  "first_answer [] s = None"
| "first_answer (AwaitResult i k # ts) s =
     (case map_of (completions s) i of
        Some r \<Rightarrow> Some (snd (resume 0 k r (forget_completion i (drop_task (AwaitResult i k) s))))
      | None \<Rightarrow> first_answer ts s)"
| "first_answer (_ # ts) s = first_answer ts s"

fun exec_move :: "move \<Rightarrow> session \<Rightarrow> session option" where
  "exec_move Run s = Some (snd (run id [] 0 s))"
| "exec_move Take s = writer_take s"
| "exec_move Finish s = writer_finish (Inr ()) s"
| "exec_move Permit s = first_permit (tasks s) s"
| "exec_move Answer s = first_answer (tasks s) s"
| "exec_move (Reserve sid) s =
     (if is_client s \<and> \<not> reader_present s \<and> sid \<noteq> 0 then Some (snd (reserve_locked 0 sid s)) else None)"
| "exec_move (Open sid) s =
     (if \<not> reader_present s \<and> sid \<noteq> 0 then Some (snd (open_reserved_stream 0 sid s)) else None)"
| "exec_move (Send sid bs) s = (if sid \<noteq> 0 then Some (snd (write_data sid bs s)) else None)"
| "exec_move (SendEnd sid) s = (if sid \<noteq> 0 then Some (snd (send_fin_by_id sid ShutdownWrite s)) else None)"
| "exec_move (PumpTakes i) s = pump_recv 0 i s"
| "exec_move (PumpWrites i) s = pump_written i s"

fun exec_moves :: "move list \<Rightarrow> session \<Rightarrow> session option" where
  "exec_moves [] s = Some s"
| "exec_moves (m # ms) s = Option.bind (exec_move m s) (exec_moves ms)"

lemma first_permit_step:
  "first_permit ts s = Some s' \<Longrightarrow> set ts \<subseteq> set (tasks s) \<Longrightarrow> local_step order v s s'"
  by (induction ts s rule: first_permit.induct) (auto intro: step_permit_granted)

lemma first_answer_step:
  "first_answer ts s = Some s' \<Longrightarrow> set ts \<subseteq> set (tasks s) \<Longrightarrow> local_step order v s s'"
proof (induction ts s rule: first_answer.induct)
  case (2 i k ts s)
  then show ?case
    by (auto simp: request_answer_def split: option.splits dest: map_of_SomeD intro!: step_answered [of i k s])
qed auto

lemma exec_move_step: "exec_move m s = Some s' \<Longrightarrow> local_step id [] s s'"
proof (cases m)
  case Permit
  then show "exec_move m s = Some s' \<Longrightarrow> ?thesis" using first_permit_step [of "tasks s" s s'] by simp
next
  case Answer
  then show "exec_move m s = Some s' \<Longrightarrow> ?thesis" using first_answer_step [of "tasks s" s s'] by simp
qed (auto split: if_splits intro: local_step.intros step_run [OF surjective_pairing]
    step_reserve [OF _ _ _ surjective_pairing] step_open [OF _ _ surjective_pairing] step_write [OF _ surjective_pairing]
    step_send_fin [OF _ surjective_pairing])

lemma exec_moves_steps: "exec_moves ms s = Some s' \<Longrightarrow> (session_step digest id [])\<^sup>*\<^sup>* s s'"
  by (induction ms arbitrary: s)
    (auto simp: bind_eq_Some_conv dest: exec_move_step intro: session_local converse_rtranclp_into_rtranclp)

section \<open>Evaluation\<close>

lemma numbers_eval: "nat_to_string 1 = ''1''" "nat_to_string 2 = ''2''" "nat_to_string (Suc 0) = ''1''"
    "parse_usize ''1'' = Some 1" "parse_usize ''2'' = Some 2" "parse_u8 ''2'' = Some 2"
  by (simp_all add: nat_to_string.simps digit_char_def parse_usize_def parse_u8_def parse_unsigned_def digit_val_def
      char_of_def bit_Suc_0_iff)

lemmas move_eval = writer_take_def writer_finish_def resume_def forget_completion_def open_reserved_stream_rest_def is_ok_def
  write_control_def new_server_def new_client_def session_new_def run_def run_rest_def
  frame_new_def push_request_def update_pump_def
  stream_state_new_def stream_active_def is_expired_def pump_new_def pump_recv_def pump_written_def
  encode_def to_be_bytes32_def to_be_bytes16_def
  WRITE_QUEUE_CAPACITY_def INBOUND_PUSH_QUEUE_BYTES_def INBOUND_PUSH_QUEUE_MESSAGES_def
  MAX_FRAME_DATA_SIZE_def reserve_locked_def open_reserved_stream_def enqueue_frame_def enqueue_encoded_with_mode_def
  permit_granted_def drop_task_def queue_of_def Let_def write_data_def enqueue_bytes_def send_fin_by_id_def enqueue_fin_def
  on_stream_read_closed_def finish_stream_if_closed_def remove_stream_by_id_def cancel_stream_def set_stream_def
  send_fin_rest_def shutdown_def client_settings_def server_settings_def PROGRAM_VERSION_NAME_def to_bytes_def as_bytes_def
  numbers_eval set_peer_session_id_def

end
