(* ===== verification/Pool_Runs.thy ===== *)
theory Pool_Runs
  imports Pool_Tasks Session_Runs
begin

text \<open>
  Runs of the pool: a scheduler that executes a given sequence of turns, every one of them a step of
  the pool, a run in which two calls are made and the first of them gets its stream, and the calls
  that nobody interrupts.
\<close>

datatype pool_turn =
    Call
  | Moves nat
  | Dials nat
  | RunReturns nat
  | OpenReturns nat
  | SessionMoves nat move
  | NoticeOf nat
  | ReturnOf nat

text \<open>The result of a suspended operation whose request has been answered.\<close>

fun returned :: "continuation \<Rightarrow> task list \<Rightarrow> session \<Rightarrow> (unit io_result \<times> session) option" where
  "returned k [] s = None"
| "returned k (AwaitResult i k' # ts) s =
     (if k' = k
      then (case map_of (completions s) i of
              Some r \<Rightarrow> Some (resume 0 k r (forget_completion i (drop_task (AwaitResult i k) s)))
            | None \<Rightarrow> returned k ts s)
      else returned k ts s)"
| "returned k (_ # ts) s = returned k ts s"

fun exec_pool_turn :: "pool_turn \<Rightarrow> pool_system \<Rightarrow> pool_system option" where
  "exec_pool_turn Call p = Some (p\<lparr>callers := callers p @ [Called]\<rparr>)"
| "exec_pool_turn (Moves i) p =
     (if i < length (callers p)
      then (case caller_moves 0 (callers p ! i) (counter p) (pool p) of
              Some (x, n, c) \<Rightarrow> Some (moved i x n c p)
            | None \<Rightarrow> None)
      else None)"
| "exec_pool_turn (Dials i) p =
     (if i < length (callers p) \<and> callers p ! i = Dialling
      then (case create_session id [] 0 (Inr ()) (pool p) of
              (Inr (k, None), c) \<Rightarrow> Some (moved i (Running k) (counter p) c p)
            | _ \<Rightarrow> None)
      else None)"
| "exec_pool_turn (RunReturns i) p =
     (if i < length (callers p)
      then (case callers p ! i of
              Running k \<Rightarrow>
                (case returned RunSession (tasks (sessions (pool p) ! k)) (sessions (pool p) ! k) of
                   Some (result, s) \<Rightarrow>
                     (let c = update_session k (\<lambda>_. s) (pool p)
                      in Some (moved i (caller_started result k c) (counter p) c p))
                 | None \<Rightarrow> None)
            | _ \<Rightarrow> None)
      else None)"
| "exec_pool_turn (OpenReturns i) p =
     (if i < length (callers p)
      then (case callers p ! i of
              Opening k sid j \<Rightarrow>
                (case returned (OpenReserved sid) (tasks (sessions (pool p) ! k)) (sessions (pool p) ! k) of
                   Some (result, s) \<Rightarrow>
                     (let (x, c) = caller_opened result k sid j (update_session k (\<lambda>_. s) (pool p))
                      in Some (moved i x (counter p) c p))
                 | None \<Rightarrow> None)
            | _ \<Rightarrow> None)
      else None)"
| "exec_pool_turn (SessionMoves k m) p =
     (if k < length (sessions (pool p))
      then (case exec_move m (sessions (pool p) ! k) of
              Some s \<Rightarrow>
                (if length (pumps s) = length (pumps (sessions (pool p) ! k)) \<and>
                    idle_notices (sessions (pool p) ! k) \<le> idle_notices s
                 then Some (p\<lparr>pool := update_session k (\<lambda>_. s) (pool p)\<rparr>) else None)
            | None \<Rightarrow> None)
      else None)"
| "exec_pool_turn (NoticeOf k) p =
     (if k < length (sessions (pool p)) \<and> 0 < idle_notices (sessions (pool p) ! k)
      then (let (go_on, c) = idle_received 0 k (pool p)
            in Some (p\<lparr>pool := c, returning := (if go_on then returning p @ [k] else returning p)\<rparr>))
      else None)"
| "exec_pool_turn (ReturnOf k) p =
     (if k \<in> set (returning p)
      then Some (p\<lparr>pool := idle_pooled 0 k (pool p), returning := remove1 k (returning p)\<rparr>)
      else None)"

fun exec_pool_turns :: "pool_turn list \<Rightarrow> pool_system \<Rightarrow> pool_system option" where
  "exec_pool_turns [] p = Some p"
| "exec_pool_turns (t # ts) p = Option.bind (exec_pool_turn t p) (exec_pool_turns ts)"

lemma returned_returns:
  "returned k ts s = Some (result, s') \<Longrightarrow> set ts \<subseteq> set (tasks s) \<Longrightarrow> op_returns 0 k result s s'"
proof (induction k ts s rule: returned.induct)
  case (2 k i k' ts s)
  then show ?case
    by (auto simp: request_answer_def split: if_splits option.splits dest: map_of_SomeD intro!: returns_answered [of i k s])
qed auto

lemma exec_pool_turn_step: "exec_pool_turn t p = Some p' \<Longrightarrow> pool_step digest id [] p p'"
proof (cases t)
  case (Dials i)
  then show "exec_pool_turn t p = Some p' \<Longrightarrow> ?thesis"
    by (auto split: if_splits sum.splits prod.splits option.splits intro!: pool_dial)
next
  case (RunReturns i)
  then show "exec_pool_turn t p = Some p' \<Longrightarrow> ?thesis"
    by (auto simp: Let_def split: if_splits caller.splits option.splits
        intro!: pool_started [OF _ _ returned_returns [OF _ subset_refl] refl refl])
next
  case (OpenReturns i)
  then show "exec_pool_turn t p = Some p' \<Longrightarrow> ?thesis"
    by (auto split: if_splits caller.splits option.splits prod.splits
        intro!: pool_opened [OF _ _ returned_returns [OF _ subset_refl]])
next
  case (SessionMoves k m)
  then show "exec_pool_turn t p = Some p' \<Longrightarrow> ?thesis"
    by (auto split: if_splits option.splits intro!: pool_session session_local exec_move_step)
next
  case (NoticeOf k)
  then show "exec_pool_turn t p = Some p' \<Longrightarrow> ?thesis"
    using pool_idle_received [of k p 0 _ _ digest id "[]"] by (auto split: if_splits prod.splits)
qed (auto split: if_splits option.splits intro: pool_step.intros)

lemma exec_pool_turns_steps: "exec_pool_turns ts p = Some p' \<Longrightarrow> (pool_step digest id [])\<^sup>*\<^sup>* p p'"
  by (induction ts arbitrary: p)
    (auto simp: bind_eq_Some_conv dest: exec_pool_turn_step intro: converse_rtranclp_into_rtranclp)

section \<open>A run\<close>

text \<open>The first call dials and gets stream 1 of session 0; the second one dials session 1.\<close>

definition granting_turns :: "pool_turn list" where
  "granting_turns =
     [Call, Moves 0, Moves 0, Dials 0, SessionMoves 0 Permit, SessionMoves 0 Take, SessionMoves 0 Finish, RunReturns 0,
      Moves 0, Moves 0, Moves 0, SessionMoves 0 Permit, SessionMoves 0 Take, SessionMoves 0 Finish, OpenReturns 0]"

definition second_turns :: "pool_turn list" where
  "second_turns = [Call, Moves 1, Moves 1, Dials 1]"

lemma session_names: "nat_to_string 0 = ''0''"
  by (simp add: nat_to_string.simps digit_char_def char_of_def bit_Suc_0_iff)

lemmas pool_eval = move_eval pool_start_def client_new_def ensure_running_def take_idle.simps create_session_def
  set_idle_sender_def moved_def update_session_def caller_started_def caller_opened_def create_stream_opened_def
  allocate_stream_id_eq sample_pf_def session_names

lemma granting_run: "\<exists>p. exec_pool_turns (granting_turns @ second_turns) (pool_start sample_pf 0 0) = Some p \<and>
   callers p = [Granted 0 1 0, Running 1] \<and> length (sessions (pool p)) = 2"
  by (simp add: granting_turns_def second_turns_def pool_eval)

section \<open>A call without interruption\<close>

text \<open>The moves of one caller while nobody else moves, \<open>m\<close> of them at most.\<close>

fun caller_runs :: "nat \<Rightarrow> nat \<Rightarrow> caller \<Rightarrow> u32 \<Rightarrow> client \<Rightarrow> caller \<times> u32 \<times> client" where
  "caller_runs now 0 x n c = (x, n, c)"
| "caller_runs now (Suc m) x n c =
     (case caller_moves now x n c of
        None \<Rightarrow> (x, n, c)
      | Some (x', n', c') \<Rightarrow> caller_runs now m x' n' c')"

lemma open_suspends: "\<exists>s'. open_reserved_stream now sid s = (None, s')"
  by (simp add: open_reserved_stream_def enqueue_frame_def encode_def frame_new_def MAX_FRAME_DATA_SIZE_def)

lemma update_session_same [simp]: "update_session k (\<lambda>_. sessions c ! k) c = c"
  by (simp add: update_session_def)

lemma update_session_twice [simp]: "update_session k (\<lambda>_. s) (update_session k f c) = update_session k (\<lambda>_. s) c"
  by (simp add: update_session_def)

text \<open>The result of a call up to the dial or to the wait for its SYN.\<close>

definition call_result :: "(nat \<times> u32) option io_result \<Rightarrow> caller \<Rightarrow> bool" where
  "call_result r x \<longleftrightarrow>
     (case r of
        Inl e \<Rightarrow> x = Refused e
      | Inr None \<Rightarrow> x = Dialling
      | Inr (Some (k, sid)) \<Rightarrow> \<exists>i. x = Opening k sid i)"

lemma taken_call:
  assumes "k < length (sessions c)"
  shows "\<exists>x n' c' r. caller_runs now 3 (Taken k True) n c = (x, n', c') \<and> call_result r x \<and>
    (let (r0, next, s) = reserve_stream now n (sessions c ! k); c2 = update_session k (\<lambda>_. s) c
     in (case r0 of
           Inr sid \<Rightarrow> (Inr (Some (k, sid)), next, update_session k (\<lambda>s. snd (open_reserved_stream now sid s)) c2)
         | Inl e \<Rightarrow> (if e \<in> {WouldBlock, BrokenPipe, TimedOut} then (Inr None, next, c2) else (Inl e, next, c2)))) = (r, n', c')"
proof (cases "closed (sessions c ! k)")
  case True
  then show ?thesis by (simp add: reserve_stream_def call_result_def numeral_3_eq_3 refusal_def)
next
  case False
  obtain sid n' where a: "allocate_stream_id n = (sid, n')" by fastforce
  obtain r s where res: "reserve_locked now sid (sessions c ! k) = (r, s)" by fastforce
  obtain s' where op: "open_reserved_stream now sid s = (None, s')" using open_suspends by blast
  show ?thesis
  proof (cases r)
    case (Inl e)
    with False a res show ?thesis by (simp add: reserve_stream_def call_result_def numeral_3_eq_3 refusal_def)
  next
    case (Inr sid')
    with res have "sid' = sid" by (auto simp: reserve_locked_def split: if_splits prod.splits)
    with False a res op Inr assms show ?thesis
      by (simp add: reserve_stream_def call_result_def numeral_3_eq_3 sessions_update update_session_def)
  qed
qed

text \<open>A call that nobody interrupts does what \<open>create_stream_pooled\<close> says: the moves of a caller are
  \<^verbatim>\<open>create_stream\<close> cut into pieces.\<close>

theorem uninterrupted_call:
  assumes "pool_inv c"
  shows "\<exists>x n' c' r. caller_runs now 5 Called n c = (x, n', c') \<and> create_stream_pooled now n c = (r, n', c') \<and> call_result r x"
proof (cases "client_closed c")
  case True
  then show ?thesis
    by (simp add: create_stream_pooled_def ensure_running_def call_result_def eval_nat_numeral)
next
  case False
  obtain t c1 where take: "take_idle now c = (t, c1)" by fastforce
  show ?thesis
  proof (cases t)
    case None
    with False take show ?thesis
      by (simp add: create_stream_pooled_def reserve_pooled_stream_def ensure_running_def call_result_def eval_nat_numeral)
  next
    case (Some k)
    then have "k < length (sessions c1)"
      using take_idle_taken [OF assms take] assms by (auto simp: taken_def pool_inv_def)
    from taken_call [OF this, of now n] False take Some show ?thesis
      by (auto simp: create_stream_pooled_def reserve_pooled_stream_def ensure_running_def eval_nat_numeral Let_def
          split: prod.splits sum.splits if_splits)
  qed
qed

end
