(* ===== verification/Writer.thy ===== *)
theory Writer
  imports Padding Frame
begin

text \<open>
  The transport writer of a session (\<^verbatim>\<open>struct Writer\<close> in \<^verbatim>\<open>src/runtime/session.rs\<close>) and
  the handling of one write request by the writer task: buffering until the first SYN, the
  packet counter, and the splitting and padding of a write by the padding scheme. The
  transport is a \<open>sink\<close>, whose script says which operations fail.
\<close>

record writer =
  transport :: sink
  buffering :: bool
  buffered :: "byte list"
  send_padding :: bool
  packet_counter :: u32

definition writer_new :: "sink \<Rightarrow> bool \<Rightarrow> writer" where
  "writer_new k is_client =
     \<lparr>transport = k, buffering = is_client, buffered = [], send_padding = True, packet_counter = 0\<rparr>"

text \<open>The \<^verbatim>\<open>as usize\<close> cast of an \<^verbatim>\<open>i32\<close> on a 64-bit target.\<close>

definition as_usize :: "int \<Rightarrow> nat" where
  "as_usize n = nat (n mod 2 ^ 64)"

text \<open>An encoded empty Waste frame with its length field overwritten, resized with zeros.\<close>

definition waste_frame :: "nat \<Rightarrow> byte list io_result" where
  "waste_frame n =
     io_bind (encode (frame_new Waste 0)) (\<lambda>w.
       Inr (take 5 w @ to_be_bytes16 (of_nat n) @ drop 7 w @ replicate n 0))"

fun write_records :: "int list \<Rightarrow> byte list \<Rightarrow> sink \<Rightarrow> byte list io_result \<times> sink" where
  "write_records [] bytes k = (Inr bytes, k)"
| "write_records (sz # sizes) bytes k =
     (if sz = CHECK_MARK then
        (if bytes = [] then (Inr bytes, k) else write_records sizes bytes k)
      else
        let n = as_usize sz
        in if length bytes > n then
             (case write_all (take n bytes) k of
                (Inl e, k') \<Rightarrow> (Inl e, k')
              | (Inr _, k') \<Rightarrow> write_records sizes (drop n bytes) k')
           else if bytes \<noteq> [] then
             (let padding_len = n - (length bytes + HEADER_OVERHEAD_SIZE)
              in case (if padding_len > 0
                       then io_bind (waste_frame padding_len) (\<lambda>w. Inr (bytes @ w))
                       else Inr bytes) of
                   Inl e \<Rightarrow> (Inl e, k)
                 | Inr out \<Rightarrow>
                     (case write_all out k of
                        (Inl e, k') \<Rightarrow> (Inl e, k')
                      | (Inr _, k') \<Rightarrow> write_records sizes [] k'))
           else
             (case waste_frame n of
                Inl e \<Rightarrow> (Inl e, k)
              | Inr w \<Rightarrow>
                  (case write_all w k of
                     (Inl e, k') \<Rightarrow> (Inl e, k')
                   | (Inr _, k') \<Rightarrow> write_records sizes bytes k')))"

text \<open>The end of \<^verbatim>\<open>write_conn\<close>: what the records left over goes out at once, then a flush.\<close>

definition write_rest :: "byte list \<Rightarrow> sink \<Rightarrow> nat io_result \<times> sink" where
  "write_rest bytes k =
     (case (if bytes \<noteq> [] then write_all bytes k else (Inr (), k)) of
        (Inl e, k1) \<Rightarrow> (Inl e, k1)
      | (Inr _, k1) \<Rightarrow>
          (case flush k1 of
             (Inl e, k2) \<Rightarrow> (Inl e, k2)
           | (Inr _, k2) \<Rightarrow> (Inr (length bytes), k2)))"

definition write_conn ::
    "'g rng \<Rightarrow> padding_factory \<Rightarrow> byte list \<Rightarrow> 'g \<Rightarrow> writer \<Rightarrow> nat io_result \<times> writer \<times> 'g" where
  "write_conn rng padding bytes g w =
     (if buffering w then (Inr (length bytes), w\<lparr>buffered := buffered w @ bytes\<rparr>, g)
      else
        let bs = (if buffered w \<noteq> [] then buffered w @ bytes else bytes);
            w1 = w\<lparr>buffered := []\<rparr>
        in if send_padding w1 then
             (let counter = packet_counter w1 + 1;
                  w2 = w1\<lparr>packet_counter := counter\<rparr>
              in if counter < stop padding then
                   (let (sizes, g') = generate_record_payload_sizes rng padding counter g
                    in case write_records sizes bs (transport w2) of
                         (Inl e, k) \<Rightarrow> (Inl e, w2\<lparr>transport := k\<rparr>, g')
                       | (Inr rest, k) \<Rightarrow>
                           (let (r, k') = write_rest rest k in (r, w2\<lparr>transport := k'\<rparr>, g')))
                 else
                   (let (r, k') = write_rest bs (transport w2)
                    in (r, w2\<lparr>send_padding := False, transport := k'\<rparr>, g)))
           else
             (let (r, k') = write_rest bs (transport w1) in (r, w1\<lparr>transport := k'\<rparr>, g)))"

text \<open>One request of the writer task: the write, and on the first SYN the end of buffering.\<close>

definition write_request_bytes ::
    "'g rng \<Rightarrow> padding_factory \<Rightarrow> byte list \<Rightarrow> bool \<Rightarrow> 'g \<Rightarrow> writer \<Rightarrow> unit io_result \<times> writer \<times> 'g" where
  "write_request_bytes rng padding bytes disable_buffering_after g w =
     (case write_conn rng padding bytes g w of
        (Inl e, w1, g1) \<Rightarrow> (Inl e, w1, g1)
      | (Inr _, w1, g1) \<Rightarrow>
          (if disable_buffering_after then
             (let w2 = w1\<lparr>buffering := False\<rparr>
              in if buffered w2 \<noteq> [] then
                   (case write_conn rng padding [] g1 w2 of
                      (Inl e, w3, g3) \<Rightarrow> (Inl e, w3, g3)
                    | (Inr _, w3, g3) \<Rightarrow> (Inr (), w3, g3))
                 else (Inr (), w2, g1))
           else (Inr (), w1, g1)))"

section \<open>Waste frames\<close>

definition waste :: "nat \<Rightarrow> frame" where
  "waste n = \<lparr>command = Waste, stream_id = 0, data = replicate n 0\<rparr>"

definition waste_bytes :: "nat \<Rightarrow> byte list" where
  "waste_bytes n = [0, 0, 0, 0, 0] @ to_be_bytes16 (of_nat n) @ replicate n 0"

lemma waste_frame_eq: "waste_frame n = Inr (waste_bytes n)"
  by (simp add: waste_frame_def waste_bytes_def encode_def frame_new_def to_be_bytes32_def
      to_be_bytes16_def)

lemma encode_waste: "n \<le> MAX_FRAME_DATA_SIZE \<Longrightarrow> encode (waste n) = Inr (waste_bytes n)"
  by (simp add: encode_def waste_def waste_bytes_def to_be_bytes32_def)

lemma length_waste_bytes [simp]: "length (waste_bytes n) = HEADER_OVERHEAD_SIZE + n"
  by (simp add: waste_bytes_def HEADER_OVERHEAD_SIZE_def)

lemma encode_all_wastes:
  "\<forall>n\<in>set ns. n \<le> MAX_FRAME_DATA_SIZE \<Longrightarrow>
   encode_all encode (map waste ns) = Inr (concat (map waste_bytes ns))"
  by (induction ns) (simp_all add: encode_waste)

section \<open>What a write puts on the wire\<close>

text \<open>Sizes for which the 16-bit length field of a Waste frame is exact.\<close>

definition sizes_safe :: "int list \<Rightarrow> bool" where
  "sizes_safe sizes \<longleftrightarrow> (\<forall>s\<in>set sizes. s = CHECK_MARK \<or> (0 \<le> s \<and> s \<le> int MAX_FRAME_DATA_SIZE))"

lemma as_usize_safe: "0 \<le> s \<Longrightarrow> s \<le> int MAX_FRAME_DATA_SIZE \<Longrightarrow> as_usize s = nat s"
  by (simp add: as_usize_def MAX_FRAME_DATA_SIZE_def)

definition wastes :: "nat list \<Rightarrow> byte list" where
  "wastes ns = concat (map waste_bytes ns)"

definition lens_ok :: "nat list \<Rightarrow> bool" where
  "lens_ok ns \<longleftrightarrow> (\<forall>n\<in>set ns. n \<le> MAX_FRAME_DATA_SIZE)"

lemma wastes_simps [simp]:
  "wastes [] = []" "wastes (n # ns) = waste_bytes n @ wastes ns" "wastes (ms @ ns) = wastes ms @ wastes ns"
  by (simp_all add: wastes_def)

lemma lens_ok_simps [simp]:
  "lens_ok []" "lens_ok (n # ns) \<longleftrightarrow> n \<le> MAX_FRAME_DATA_SIZE \<and> lens_ok ns"
  "lens_ok (ms @ ns) \<longleftrightarrow> lens_ok ms \<and> lens_ok ns"
  by (auto simp: lens_ok_def)

text \<open>
  What a write may leave behind: after a success the wire has grown by the data written so
  far and some Waste frames, which start only when no data is left; after a failure it has
  grown by a prefix of the data followed by Waste frames.
\<close>

definition wrote :: "byte list \<Rightarrow> byte list \<Rightarrow> byte list io_result \<times> sink \<Rightarrow> bool" where
  "wrote old bs res =
     (case res of
        (Inr rest, k') \<Rightarrow>
          suffix rest bs \<and>
          (\<exists>ns. lens_ok ns \<and> wire k' @ rest = old @ bs @ wastes ns \<and> (rest = [] \<or> ns = []))
      | (Inl _, k') \<Rightarrow> (\<exists>ns r. lens_ok ns \<and> wire k' @ r = old @ bs @ wastes ns))"

lemma wrote_nothing: "wrote (wire k) bs (Inr bs, k)"
  by (auto simp: wrote_def intro: exI [of _ "[]"])

lemma wrote_failed:
  assumes "write_all x k = (Inl e, k')" and "x @ y = bs @ wastes ns" and "lens_ok ns"
  shows "wrote (wire k) bs (Inl e, k')"
proof -
  obtain n where "written k' = written k @ [take n x]" using write_all_errD [OF assms(1)] by blast
  then have "wire k' @ drop n x @ y = wire k @ bs @ wastes ns"
    using assms(2) by simp (metis append_assoc append_take_drop_id)
  then show ?thesis using assms(3) by (auto simp: wrote_def)
qed

lemma wrote_step:
  assumes "write_all x k = (Inr (), k1)" and "x @ y = bs @ wastes ns" and "lens_ok ns"
    and "suffix y bs" and "y = [] \<or> ns = []" and "wrote (wire k1) y res"
  shows "wrote (wire k) bs res"
proof -
  have k1: "wire k1 = wire k @ x" using write_all_okD [OF assms(1)] by simp
  have xy: "x @ y @ z = bs @ wastes ns @ z" for z using assms(2) by (metis append_assoc)
  obtain r k' where res: "res = (r, k')" by (cases res)
  show ?thesis
  proof (cases r)
    case (Inl e)
    with assms(6) res obtain ms q where m: "lens_ok ms" "wire k' @ q = wire k1 @ y @ wastes ms"
      by (auto simp: wrote_def)
    have "wire k' @ q = wire k @ bs @ wastes (ns @ ms)"
      using m(2) k1 xy by simp
    then show ?thesis using Inl res m(1) assms(3) by (auto simp: wrote_def intro!: exI [of _ "ns @ ms"])
  next
    case (Inr rest)
    with assms(6) res obtain ms where m: "suffix rest y" "lens_ok ms"
      "wire k' @ rest = wire k1 @ y @ wastes ms" "rest = [] \<or> ms = []"
      by (auto simp: wrote_def)
    have "wire k' @ rest = wire k @ bs @ wastes (ns @ ms)"
      using m(3) k1 xy by simp
    moreover have "rest = [] \<or> ns @ ms = []" using m(1,4) assms(5) by (auto simp: suffix_def)
    ultimately show ?thesis
      using Inr res m(1,2) assms(3,4)
      by (auto simp: wrote_def intro!: exI [of _ "ns @ ms"] dest: suffix_order.trans)
  qed
qed

lemma wrote_write:
  assumes "x @ y = bs @ wastes ns" and "lens_ok ns" and "suffix y bs" and "y = [] \<or> ns = []"
    and "\<And>k1. wrote (wire k1) y (cont k1)"
  shows "wrote (wire k) bs (case write_all x k of (Inl e, k') \<Rightarrow> (Inl e, k') | (Inr _, k') \<Rightarrow> cont k')"
proof (cases "write_all x k")
  case (Pair r k1)
  show ?thesis
  proof (cases r)
    case (Inl e)
    with Pair assms(1,2) show ?thesis by (simp add: wrote_failed)
  next
    case (Inr u)
    with Pair assms show ?thesis by (simp add: wrote_step)
  qed
qed

lemma write_records_wrote:
  "sizes_safe sizes \<Longrightarrow> wrote (wire k) bs (write_records sizes bs k)"
proof (induction sizes arbitrary: bs k)
  case Nil
  show ?case by (simp add: wrote_nothing)
next
  case (Cons s sizes)
  then have IH: "wrote (wire k) bs (write_records sizes bs k)" for bs k
    by (simp add: sizes_safe_def)
  show ?case
  proof (cases "s = CHECK_MARK")
    case True
    with IH show ?thesis by (simp add: wrote_nothing)
  next
    case False
    with Cons.prems have s: "as_usize s \<le> MAX_FRAME_DATA_SIZE"
      by (auto simp: sizes_safe_def as_usize_safe)
    let ?n = "as_usize s"
    consider (split) "length bs > ?n" | (fill) "length bs \<le> ?n" "bs \<noteq> []" | (pad) "bs = []"
      by fastforce
    then show ?thesis
    proof cases
      case split
      have "wrote (wire k) bs (case write_all (take ?n bs) k of
          (Inl e, k') \<Rightarrow> (Inl e, k') | (Inr _, k') \<Rightarrow> write_records sizes (drop ?n bs) k')"
        using IH by (intro wrote_write [where ns = "[]" and y = "drop ?n bs"]) (auto simp: suffix_drop)
      with False split show ?thesis by (simp add: Let_def)
    next
      case fill
      let ?p = "?n - (length bs + HEADER_OVERHEAD_SIZE)"
      have "wrote (wire k) bs (case write_all (bs @ wastes (if ?p > 0 then [?p] else [])) k of
          (Inl e, k') \<Rightarrow> (Inl e, k') | (Inr _, k') \<Rightarrow> write_records sizes [] k')"
        using s IH by (intro wrote_write [where ns = "if ?p > 0 then [?p] else []" and y = "[]"]) auto
      with False fill show ?thesis by (auto simp: waste_frame_eq Let_def)
    next
      case pad
      have "wrote (wire k) [] (case write_all (waste_bytes ?n) k of
          (Inl e, k') \<Rightarrow> (Inl e, k') | (Inr _, k') \<Rightarrow> write_records sizes [] k')"
        using s IH by (intro wrote_write [where ns = "[?n]" and y = "[]"]) auto
      with False pad show ?thesis by (simp add: waste_frame_eq)
    qed
  qed
qed

text \<open>The whole write: success means everything is on the wire, in order, and flushed.\<close>

definition wrote_all :: "byte list \<Rightarrow> byte list \<Rightarrow> 'a io_result \<Rightarrow> sink \<Rightarrow> bool" where
  "wrote_all old bs r k' \<longleftrightarrow>
     (\<exists>ns. lens_ok ns \<and>
       (if is_ok r then wire k' = old @ bs @ wastes ns
        else \<exists>rest. wire k' @ rest = old @ bs @ wastes ns))"

lemma write_rest_wrote:
  assumes "wrote old bs (Inr rest, k)"
  shows "wrote_all old bs (fst (write_rest rest k)) (snd (write_rest rest k))"
proof -
  from assms obtain ns where ns: "lens_ok ns" "wire k @ rest = old @ bs @ wastes ns"
    by (auto simp: wrote_def)
  obtain r1 k1 where w: "(if rest \<noteq> [] then write_all rest k else (Inr (), k)) = (r1, k1)" by fastforce
  obtain r2 k2 where f: "flush k1 = (r2, k2)" by fastforce
  have k2: "written k2 = written k1" using f flush_written [of k1] by simp
  show ?thesis
  proof (cases r1)
    case (Inl e)
    with w have "write_all rest k = (Inl e, k1)" by (auto split: if_splits)
    then obtain n where "written k1 = written k @ [take n rest]"
      using write_all_errD by blast
    then have "wire k1 @ drop n rest = old @ bs @ wastes ns" using ns(2) by simp
    then show ?thesis using Inl w ns(1) by (auto simp: write_rest_def wrote_all_def)
  next
    case (Inr u)
    then have "wire k1 = wire k @ rest" using w write_all_okD by (auto split: if_splits)
    then show ?thesis
      using Inr w f k2 ns by (cases r2) (auto simp: write_rest_def wrote_all_def)
  qed
qed

definition factory_safe :: "'g rng \<Rightarrow> padding_factory \<Rightarrow> bool" where
  "factory_safe rng pf \<longleftrightarrow> (\<forall>packet g. sizes_safe (fst (generate_record_payload_sizes rng pf packet g)))"

lemma wrote_all_rest: "wrote_all (wire k) bs (fst (write_rest bs k)) (snd (write_rest bs k))"
  by (rule write_rest_wrote) (rule wrote_nothing)

lemma write_conn_unbuffered:
  assumes "factory_safe rng padding" and "\<not> buffering w"
    and "write_conn rng padding bytes g w = (r, w', g')"
  shows "wrote_all (wire (transport w)) (buffered w @ bytes) r (transport w') \<and> buffered w' = [] \<and> \<not> buffering w'"
proof -
  let ?bs = "buffered w @ bytes" and ?k = "transport w"
  have bs: "(if buffered w \<noteq> [] then buffered w @ bytes else bytes) = ?bs" by simp
  have rest: "wrote_all (wire ?k) ?bs (fst (write_rest ?bs ?k)) (snd (write_rest ?bs ?k))"
    by (rule wrote_all_rest)
  obtain sizes g1 where gen: "generate_record_payload_sizes rng padding (packet_counter w + 1) g = (sizes, g1)"
    by fastforce
  obtain q k1 where rec: "write_records sizes ?bs ?k = (q, k1)" by fastforce
  have "sizes_safe sizes" using assms(1) gen by (metis factory_safe_def fst_conv)
  then have wr: "wrote (wire ?k) ?bs (q, k1)" using write_records_wrote [of sizes ?k ?bs] rec by simp
  show ?thesis
  proof (cases "send_padding w \<and> packet_counter w + 1 < stop padding")
    case False
    then show ?thesis
      using assms(2,3) rest unfolding write_conn_def bs
      by (auto simp: Let_def split: prod.splits if_splits)
  next
    case True
    show ?thesis
    proof (cases q)
      case (Inl e)
      with True assms(2,3) gen rec wr show ?thesis
        unfolding write_conn_def bs by (fastforce simp: wrote_def wrote_all_def)
    next
      case (Inr x)
      with wr have "wrote_all (wire ?k) ?bs (fst (write_rest x k1)) (snd (write_rest x k1))"
        by (simp add: write_rest_wrote)
      with True Inr assms(2,3) gen rec show ?thesis
        unfolding write_conn_def bs by (auto split: prod.splits)
    qed
  qed
qed

text \<open>
  Everything a writer has accepted: the bytes on the wire and those it still buffers. A
  successful write appends the data and possibly Waste frames, buffering or not.
\<close>

definition sent :: "writer \<Rightarrow> byte list" where
  "sent w = wire (transport w) @ buffered w"

lemma write_conn_sent:
  assumes "factory_safe rng padding" and "write_conn rng padding bytes g w = (Inr n, w', g')"
  shows "\<exists>ns. lens_ok ns \<and> sent w' = sent w @ bytes @ wastes ns"
proof (cases "buffering w")
  case True
  with assms(2) have "sent w' = sent w @ bytes @ wastes []" by (auto simp: write_conn_def sent_def)
  then show ?thesis by (metis lens_ok_simps(1))
next
  case False
  with write_conn_unbuffered [OF assms(1) False assms(2)] show ?thesis
    by (auto simp: wrote_all_def sent_def)
qed

lemma write_request_sent:
  assumes "factory_safe rng padding" and "write_request_bytes rng padding bytes d g w = (Inr (), w', g')"
  shows "\<exists>ns. lens_ok ns \<and> sent w' = sent w @ bytes @ wastes ns"
proof -
  obtain n w1 g1 where 1: "write_conn rng padding bytes g w = (Inr n, w1, g1)"
    using assms(2) by (auto simp: write_request_bytes_def split: prod.splits sum.splits)
  then obtain ns where ns: "lens_ok ns" "sent w1 = sent w @ bytes @ wastes ns"
    using write_conn_sent [OF assms(1)] by blast
  show ?thesis
  proof (cases "d \<and> buffered w1 \<noteq> []")
    case True
    then obtain m w3 g3 where 2: "write_conn rng padding [] g1 (w1\<lparr>buffering := False\<rparr>) = (Inr m, w3, g3)" "w' = w3"
      using assms(2) 1 by (auto simp: write_request_bytes_def split: prod.splits sum.splits)
    then obtain ms where "lens_ok ms" "sent w' = sent w1 @ [] @ wastes ms"
      using write_conn_sent [OF assms(1) 2(1)] by (auto simp: sent_def)
    with ns show ?thesis by (intro exI [of _ "ns @ ms"]) simp
  next
    case False
    with assms(2) 1 have "sent w' = sent w1"
      by (auto simp: write_request_bytes_def sent_def split: if_splits)
    with ns show ?thesis by auto
  qed
qed

section \<open>Sequences of requests\<close>

text \<open>
  The requests the writer task serves, each with the padding scheme in force when it is
  served; the first failure ends the task.
\<close>

fun serve_requests ::
    "'g rng \<Rightarrow> (padding_factory \<times> byte list \<times> bool) list \<Rightarrow> 'g \<Rightarrow> writer \<Rightarrow> unit io_result \<times> writer \<times> 'g" where
  "serve_requests rng [] g w = (Inr (), w, g)"
| "serve_requests rng ((padding, bytes, disable) # rs) g w =
     (case write_request_bytes rng padding bytes disable g w of
        (Inl e, w', g') \<Rightarrow> (Inl e, w', g')
      | (Inr _, w', g') \<Rightarrow> serve_requests rng rs g' w')"

lemma encode_all_append:
  "encode_all encode xs = Inr a \<Longrightarrow> encode_all encode ys = Inr b \<Longrightarrow> encode_all encode (xs @ ys) = Inr (a @ b)"
  by (induction xs arbitrary: a) (auto simp: io_bind_Inr_iff)

definition not_waste :: "frame \<Rightarrow> bool" where
  "not_waste fr \<longleftrightarrow> command fr \<noteq> Waste"

lemma filter_not_waste_wastes [simp]: "filter not_waste (map waste ns) = []"
  by (induction ns) (simp_all add: not_waste_def waste_def)

lemma serve_requests_sent:
  assumes "\<forall>q\<in>set qs. factory_safe rng (fst q)"
    and "serve_requests rng (map (\<lambda>(p, fr, d). (p, enc fr, d)) qs) g w = (Inr (), w', g')"
    and "\<forall>q\<in>set qs. encode (fst (snd q)) = Inr (enc (fst (snd q)))"
  shows "\<exists>out bs. encode_all encode out = Inr bs \<and> sent w' = sent w @ bs \<and>
    filter not_waste out = filter not_waste (map (\<lambda>q. fst (snd q)) qs)"
  using assms
proof (induction qs arbitrary: g w)
  case Nil
  then show ?case by (auto intro!: exI [of _ "[]"])
next
  case (Cons q qs)
  obtain p fr d where q: "q = (p, fr, d)" by (cases q)
  obtain w1 g1 where 1: "write_request_bytes rng p (enc fr) d g w = (Inr (), w1, g1)"
    and rest: "serve_requests rng (map (\<lambda>(p, fr, d). (p, enc fr, d)) qs) g1 w1 = (Inr (), w', g')"
    using Cons.prems(2) q by (auto split: prod.splits sum.splits)
  obtain ns where ns: "lens_ok ns" "sent w1 = sent w @ enc fr @ wastes ns"
    using write_request_sent [OF _ 1] Cons.prems(1) q by auto
  obtain out bs where o: "encode_all encode out = Inr bs" "sent w' = sent w1 @ bs"
    "filter not_waste out = filter not_waste (map (\<lambda>q. fst (snd q)) qs)"
    using Cons.IH [OF _ rest] Cons.prems(1,3) by auto
  have "encode_all encode (fr # map waste ns) = Inr (enc fr @ wastes ns)"
    using Cons.prems(3) q ns(1) encode_all_wastes [of ns] by (simp add: wastes_def lens_ok_def)
  from encode_all_append [OF this o(1)]
  have "encode_all encode ((fr # map waste ns) @ out) = Inr ((enc fr @ wastes ns) @ bs)" .
  moreover have "sent w' = sent w @ (enc fr @ wastes ns) @ bs" using ns o by simp
  moreover have "filter not_waste ((fr # map waste ns) @ out) = filter not_waste (map (\<lambda>q. fst (snd q)) (q # qs))"
    using o(3) q by simp
  ultimately show ?case by blast
qed

section \<open>Buffering and the packet counter\<close>

lemma write_conn_buffering:
  "buffering w \<Longrightarrow> write_conn rng padding bytes g w = (Inr (length bytes), w\<lparr>buffered := buffered w @ bytes\<rparr>, g)"
  by (simp add: write_conn_def)

text \<open>While padding is still sent, another packet number is available: the increment of the
  32-bit counter never wraps.\<close>

definition counter_ok :: "writer \<Rightarrow> bool" where
  "counter_ok w \<longleftrightarrow> (send_padding w \<longrightarrow> unat (packet_counter w) < 2 ^ 32 - 1)"

lemma counter_next:
  assumes "counter_ok w" and "send_padding w"
  shows "unat (packet_counter w + 1) = unat (packet_counter w) + 1"
  using assms by (simp add: counter_ok_def unat_word_ariths)

lemma word_less_max: "(a :: u32) < b \<Longrightarrow> unat a < 2 ^ 32 - 1"
proof -
  assume "a < b"
  then have "unat a < unat b" by (simp add: word_less_nat_alt)
  moreover have "unat b < 2 ^ LENGTH(32)" by (rule unsigned_less)
  ultimately show ?thesis by simp
qed

lemma write_conn_counter_ok:
  assumes "counter_ok w" and "write_conn rng padding bytes g w = (r, w', g')"
  shows "counter_ok w'"
  using assms(1) assms(2) [symmetric] unfolding counter_ok_def write_conn_def Let_def
  by (auto split: if_splits prod.splits sum.splits dest: word_less_max)

section \<open>Properties of the writer\<close>

lemma default_factory_safe:
  assumes "rng_ok rng" and "padding_new digest DEFAULT_SCHEME = Some pf"
  shows "factory_safe rng pf"
proof -
  have "scheme pf = map_of default_entries" using assms(2) by (auto simp: padding_new_default)
  then have "n = CHECK_MARK \<or> (9 \<le> n \<and> n \<le> 1000)"
    if "n \<in> set (fst (generate_record_payload_sizes rng pf packet g))" for n packet g
    using default_sizes [OF assms(1)] that by blast
  then show ?thesis by (fastforce simp: factory_safe_def sizes_safe_def MAX_FRAME_DATA_SIZE_def)
qed

text \<open>An unbuffered writer holds nothing back.\<close>

definition writer_inv :: "writer \<Rightarrow> bool" where
  "writer_inv w \<longleftrightarrow> (buffering w \<or> buffered w = [])"

lemma writer_inv_new [inv_intros]: "writer_inv (writer_new k client)"
  by (simp add: writer_inv_def writer_new_def)

lemma write_conn_inv [inv_intros]:
  "write_conn rng padding bytes g w = (r, w', g') \<Longrightarrow> writer_inv w'"
  by (auto simp: write_conn_def writer_inv_def Let_def split: if_splits prod.splits sum.splits)

lemma write_request_inv [inv_intros]:
  "write_request_bytes rng padding bytes d g w = (r, w', g') \<Longrightarrow> writer_inv w'"
  by (auto simp: write_request_bytes_def Let_def writer_inv_def split: if_splits prod.splits sum.splits
      dest: write_conn_inv [unfolded writer_inv_def])

lemma serve_requests_inv [inv_intros]:
  "writer_inv w \<Longrightarrow> serve_requests rng qs g w = (r, w', g') \<Longrightarrow> writer_inv w'"
  by (induction rng qs g w rule: serve_requests.induct)
    (auto split: prod.splits sum.splits intro: write_request_inv)

definition frame_bytes :: "frame \<Rightarrow> byte list" where
  "frame_bytes fr = (case encode fr of Inr bs \<Rightarrow> bs | Inl _ \<Rightarrow> [])"

text \<open>A small scheme and generator for the witnesses: packet 1 is cut after nine bytes.\<close>

definition sample_factory :: padding_factory where
  "sample_factory =
     \<lparr>raw_scheme = [], stop = 8, md5 = [], scheme = (\<lambda>k. if k = ''1'' then Some ''9-9,30-30'' else None)\<rparr>"

definition sample_rng :: "unit rng" where
  "sample_rng a b g = (a, g)"

lemma sample_factory_safe: "factory_safe sample_rng sample_factory"
proof -
  have "rng_ok sample_rng" by (simp add: rng_ok_def sample_rng_def)
  moreover have "\<forall>v\<in>set (split_on (CHR '','') ''9-9,30-30''). entry_within 9 30 v"
    by (auto simp: entry_within_def parse_i64_def parse_unsigned_def digit_val_def)
  ultimately have "\<forall>n\<in>set (fst (filter_map_ranges sample_rng (split_on (CHR '','') ''9-9,30-30'') g)).
      n = CHECK_MARK \<or> (9 \<le> n \<and> n \<le> 30)" for g
    by (intro filter_map_ranges_within) simp_all
  then show ?thesis
    by (fastforce simp: factory_safe_def sizes_safe_def generate_record_payload_sizes_def sample_factory_def
        MAX_FRAME_DATA_SIZE_def simp del: filter_map_ranges.simps split_on.simps split: if_splits)
qed

lemma sample_sizes: "generate_record_payload_sizes sample_rng sample_factory 1 () = ([9, 30], ())"
  by (simp add: generate_record_payload_sizes_def sample_factory_def nat_to_string.simps digit_char_def
      char_of_def bit_Suc_0_iff parse_range_def parse_i64_def parse_unsigned_def digit_val_def as_i32_def)

lemmas serve_eval = write_request_bytes_def write_conn_def writer_new_def sample_sizes write_rest_def
  write_all_def flush_def as_usize_def CHECK_MARK_def waste_frame_eq frame_bytes_def encode_def
  to_be_bytes32_def to_be_bytes16_def MAX_FRAME_DATA_SIZE_def HEADER_OVERHEAD_SIZE_def Let_def



text \<open>C27: Nothing leaves before the first SYN: while no served request ends the buffering, a
  client's writer does not touch the transport at all and keeps the bytes in order.\<close>

theorem buffered_until_syn:
  assumes "\<forall>q\<in>set qs. \<not> snd (snd q)"
  shows "serve_requests rng qs g (writer_new k True) =
    (Inr (), (writer_new k True)\<lparr>buffered := concat (map (\<lambda>q. fst (snd q)) qs)\<rparr>, g)"
proof -
  have "serve_requests rng qs g ((writer_new k True)\<lparr>buffered := b\<rparr>) =
      (Inr (), (writer_new k True)\<lparr>buffered := b @ concat (map (\<lambda>q. fst (snd q)) qs)\<rparr>, g)" for b
    using assms
  proof (induction qs arbitrary: b)
    case (Cons q qs)
    obtain p bytes d where q: "q = (p, bytes, d)" by (cases q)
    with Cons.prems have "write_request_bytes rng p bytes d g ((writer_new k True)\<lparr>buffered := b\<rparr>) =
        (Inr (), (writer_new k True)\<lparr>buffered := b @ bytes\<rparr>, g)"
      by (simp add: write_request_bytes_def write_conn_def writer_new_def)
    with Cons q show ?case by simp
  qed simp
  from this [of "[]"] show ?thesis by (simp add: writer_new_def)
qed

theorem buffered_until_syn_witness:
  "serve_requests (\<lambda>a b g. (a, g)) [(\<lparr>raw_scheme = [], stop = 8, md5 = [], scheme = Map.empty\<rparr>, [4, 0], False)] ()
     (writer_new \<lparr>written = [], script = []\<rparr> True) =
   (Inr (), (writer_new \<lparr>written = [], script = []\<rparr> True)\<lparr>buffered := [4, 0]\<rparr>, ())"
  using buffered_until_syn
    [of "[(\<lparr>raw_scheme = [], stop = 8, md5 = [], scheme = Map.empty\<rparr>, [4, 0], False)]"]
  by simp

text \<open>A write that fails leaves on the wire a prefix of what it would have written: the
  buffered and the new bytes in order, then Waste frames; nothing is repeated or reordered.\<close>

theorem failed_write_leaves_prefix:
  assumes "factory_safe rng padding" and "write_conn rng padding bytes g w = (Inl e, w', g')"
  shows "\<exists>ns rest. lens_ok ns \<and>
    wire (transport w') @ rest = wire (transport w) @ buffered w @ bytes @ concat (map waste_bytes ns)"
proof -
  have "\<not> buffering w" using assms(2) by (auto simp: write_conn_def)
  from write_conn_unbuffered [OF assms(1) this assms(2)] show ?thesis
    by (auto simp: wrote_all_def wastes_def)
qed

theorem failed_write_leaves_prefix_witness:
  "\<exists>ns rest. lens_ok ns \<and>
    concat [[1, 2]] @ rest =
    concat [] @ [] @ [1, 2, 3] @ concat (map waste_bytes ns)"
proof -
  let ?w = "\<lparr>transport = \<lparr>written = [], script = [Some (BrokenPipe, 2)]\<rparr>, buffering = False, buffered = [],
      send_padding = False, packet_counter = 8\<rparr>"
  have "write_conn sample_rng sample_factory [1, 2, 3] () ?w =
      (Inl BrokenPipe, ?w\<lparr>transport := \<lparr>written = [[1, 2]], script = []\<rparr>\<rparr>, ())"
    by (simp add: write_conn_def write_rest_def write_all_def)
  from failed_write_leaves_prefix [OF sample_factory_safe this] show ?thesis by simp
qed

text \<open>One record of a scheme has the promised length: a long write is cut at the size, a
  short one is filled up to it when a Waste header fits, and a record without data is the
  size plus the header.\<close>

theorem record_payload_length:
  assumes "0 \<le> sz" and "sz \<le> int MAX_FRAME_DATA_SIZE" and "healthy k"
    and "write_records [sz] bs k = (Inr rest, k')"
  shows "\<exists>rec. written k' = written k @ [rec] \<and>
    length rec =
      (if length bs > nat sz then nat sz
       else if bs = [] then nat sz + HEADER_OVERHEAD_SIZE
       else if length bs + HEADER_OVERHEAD_SIZE < nat sz then nat sz
       else length bs)"
proof -
  have sz: "as_usize sz = nat sz" "sz \<noteq> CHECK_MARK"
    using assms(1,2) by (auto simp: as_usize_safe CHECK_MARK_def)
  have w: "\<exists>k1. write_all x k = (Inr (), k1) \<and> written k1 = written k @ [x]" for x
    using write_all_healthy [OF assms(3)] by blast
  consider (split) "length bs > nat sz" | (fill) "length bs \<le> nat sz" "bs \<noteq> []" | (pad) "bs = []"
    by fastforce
  then show ?thesis
  proof cases
    case split
    with w [of "take (nat sz) bs"] assms(4) sz show ?thesis by auto
  next
    case fill
    let ?p = "nat sz - (length bs + HEADER_OVERHEAD_SIZE)"
    let ?out = "bs @ (if ?p > 0 then waste_bytes ?p else [])"
    have "written k' = written k @ [?out]"
      using w [of ?out] assms(4) sz fill by (auto simp: waste_frame_eq Let_def split: if_splits)
    with fill show ?thesis by auto
  next
    case pad
    with w [of "waste_bytes (nat sz)"] assms(4) sz show ?thesis by (auto simp: waste_frame_eq)
  qed
qed

theorem record_payload_length_witness:
  "\<exists>rec. written \<lparr>written = [[7, 7] @ waste_bytes 3], script = []\<rparr> =
      written \<lparr>written = [], script = []\<rparr> @ [rec] \<and> length rec = 12"
proof -
  have "\<exists>rec. written \<lparr>written = [[7, 7] @ waste_bytes 3], script = []\<rparr> =
      written \<lparr>written = [], script = []\<rparr> @ [rec] \<and>
    length rec =
      (if length [7 :: byte, 7] > nat 12 then nat 12
       else if [7 :: byte, 7] = [] then nat 12 + HEADER_OVERHEAD_SIZE
       else if length [7 :: byte, 7] + HEADER_OVERHEAD_SIZE < nat 12 then nat 12
       else length [7 :: byte, 7])"
    by (rule record_payload_length [of 12 "\<lparr>written = [], script = []\<rparr>" "[7, 7]" "[]"])
      (simp_all add: serve_eval healthy_def)
  then show ?thesis by (simp add: HEADER_OVERHEAD_SIZE_def)
qed

text \<open>The 32-bit packet counter never wraps: a writer starts within its bound and every
  write keeps it there, so packet numbers are never reused while padding is sent.\<close>

theorem packet_counter_never_wraps:
  "counter_ok (writer_new k client) \<and>
   (counter_ok w \<longrightarrow>
      counter_ok (fst (snd (write_conn rng padding bytes g w))) \<and>
      (send_padding w \<longrightarrow> unat (packet_counter w + 1) = unat (packet_counter w) + 1))"
proof -
  obtain r w' g' where "write_conn rng padding bytes g w = (r, w', g')" by (metis prod_cases3)
  with write_conn_counter_ok [of w rng padding bytes g] counter_next [of w] show ?thesis
    by (auto simp: counter_ok_def writer_new_def)
qed

theorem packet_counter_never_wraps_witness:
  "counter_ok (fst (snd (write_conn sample_rng sample_factory [1] ()
      \<lparr>transport = \<lparr>written = [], script = []\<rparr>, buffering = False, buffered = [], send_padding = True,
       packet_counter = 4\<rparr>)))"
  using packet_counter_never_wraps
    [of "\<lparr>written = [], script = []\<rparr>" True
      "\<lparr>transport = \<lparr>written = [], script = []\<rparr>, buffering = False, buffered = [], send_padding = True,
       packet_counter = 4\<rparr>" sample_rng sample_factory "[1]" "()"]
  by (simp add: counter_ok_def)

text \<open>From the packet number \<open>stop\<close> on, a write goes out verbatim and in one piece, padding
  is off for good and the generator is not consulted again.\<close>

theorem padding_stops:
  assumes "\<not> buffering w" and "send_padding w \<longrightarrow> stop padding \<le> packet_counter w + 1"
    and "healthy (transport w)" and "buffered w @ bytes \<noteq> []"
  shows "\<exists>n w'. write_conn rng padding bytes g w = (Inr n, w', g) \<and> \<not> send_padding w' \<and>
    written (transport w') = written (transport w) @ [buffered w @ bytes]"
proof -
  let ?bs = "buffered w @ bytes"
  have bs: "(if buffered w \<noteq> [] then buffered w @ bytes else bytes) = ?bs" by simp
  obtain k1 where k1: "write_all ?bs (transport w) = (Inr (), k1)" "healthy k1"
    "written k1 = written (transport w) @ [?bs]"
    using write_all_healthy [OF assms(3)] by blast
  obtain k2 where "flush k1 = (Inr (), k2)" "written k2 = written k1"
    using flush_healthy [OF k1(2)] by blast
  with k1 assms(4) have "write_rest ?bs (transport w) = (Inr (length ?bs), k2)"
    "written k2 = written (transport w) @ [?bs]" by (auto simp: write_rest_def)
  with assms(1,2) show ?thesis
    unfolding write_conn_def bs by (auto simp: Let_def not_less)
qed

theorem padding_stops_witness:
  "\<exists>n w'. write_conn sample_rng sample_factory [1, 2] ()
      \<lparr>transport = \<lparr>written = [[9]], script = []\<rparr>, buffering = False, buffered = [], send_padding = True,
       packet_counter = 7\<rparr> = (Inr n, w', ()) \<and> \<not> send_padding w' \<and>
     written (transport w') = [[9], [1, 2]]"
  using padding_stops [of "\<lparr>transport = \<lparr>written = [[9]], script = []\<rparr>, buffering = False, buffered = [],
      send_padding = True, packet_counter = 7\<rparr>" sample_factory "[1, 2]" sample_rng "()"]
  by (simp add: sample_factory_def healthy_def)

text \<open>C28: A Waste record larger than 65535 bytes is framed wrongly: its length field holds the
  size modulo \<open>2 ^ 16\<close>, and the peer reads the remaining zeros as frames of their own.\<close>

theorem oversized_waste_desyncs:
  "waste_frame n = Inr bs \<Longrightarrow>
   read_from (Reader (bs @ rest) f) =
     Inr (waste (n mod 65536), Reader (replicate (n - n mod 65536) 0 @ rest) f)"
proof -
  assume "waste_frame n = Inr bs"
  then have bs: "bs = waste_bytes n" by (simp add: waste_frame_eq)
  let ?m = "n mod 65536"
  have "(of_nat n :: u16) = of_nat ?m"
    by (simp add: word_of_nat_eq_iff take_bit_eq_mod)
  moreover have "replicate n 0 = replicate ?m (0 :: byte) @ replicate (n - ?m) 0"
    by (simp flip: replicate_add)
  ultimately have "bs @ rest = waste_bytes ?m @ replicate (n - ?m) 0 @ rest"
    by (simp add: bs waste_bytes_def)
  moreover have "?m \<le> MAX_FRAME_DATA_SIZE"
    using mod_less_divisor [of 65536 n] by (simp add: MAX_FRAME_DATA_SIZE_def)
  ultimately show ?thesis using frame_codec.dec_enc [OF encode_waste [of ?m]] by metis
qed

theorem oversized_waste_desyncs_witness:
  "read_from (Reader (waste_bytes 65537 @ []) None) =
     Inr (waste (65537 mod 65536), Reader (replicate (65537 - 65537 mod 65536) 0 @ []) None)"
  using oversized_waste_desyncs [OF waste_frame_eq] .

end
