(* ===== verification/Session_Properties.thy ===== *)
theory Session_Properties
  imports Session_Runs Writer "HOL-Library.Multiset"
begin

text \<open>
  The properties of a session: what every reachable state satisfies, what the received commands
  do, and the negotiation between a client and a server session.
\<close>

section \<open>Reachable states\<close>

lemma pump_order_delivered:
  assumes "pump_order p"
  shows "prefix (delivered p) (data_of (before_fin (accepted p)))"
    and "delivered_eof p \<Longrightarrow> delivered p = data_of (before_fin (accepted p)) \<and> PushFin \<in> set (accepted p)"
  using assms
  by (cases "pump_phase p"; auto simp: pump_order_def before_fin_append(2))+

text \<open>
  A run for the witnesses: a server session starts, receives settings, a SYN and a PUSH of two
  bytes, which its pump delivers; and a client session that has reserved a stream.
\<close>

definition sample_receive :: "frame \<Rightarrow> session \<Rightarrow> session" where
  "sample_receive fr s = snd (receive_frame (\<lambda>_. []) id 0 fr s)"

definition sample_factory0 :: padding_factory where
  "sample_factory0 = \<lparr>raw_scheme = [], stop = 1, md5 = [], scheme = Map.empty\<rparr>"

definition sample_started :: session where
  "sample_started = snd (run id [] 0 (new_server 3 sample_factory0 0 0))"

definition sample_pushed :: session where
  "sample_pushed =
     sample_receive ((frame_new Push 7)\<lparr>data := [1, 2]\<rparr>)
       (sample_receive (frame_new Syn 7) (sample_receive (frame_new Settings 0) sample_started))"

definition sample_server :: session where
  "sample_server = the (pump_written 0 (the (pump_recv 0 0 sample_pushed)))"

lemma sample_receive_step:
  assumes "main_loop_running s" and "fst (receive_frame (\<lambda>_. []) id 0 fr s) = RecvContinue"
  shows "session_step (\<lambda>_. []) id [] s (sample_receive fr s)"
  using assms by (intro session_receive [of _ _ fr] step_receive [of s "\<lambda>_. []" id 0 fr]) (auto simp: sample_receive_def prod_eq_iff)

lemmas session_eval = new_server_def new_client_def session_new_def run_def run_rest_def receive_frame_def
  valid_stream_id_def allows_data_def frame_new_def on_receive_settings_def on_receive_syn_cmd_def
  on_receive_push_def queue_control_def push_request_def push_send_def take_slots_def update_pump_def
  stream_state_new_def stream_active_def is_expired_def pump_new_def pump_recv_def pump_written_def
  encode_def to_be_bytes32_def to_be_bytes16_def from_bytes_def from_utf8_lossy_def of_bytes_def insert_line_def
  WRITE_QUEUE_CAPACITY_def INBOUND_PUSH_QUEUE_BYTES_def INBOUND_PUSH_QUEUE_MESSAGES_def
  MAX_FRAME_DATA_SIZE_def sample_receive_def sample_factory0_def sample_started_def sample_pushed_def sample_server_def
  Let_def

lemma some_the: "\<not> Option.is_none x \<Longrightarrow> x = Some (the x)"
  by (cases x) simp_all

lemma sample_server_reachable:
  "session_init (new_server 3 sample_factory0 0 0)"
  "(session_step (\<lambda>_. []) id [])\<^sup>*\<^sup>* (new_server 3 sample_factory0 0 0) sample_server"
proof -
  show "session_init (new_server 3 sample_factory0 0 0)" by (auto simp: session_init_def)
  let ?st = "session_step (\<lambda>_. []) id []"
  have "?st\<^sup>*\<^sup>* (new_server 3 sample_factory0 0 0) sample_started"
    unfolding sample_started_def by (rule r_into_rtranclp, rule session_local, rule step_run, rule surjective_pairing)
  also have "?st\<^sup>*\<^sup>* sample_started (sample_receive (frame_new Settings 0) sample_started)"
    by (rule r_into_rtranclp, rule sample_receive_step) (simp_all add: session_eval)
  also have "?st\<^sup>*\<^sup>* \<dots> (sample_receive (frame_new Syn 7) (sample_receive (frame_new Settings 0) sample_started))"
    by (rule r_into_rtranclp, rule sample_receive_step) (simp_all add: session_eval)
  also have "?st\<^sup>*\<^sup>* \<dots> sample_pushed"
    unfolding sample_pushed_def by (rule r_into_rtranclp, rule sample_receive_step) (simp_all add: session_eval)
  also have "?st\<^sup>*\<^sup>* sample_pushed (the (pump_recv 0 0 sample_pushed))"
    by (rule r_into_rtranclp, rule session_local, rule step_pump_recv [of 0 0], rule some_the) (simp add: session_eval)
  also have "?st\<^sup>*\<^sup>* \<dots> sample_server"
    unfolding sample_server_def by (rule r_into_rtranclp, rule session_local, rule step_pump_written [of 0], rule some_the) (simp add: session_eval)
  finally show "?st\<^sup>*\<^sup>* (new_server 3 sample_factory0 0 0) sample_server" .
qed

text \<open>A client session that runs and has reserved stream 5, then one that has queued its SYN.\<close>

definition reserved_moves :: "move list" where
  "reserved_moves = [Run, Permit, Take, Finish, Answer, Reserve 5]"

definition sample_reserved :: session where
  "sample_reserved = the (exec_moves reserved_moves (new_client 1 sample_factory0 0 0))"

definition sample_opening :: session where
  "sample_opening = the (exec_moves (reserved_moves @ [Open 5, Permit]) (new_client 1 sample_factory0 0 0))"

lemmas client_eval = sample_reserved_def sample_opening_def reserved_moves_def sample_factory0_def move_eval

lemma sample_client_runs:
  "\<not> Option.is_none (exec_moves reserved_moves (new_client 1 sample_factory0 0 0))"
  "\<not> Option.is_none (exec_moves (reserved_moves @ [Open 5, Permit]) (new_client 1 sample_factory0 0 0))"
  by (simp_all add: client_eval)

lemma sample_client_reachable:
  "session_init (new_client 1 sample_factory0 0 0)"
  "(session_step (\<lambda>_. []) id [])\<^sup>*\<^sup>* (new_client 1 sample_factory0 0 0) sample_reserved"
  "(session_step (\<lambda>_. []) id [])\<^sup>*\<^sup>* (new_client 1 sample_factory0 0 0) sample_opening"
  unfolding sample_reserved_def sample_opening_def
  using sample_client_runs [THEN some_the, THEN exec_moves_steps] by (auto simp: session_init_def)

text \<open>C2: Inbound data is delivered in order: whatever the interleaving of the tasks, the bytes a
  stream's pump has written to the application are a prefix of the payloads its queue accepted
  before a FIN, and end of file is signalled only after a FIN and after all of them.\<close>

theorem inbound_data_in_order:
  assumes "session_init s0" and "(session_step digest order v)\<^sup>*\<^sup>* s0 s" and "p \<in> set (pumps s)"
  shows "prefix (delivered p) (data_of (before_fin (accepted p))) \<and>
    (delivered_eof p \<longrightarrow> delivered p = data_of (before_fin (accepted p)) \<and> PushFin \<in> set (accepted p))"
proof -
  have "pump_order p"
    using session.reachable_inv [OF assms(1,2)] assms(3) by (auto simp: session_inv_def pump_inv_def)
  then show ?thesis using pump_order_delivered by blast
qed

theorem inbound_data_in_order_witness:
  "prefix (delivered (pumps sample_server ! 0)) (data_of (before_fin (accepted (pumps sample_server ! 0)))) \<and>
   delivered (pumps sample_server ! 0) = [1, 2]"
proof -
  have "pumps sample_server ! 0 \<in> set (pumps sample_server)" by (simp add: session_eval)
  from inbound_data_in_order [OF sample_server_reachable this] show ?thesis by (simp add: session_eval)
qed

text \<open>C12: A session holds a bounded amount of data for a peer or an application that does not keep
  up: at most 1 MiB and 65 messages of inbound data per stream, with every byte backed by a permit,
  64 requests in each write queue, and one stream waiting to be accepted.\<close>

theorem queues_bounded:
  assumes "session_init s0" and "(session_step digest order v)\<^sup>*\<^sup>* s0 s"
  shows "(\<forall>p\<in>set (pumps s).
      push_slots p + length (inflight p) + length (data_of (push_queue p)) = INBOUND_PUSH_QUEUE_BYTES \<and>
      length (push_queue p) \<le> INBOUND_PUSH_QUEUE_MESSAGES + 1) \<and>
    length (control_queue s) \<le> WRITE_QUEUE_CAPACITY \<and> length (data_queue s) \<le> WRITE_QUEUE_CAPACITY \<and>
    (\<forall>q. incoming s = Some q \<longrightarrow> length q \<le> 1)"
  using session.reachable_inv [OF assms]
  by (auto simp: session_inv_def pump_inv_def incoming_ok_def)

theorem queues_bounded_witness:
  "push_slots (pumps sample_server ! 0) + length (inflight (pumps sample_server ! 0)) +
     length (data_of (push_queue (pumps sample_server ! 0))) = INBOUND_PUSH_QUEUE_BYTES \<and>
   length (control_queue sample_server) \<le> WRITE_QUEUE_CAPACITY"
proof -
  have "pumps sample_server ! 0 \<in> set (pumps sample_server)" by (simp add: session_eval)
  with queues_bounded [OF sample_server_reachable] show ?thesis by blast
qed

text \<open>C11: A session has at most one live stream: an active stream has a non-zero id and owns the only
  pump that has not been told to stop; without an active stream every pump has been told to stop. A
  server has no stream before the client's settings.\<close>

theorem one_live_stream:
  assumes "session_init s0" and "(session_step digest order v)\<^sup>*\<^sup>* s0 s"
  shows "(case streams s of
      None \<Rightarrow> \<forall>p\<in>set (pumps s). pump_token p
    | Some (sid, st) \<Rightarrow>
        sid \<noteq> 0 \<and> (is_client s \<or> received_settings s) \<and>
        (\<forall>i<length (pumps s). \<not> pump_token (pumps s ! i) \<longleftrightarrow> i = stream_pump st) \<and>
        stream_pump st < length (pumps s) \<and> pump_stream (pumps s ! stream_pump st) = sid)"
  using session.reachable_inv [OF assms]
  by (auto simp: session_inv_def linked_def split: option.splits)

theorem one_live_stream_witness:
  "\<exists>st. streams sample_server = Some (7, st) \<and> received_settings sample_server \<and>
    pump_stream (pumps sample_server ! stream_pump st) = 7"
proof -
  obtain st where "streams sample_server = Some (7, st)" "\<not> is_client sample_server" by (simp add: session_eval)
  with one_live_stream [OF sample_server_reachable] show ?thesis by simp
qed

text \<open>No caller is forgotten: in every reachable state a caller that waits for its write
  request, each for a different one, can be answered now, or its request is queued or being
  written and the writer task can go on.\<close>

theorem no_caller_forgotten:
  assumes "session_init s0" and "(session_step digest order v)\<^sup>*\<^sup>* s0 s" and "AwaitResult i k \<in> set (tasks s)"
  shows "distinct (result_ids (tasks s)) \<and>
    ((\<exists>r. request_answer i r s) \<or>
     (i \<in> pending_ids (control_queue s) (data_queue s) (writing s) \<and>
      (writing s \<noteq> None \<or> (\<exists>s'. writer_take s = Some s'))))"
proof -
  have w: "waiters_inv s" using waiters.reachable_inv [OF assms(1,2)] .
  have i: "i \<in> set (result_ids (tasks s))"
    using assms(3) by (force simp: result_ids_def map_filter_def)
  show ?thesis
  proof (cases "\<exists>r. request_answer i r s")
    case False
    then have "\<not> request_answer i (Inl BrokenPipe) s" and c: "i \<notin> fst ` set (completions s)"
      by (auto simp: request_answer_def)
    then have "writer_alive s" by (auto simp: request_answer_def)
    with w i c have p: "i \<in> pending_ids (control_queue s) (data_queue s) (writing s)"
      by (auto simp: waiters_inv_def)
    then have "writing s \<noteq> None \<or> (\<exists>s'. writer_take s = Some s')"
      using \<open>writer_alive s\<close>
      by (cases "writing s"; cases "control_queue s"; cases "data_queue s")
        (auto simp: writer_take_def pending_ids_def)
    with p w show ?thesis by (simp add: waiters_inv_def)
  qed (use w in \<open>simp add: waiters_inv_def\<close>)
qed

theorem no_caller_forgotten_witness:
  "distinct (result_ids (tasks sample_opening)) \<and>
    ((\<exists>r. request_answer 1 r sample_opening) \<or>
     (1 \<in> pending_ids (control_queue sample_opening) (data_queue sample_opening) (writing sample_opening) \<and>
      (writing sample_opening \<noteq> None \<or> (\<exists>s'. writer_take sample_opening = Some s'))))"
proof -
  have "AwaitResult 1 (OpenReserved 5) \<in> set (tasks sample_opening)"
    by (simp add: client_eval)
  with sample_client_reachable(1,3) show ?thesis by (rule no_caller_forgotten)
qed

text \<open>C8: Shutting a client session down is final: it has no stream then, all its pumps are told to
  stop, and in every later state it is still closed and without a stream, and a reservation fails
  with \<^verbatim>\<open>BrokenPipe\<close>, even one that had passed the first check before the shutdown.\<close>

theorem shutdown_is_final:
  assumes "session_init s0" and "(session_step digest order v)\<^sup>*\<^sup>* s0 s" and "is_client s"
    and "(session_step digest order v)\<^sup>*\<^sup>* (shutdown s) s'"
  shows "closed s' \<and> streams s' = None \<and> (\<forall>p\<in>set (pumps s'). pump_token p) \<and>
    reserve_locked now sid s' = (Inl BrokenPipe, s')"
proof -
  have inv: "session_inv s" using session.reachable_inv [OF assms(1,2)] .
  have "retired (shutdown s)"
    using assms(3) by (auto simp: retired_def shutdown_def Let_def cancel_stream_def update_pump_def
        split: option.splits)
  then have "retired s'"
    by (rule session.stable_reachable [of retired, OF _ _ assms(4), rotated]) (rule retired_kept.step_keep)
  moreover have "session_inv s'"
    by (rule session.stable_reachable [of session_inv, OF _ session_kept.shutdown_keep [OF inv] assms(4)])
      (rule session_kept.step_keep)
  ultimately show ?thesis
    by (auto simp: retired_def reserve_locked_def session_inv_def linked_def)
qed

theorem shutdown_is_final_witness:
  "reserve_locked 0 9 (helper_drop_stream_by_id 0 5 (shutdown sample_reserved)) =
    (Inl BrokenPipe, helper_drop_stream_by_id 0 5 (shutdown sample_reserved))"
proof -
  have "is_client sample_reserved" by (simp add: client_eval)
  moreover have "(session_step (\<lambda>_. []) id [])\<^sup>*\<^sup>* (shutdown sample_reserved)
      (helper_drop_stream_by_id 0 5 (shutdown sample_reserved))"
    by (rule r_into_rtranclp, rule session_local, rule step_drop [OF _ refl]) simp
  ultimately show ?thesis using shutdown_is_final [OF sample_client_reachable(1,2)] by blast
qed

text \<open>A closed session stays closed, client or server, whatever its tasks still do.\<close>

theorem closed_forever:
  assumes "closed s" and "(session_step digest order v)\<^sup>*\<^sup>* s s'"
  shows "closed s'"
  by (rule session.stable_reachable [of closed, OF _ assms]) (rule closed_kept.step_keep)

theorem closed_forever_witness: "closed (sample_receive (frame_new Waste 0) (shutdown sample_started))"
proof (rule closed_forever)
  show "closed (shutdown sample_started)" by (simp add: session_eval shutdown_def)
  show "(session_step (\<lambda>_. []) id [])\<^sup>*\<^sup>* (shutdown sample_started)
      (sample_receive (frame_new Waste 0) (shutdown sample_started))"
    by (rule r_into_rtranclp, rule sample_receive_step) (simp_all add: session_eval shutdown_def)
qed

section \<open>Closing a stream\<close>

lemma cancel_fields [simp]:
  "streams (cancel_stream st s) = streams s" "closed (cancel_stream st s) = closed s"
  "max_age (cancel_stream st s) = max_age s" "created_at (cancel_stream st s) = created_at s"
  "control_queue (cancel_stream st s) = control_queue s"
  "idle_sender (cancel_stream st s) = idle_sender s" "idle_notices (cancel_stream st s) = idle_notices s"
  "pumps (cancel_stream st s) = (pumps s)[stream_pump st := (pumps s ! stream_pump st)\<lparr>pump_token := True\<rparr>]"
  by (simp_all add: cancel_stream_def update_pump_def)

lemma is_expired_fields [simp]:
  "is_expired now (cancel_stream st s) = is_expired now s"
  "is_expired now (s\<lparr>streams := x\<rparr>) = is_expired now s"
  by (simp_all add: is_expired_def)

text \<open>A stream ends when, and only when, both sides have sent their FIN and its inbound data has
  been drained: then it is removed, its pump is told to stop, and the session is announced to the
  client pool exactly once, or closed if it has outlived its maximum age.\<close>

theorem stream_finishes_when_drained:
  assumes "session_inv s" and "streams s = Some (sid, st)"
  shows "if local_fin st \<and> remote_fin st \<and> read_closed st
    then streams (finish_stream_if_closed now sid s) = None \<and>
      pump_token (pumps (finish_stream_if_closed now sid s) ! stream_pump st) \<and>
      closed (finish_stream_if_closed now sid s) = (closed s \<or> is_expired now s) \<and>
      idle_notices (finish_stream_if_closed now sid s) =
        idle_notices s + (if idle_sender s \<and> \<not> is_expired now s then 1 else 0)
    else finish_stream_if_closed now sid s = s"
proof -
  have "stream_pump st < length (pumps s)" using assms by (rule active_pump)
  with assms(2) show ?thesis
    by (simp add: finish_stream_if_closed_def remove_stream_by_id_def shutdown_def Let_def)
qed

theorem stream_finishes_when_drained_witness:
  "finish_stream_if_closed 9 7 sample_server = sample_server"
proof -
  obtain st where "streams sample_server = Some (7, st)" "\<not> local_fin st" by (simp add: session_eval)
  moreover have "session_inv sample_server" by (rule session.reachable_inv [OF sample_server_reachable])
  ultimately show ?thesis using stream_finishes_when_drained [of sample_server 7 st 9] by simp
qed

section \<open>Received commands\<close>

lemma encode_new: "encode (frame_new c sid) = Inr (command_code c # to_be_bytes32 sid @ [0, 0])"
  by (simp add: encode_def frame_new_def to_be_bytes16_def)

lemma queue_control_ok:
  assumes "encode fr = Inr bs" and "writer_alive s" and "length (control_queue s) < WRITE_QUEUE_CAPACITY"
  shows "queue_control fr s = (Inr (), s\<lparr>control_queue := control_queue s @
    [\<lparr>bytes = bs, disable_buffering_after = False, result_sender = None\<rparr>]\<rparr>)"
  using assms by (simp add: queue_control_def push_request_def)

text \<open>A PUSH for the active stream of an open session is either queued, behind everything accepted
  before it, or the stream is closed: when its queue has no room for the message or its bytes, the
  peer is sent a FIN for it and the stream is removed; the session itself goes on.\<close>

theorem push_queued_or_stream_closed:
  fixes s :: session and sid :: u32 and bs :: "byte list" and now :: nat
  assumes "session_inv s" and "streams s = Some (sid, st)" and "\<not> closed s" and "writer_alive s"
    and "length (control_queue s) < WRITE_QUEUE_CAPACITY"
  defines "p \<equiv> pumps s ! stream_pump st" and "s' \<equiv> snd (on_receive_push now sid bs s)"
  shows "fst (on_receive_push now sid bs s) = RecvContinue \<and>
    (if pump_phase p \<noteq> PumpDone \<and> length (push_queue p) \<le> INBOUND_PUSH_QUEUE_MESSAGES \<and> length bs \<le> push_slots p
     then streams s' = streams s \<and> accepted (pumps s' ! stream_pump st) = accepted p @ [PushData bs] \<and>
       push_queue (pumps s' ! stream_pump st) = push_queue p @ [PushData bs]
     else streams s' = None \<and> accepted (pumps s' ! stream_pump st) = accepted p \<and>
       map bytes (control_queue s') = map bytes (control_queue s) @ [command_code Fin # to_be_bytes32 sid @ [0, 0]])"
proof -
  have i: "stream_pump st < length (pumps s)" using assms(1,2) by (rule active_pump)
  note q = queue_control_ok [OF encode_new assms(4,5), of Fin sid]
  show ?thesis
  proof (cases "pump_phase p \<noteq> PumpDone \<and> length (push_queue p) \<le> INBOUND_PUSH_QUEUE_MESSAGES \<and> length bs \<le> push_slots p")
    case True
    with i assms(2) show ?thesis
      by (simp add: s'_def p_def on_receive_push_def push_send_def take_slots_def update_pump_def Let_def)
  next
    case False
    then have "push_send (stream_pump st) (PushData bs) s \<in> {(SendClosed, s), (SendFull, s)} \<or> push_slots p < length bs"
      by (auto simp: p_def push_send_def Let_def)
    then have "on_receive_push now sid bs s =
        (RecvContinue, remove_stream_by_id now sid (snd (queue_control (frame_new Fin sid) s)))"
      using assms(2,3) q by (auto simp: on_receive_push_def p_def)
    with i assms(2) q False show ?thesis
      by (simp add: s'_def p_def remove_stream_by_id_def shutdown_def Let_def is_expired_def)
  qed
qed

theorem push_queued_or_stream_closed_witness:
  "fst (on_receive_push 0 7 [8] sample_server) = RecvContinue \<and>
   accepted (pumps (snd (on_receive_push 0 7 [8] sample_server)) ! 0) = [PushData [1, 2], PushData [8]]"
proof -
  obtain st where st: "streams sample_server = Some (7, st)" "stream_pump st = 0" by (simp add: session_eval)
  have inv: "session_inv sample_server" by (rule session.reachable_inv [OF sample_server_reachable])
  have "\<not> closed sample_server" "writer_alive sample_server"
    "length (control_queue sample_server) < WRITE_QUEUE_CAPACITY"
    "pump_phase (pumps sample_server ! 0) \<noteq> PumpDone" "push_queue (pumps sample_server ! 0) = []"
    "1 \<le> push_slots (pumps sample_server ! 0)" "accepted (pumps sample_server ! 0) = [PushData [1, 2]]"
    by (simp_all add: session_eval)
  with push_queued_or_stream_closed [OF inv st(1), of 0 "[8]"] st(2) show ?thesis by simp
qed

text \<open>
  A session that was closed by its writer task still has its stream until the receive loop ends; a
  PUSH that finds the message queue full is then dropped without a trace, and a later one is queued.
\<close>

lemma closed_session_skips_payload:
  assumes "closed s" and "streams s = Some (sid, st)" and "stream_pump st < length (pumps s)"
    and "pump_phase (pumps s ! stream_pump st) = PumpRecv"
    and "push_queue (pumps s ! stream_pump st) = PushData d # rest" and "length rest = INBOUND_PUSH_QUEUE_MESSAGES"
    and "length bs \<le> push_slots (pumps s ! stream_pump st)" and "length bs' \<le> push_slots (pumps s ! stream_pump st)"
  shows "on_receive_push now sid bs s = (RecvContinue, s)"
    and "\<exists>s1 s2. pump_recv now (stream_pump st) s = Some s1 \<and> on_receive_push now sid bs' s1 = (RecvContinue, s2) \<and>
      accepted (pumps s2 ! stream_pump st) = accepted (pumps s ! stream_pump st) @ [PushData bs']"
  using assms by (simp_all add: on_receive_push_def push_send_def pump_recv_def take_slots_def update_pump_def Let_def)



section \<open>Negotiation\<close>

text \<open>What the code relies on of a package version: one line without a separator.\<close>

definition version_ok :: "string \<Rightarrow> bool" where
  "version_ok v \<longleftrightarrow> newline \<notin> set v \<and> utf8_valid (as_bytes v)"

definition order_ok :: "('a list \<Rightarrow> 'a list) \<Rightarrow> bool" where
  "order_ok order \<longleftrightarrow> (\<forall>xs. mset (order xs) = mset xs)"

lemma order_ok_map:
  assumes "order_ok order" and "\<forall>e\<in>set es. clean_entry e" and "distinct (map fst es)"
  shows "from_bytes (to_bytes (order es)) = map_of es"
proof -
  have m: "mset (order es) = mset es" using assms(1) by (simp add: order_ok_def)
  then have s: "set (order es) = set es" by (rule mset_eq_setD)
  have "mset (map fst (order es)) = mset (map fst es)" using m by simp
  then have d: "distinct (map fst (order es))" using assms(3) mset_eq_imp_distinct_iff by blast
  then have "map_of (order es) = map_of es" using assms(3) s by (metis map_of_inject_set)
  then show ?thesis using from_bytes_to_bytes [OF _ d] assms(2) s by simp
qed

lemma nat_to_string_clean:
  "newline \<notin> set (nat_to_string n)" "utf8_valid (as_bytes (nat_to_string n))"
  using nat_to_string_no_char [of newline n] nat_to_string_ascii [of n] by (simp_all add: utf8_valid_ascii)

lemma parse_session_id: "n < 2 ^ 64 \<Longrightarrow> parse_usize (nat_to_string n) = Some n"
  unfolding parse_usize_def by (rule parse_unsigned_nat_to_string) simp

lemma length_nat_to_string: "n < 10 ^ Suc k \<Longrightarrow> length (nat_to_string n) \<le> Suc k"
proof (induction k arbitrary: n)
  case 0
  then show ?case by (simp add: nat_to_string.simps [of n])
next
  case (Suc k)
  then have "n div 10 < 10 ^ Suc k" by (simp add: less_mult_imp_div_less)
  with Suc.IH show ?case by (subst nat_to_string.simps) simp
qed

lemma length_join: "ss \<noteq> [] \<Longrightarrow> length (join [c] ss) + 1 = sum_list (map length ss) + length ss"
  by (induction "[c]" ss rule: join.induct) auto

lemma length_server_settings:
  assumes "order_ok order" and "session_id s < 2 ^ 64"
  shows "length (to_bytes (order (server_settings s))) \<le> MAX_FRAME_DATA_SIZE"
proof -
  let ?f = "\<lambda>(k, v). k @ ''='' @ v"
  have m: "mset (order (server_settings s)) = mset (server_settings s)" using assms(1) by (simp add: order_ok_def)
  then have "mset (map (length \<circ> ?f) (order (server_settings s))) = mset (map (length \<circ> ?f) (server_settings s))"
    by simp
  then have "sum_list (map (length \<circ> ?f) (order (server_settings s))) = sum_list (map (length \<circ> ?f) (server_settings s))"
    by (metis sum_mset_sum_list)
  moreover have "length (order (server_settings s)) = length (server_settings s)" using m by (rule mset_eq_length)
  moreover have "order (server_settings s) \<noteq> []" using m by (auto simp: server_settings_def)
  ultimately have "length (to_bytes (order (server_settings s))) + 1 =
      sum_list (map (length \<circ> ?f) (server_settings s)) + 2"
    using length_join [of "map ?f (order (server_settings s))" newline]
    by (simp add: to_bytes_def server_settings_def)
  moreover have "length (nat_to_string (session_id s)) \<le> Suc 19"
    using assms(2) by (intro length_nat_to_string) simp
  ultimately show ?thesis by (simp add: server_settings_def MAX_FRAME_DATA_SIZE_def)
qed

lemma client_settings_clean:
  assumes "version_ok v" and "newline \<notin> set (md5 (padding s))" and "utf8_valid (as_bytes (md5 (padding s)))"
  shows "\<forall>e\<in>set (client_settings v s). clean_entry e"
proof -
  have "utf8_valid (as_bytes (''anytls(rust)/'' @ v))"
    using assms(1) ascii_string_valid [of "''anytls(rust)/''"]
    unfolding as_bytes_append version_ok_def by (subst utf8_valid_append) simp_all
  then show "\<forall>e\<in>set (client_settings v s). clean_entry e"
    using assms nat_to_string_clean
    by (simp add: client_settings_def clean_entry_def PROGRAM_VERSION_NAME_def version_ok_def ascii_string_valid)
qed

lemma server_settings_clean: "\<forall>e\<in>set (server_settings s). clean_entry e"
  using nat_to_string_clean by (simp add: server_settings_def clean_entry_def ascii_string_valid)

lemma server_settings_fields [simp]:
  "server_settings (s\<lparr>peer_version := x\<rparr>) = server_settings s"
  "server_settings (s\<lparr>control_queue := q\<rparr>) = server_settings s"
  "server_settings (s\<lparr>received_settings := b\<rparr>) = server_settings s"
  "server_settings (s\<lparr>peer_session_id := y\<rparr>) = server_settings s"
  by (simp_all add: server_settings_def)

text \<open>Settings are negotiated: from the settings frame of a client, in whatever order its hash map
  prints it, the server learns the client's session id and that it speaks version 2, queues its own
  padding scheme exactly when the client's differs in its MD5, and queues its own settings; from
  these the client learns the server's session id and version.\<close>

theorem settings_negotiated:
  fixes client server :: session and v :: string
  assumes "order_ok order" and "order_ok order'" and "version_ok v"
    and "newline \<notin> set (md5 (padding client))" and "utf8_valid (as_bytes (md5 (padding client)))"
    and "is_client client" and "\<not> is_client server" and "writer_alive server"
    and "session_id client < 2 ^ 64" and "session_id server < 2 ^ 64"
    and "length (control_queue server) + 1 < WRITE_QUEUE_CAPACITY"
    and "length (raw_scheme (padding server)) \<le> MAX_FRAME_DATA_SIZE"
  defines "server' \<equiv> snd (on_receive_settings order' (to_bytes (order (client_settings v client))) server)"
    and "client' \<equiv> snd (on_receive_server_settings (to_bytes (order' (server_settings server))) client)"
  shows "received_settings server' \<and> peer_session_id server' = Some (session_id client) \<and> peer_version server' = 2 \<and>
    map bytes (control_queue server') = map bytes (control_queue server) @
      (if md5 (padding client) = md5 (padding server) then []
       else [frame_bytes \<lparr>command = UpdatePaddingScheme, stream_id = 0, data = raw_scheme (padding server)\<rparr>]) @
      [frame_bytes \<lparr>command = ServerSettings, stream_id = 0, data = to_bytes (order' (server_settings server))\<rparr>] \<and>
    peer_session_id client' = Some (session_id server) \<and> peer_version client' = 2"
proof -
  let ?m = "from_bytes (to_bytes (order (client_settings v client)))"
  have m: "?m = map_of (client_settings v client)"
    by (rule order_ok_map [OF assms(1) client_settings_clean [OF assms(3-5)]]) (simp add: client_settings_def)
  have two: "parse_u8 ''2'' = Some 2" by (simp add: parse_u8_def parse_unsigned_def digit_val_def)
  have c: "?m ''v'' = Some ''2''" "?m ''padding-md5'' = Some (md5 (padding client))"
    "?m ''session'' = Some (nat_to_string (session_id client))"
    unfolding m by (simp_all add: client_settings_def)
  have enc: "length d \<le> MAX_FRAME_DATA_SIZE \<Longrightarrow> encode \<lparr>command = cmd, stream_id = i, data = d\<rparr> =
      Inr (frame_bytes \<lparr>command = cmd, stream_id = i, data = d\<rparr>)" for cmd i d
    by (simp add: frame_bytes_def encode_def)
  note len = length_server_settings [OF assms(2,10)]
  let ?n = "from_bytes (to_bytes (order' (server_settings server)))"
  have n: "?n = map_of (server_settings server)"
    by (rule order_ok_map [OF assms(2) server_settings_clean]) (simp add: server_settings_def)
  have "?n ''v'' = Some ''2''" "?n ''session'' = Some (nat_to_string (session_id server))"
    unfolding n by (simp_all add: server_settings_def)
  then have cl: "peer_session_id client' = Some (session_id server) \<and> peer_version client' = 2"
    using assms(6,10) two unfolding client'_def
    by (simp add: on_receive_server_settings_def set_peer_session_id_def parse_session_id Let_def)
  show ?thesis
    using cl assms(7,8,11,12) len two unfolding server'_def
    by (simp add: on_receive_settings_def c parse_session_id [OF assms(9)] set_peer_session_id_def frame_new_def
        queue_control_ok enc Let_def)
qed

theorem settings_negotiated_witness:
  "peer_session_id (snd (on_receive_settings id (to_bytes (id (client_settings ''1.0'' (new_client 2 sample_factory0 0 0))))
      (new_server 3 sample_factory0 0 0))) = Some 2"
proof -
  let ?c = "new_client 2 sample_factory0 0 0" and ?s = "new_server 3 sample_factory0 0 0"
  have f: "session_id ?c = 2" "session_id ?s = 3" "is_client ?c" "\<not> is_client ?s" "writer_alive ?s"
    "control_queue ?s = []" "md5 (padding ?c) = []" "raw_scheme (padding ?s) = []"
    by (simp_all add: session_eval)
  have o: "order_ok (id :: (string \<times> string) list \<Rightarrow> _)" by (simp add: order_ok_def)
  have v: "version_ok ''1.0''" by (simp add: version_ok_def ascii_string_valid)
  have m: "newline \<notin> set (md5 (padding ?c))" "utf8_valid (as_bytes (md5 (padding ?c)))"
    using f by (simp_all add: ascii_string_valid)
  have "length (control_queue ?s) + 1 < WRITE_QUEUE_CAPACITY" "session_id ?c < 2 ^ 64" "session_id ?s < 2 ^ 64"
    "length (raw_scheme (padding ?s)) \<le> MAX_FRAME_DATA_SIZE"
    using f by (simp_all add: WRITE_QUEUE_CAPACITY_def)
  from settings_negotiated [OF o o v m f(3,4,5) this(2,3,1,4)] f show ?thesis by simp
qed

section \<open>Padding is transparent to the receiver\<close>

text \<open>The frames of \<^verbatim>\<open>receive_loop\<close> one after the other; \<open>None\<close> means that all were handled.\<close>

fun receive_frames ::
    "(byte list \<Rightarrow> byte list) \<Rightarrow> ((string \<times> string) list \<Rightarrow> (string \<times> string) list) \<Rightarrow>
     nat \<Rightarrow> frame list \<Rightarrow> session \<Rightarrow> unit io_result option \<times> session" where
  "receive_frames digest order now [] s = (None, s)"
| "receive_frames digest order now (fr # frs) s =
     (if close_token s then (Some (Inr ()), s)
      else case receive_frame digest order now fr s of
             (RecvStop r, s') \<Rightarrow> (Some r, s')
           | (RecvContinue, s') \<Rightarrow> receive_frames digest order now frs s')"

lemma receive_loop_frames:
  "encode_all encode frs = Inr bs \<Longrightarrow>
   receive_loop digest order now (Reader (bs @ rest) f) s =
     (case receive_frames digest order now frs s of
        (Some r, s') \<Rightarrow> (r, s')
      | (None, s') \<Rightarrow> receive_loop digest order now (Reader rest f) s')"
proof (induction frs arbitrary: bs s)
  case (Cons fr frs)
  then obtain b bs1 where b: "encode fr = Inr b" "encode_all encode frs = Inr bs1" "bs = b @ bs1"
    by (auto simp: io_bind_Inr_iff)
  obtain fl s1 where r: "receive_frame digest order now fr s = (fl, s1)" by fastforce
  show ?case
    using b r Cons.IH [OF b(2), of s1] read_from_or_eof_encode [OF b(1), of "bs1 @ rest" f]
    by (subst receive_loop.simps) (auto split: flow.splits)
qed simp

definition same_but_activity :: "session \<Rightarrow> session \<Rightarrow> bool" where
  "same_but_activity s t \<longleftrightarrow> s\<lparr>last_activity := 0\<rparr> = t\<lparr>last_activity := 0\<rparr>"

lemma same_but_activityD:
  assumes "same_but_activity s t"
  shows "close_token s = close_token t" and "s\<lparr>last_activity := n\<rparr> = t\<lparr>last_activity := n\<rparr>"
proof -
  have e: "s\<lparr>last_activity := 0\<rparr> = t\<lparr>last_activity := 0\<rparr>" using assms by (simp add: same_but_activity_def)
  from arg_cong [OF e, of close_token] show "close_token s = close_token t" by simp
  from arg_cong [OF e, of "last_activity_update (\<lambda>_. n)"] show "s\<lparr>last_activity := n\<rparr> = t\<lparr>last_activity := n\<rparr>" by simp
qed

lemma receive_frame_same: "same_but_activity s t \<Longrightarrow> receive_frame digest order now fr s = receive_frame digest order now fr t"
  using same_but_activityD(2) [of s t now] by (simp add: receive_frame_def)

lemma receive_waste:
  assumes "\<not> not_waste fr" and "stream_id fr = 0"
  shows "receive_frame digest order now fr s = (RecvContinue, s\<lparr>last_activity := now\<rparr>)"
  using assms by (simp add: receive_frame_def not_waste_def valid_stream_id_def allows_data_def)

lemma receive_loop_end: "receive_loop digest order now (Reader [] None) s = (Inr (), s)"
  by (subst receive_loop.simps) (simp add: read_from_or_eof_def read_byte_def)

text \<open>The outcome of handling frames up to the end of the stream.\<close>

definition outcome :: "unit io_result option \<times> session \<Rightarrow> unit io_result \<times> session" where
  "outcome p = (case p of (Some r, s) \<Rightarrow> (r, s) | (None, s) \<Rightarrow> (Inr (), s))"

lemma receive_frames_no_waste:
  assumes "\<forall>fr\<in>set frs. not_waste fr \<or> stream_id fr = 0" and "same_but_activity s t"
  shows "fst (outcome (receive_frames digest order now frs s)) =
      fst (outcome (receive_frames digest order now (filter not_waste frs) t)) \<and>
    same_but_activity (snd (outcome (receive_frames digest order now frs s)))
      (snd (outcome (receive_frames digest order now (filter not_waste frs) t)))"
  using assms
proof (induction frs arbitrary: s t)
  case Nil
  then show ?case by (simp add: outcome_def)
next
  case (Cons fr frs)
  note same = same_but_activityD [OF Cons.prems(2)]
  show ?case
  proof (cases "close_token s")
    case True
    then have "outcome (receive_frames digest order now gs t) = (Inr (), t)" for gs
      using same(1) by (cases gs) (simp_all add: outcome_def)
    with True Cons.prems(2) show ?thesis by (simp add: outcome_def)
  next
    case running: False
    show ?thesis
    proof (cases "not_waste fr")
      case True
      obtain fl s1 where r: "receive_frame digest order now fr s = (fl, s1)" by fastforce
      then have "receive_frame digest order now fr t = (fl, s1)" using receive_frame_same [OF Cons.prems(2)] by metis
      with r True running same(1) Cons.IH [of s1 s1] Cons.prems(1) show ?thesis
        by (auto simp: outcome_def same_but_activity_def split: flow.splits)
    next
      case False
      then have "same_but_activity (s\<lparr>last_activity := now\<rparr>) t" using Cons.prems(2) by (simp add: same_but_activity_def)
      from Cons.IH [OF _ this] False running Cons.prems(1) show ?thesis by (simp add: receive_waste)
    qed
  qed
qed

text \<open>C14: Padding is invisible to the receiving session: whatever Waste frames were inserted between
  the frames of a stream of bytes, the receive loop ends with the same result and in the same state
  as on the bare frames, but for the instant of the last activity.\<close>

theorem padding_transparent:
  assumes "encode_all encode frs = Inr bs" and "encode_all encode (filter not_waste frs) = Inr bs'"
    and "\<forall>fr\<in>set frs. not_waste fr \<or> stream_id fr = 0"
  shows "fst (receive_loop digest order now (Reader bs None) s) = fst (receive_loop digest order now (Reader bs' None) s) \<and>
    (snd (receive_loop digest order now (Reader bs None) s))\<lparr>last_activity := n\<rparr> =
    (snd (receive_loop digest order now (Reader bs' None) s))\<lparr>last_activity := n\<rparr>"
proof -
  have loop: "receive_loop digest order now (Reader b None) s = outcome (receive_frames digest order now gs s)"
    if "encode_all encode gs = Inr b" for gs b
    using receive_loop_frames [OF that, of digest order now "[]" None s]
    by (simp add: outcome_def receive_loop_end split: prod.splits option.splits)
  have "same_but_activity s s" by (simp add: same_but_activity_def)
  from receive_frames_no_waste [OF assms(3) this, of digest order now] show ?thesis
    unfolding loop [OF assms(1)] loop [OF assms(2)] by (blast intro: same_but_activityD(2))
qed

theorem padding_transparent_witness:
  "fst (receive_loop (\<lambda>_. []) id 0 (Reader (waste_bytes 2 @ [4, 0, 0, 0, 0, 0, 0] @ waste_bytes 1) None) sample_started) =
   fst (receive_loop (\<lambda>_. []) id 0 (Reader [4, 0, 0, 0, 0, 0, 0] None) sample_started)"
proof -
  have e: "encode (waste n) = Inr (waste_bytes n)" if "n \<le> 2" for n
    using that by (intro encode_waste) (simp add: MAX_FRAME_DATA_SIZE_def)
  have A: "encode_all encode [waste 2, frame_new Settings 0, waste 1] =
      Inr (waste_bytes 2 @ [4, 0, 0, 0, 0, 0, 0] @ waste_bytes 1)"
    by (simp add: e encode_new to_be_bytes32_def)
  have B: "encode_all encode (filter not_waste [waste 2, frame_new Settings 0, waste 1]) = Inr [4, 0, 0, 0, 0, 0, 0]"
    by (simp add: not_waste_def waste_def frame_new_def encode_new [unfolded frame_new_def] to_be_bytes32_def)
  have C: "\<forall>fr\<in>set [waste 2, frame_new Settings 0, waste 1]. not_waste fr \<or> stream_id fr = 0"
    by (simp add: waste_def frame_new_def)
  from padding_transparent [OF A B C, of "\<lambda>_. []" id 0 sample_started 0] show ?thesis by (rule conjunct1)
qed

end
