(* ===== verification/Pool_Properties.thy ===== *)
theory Pool_Properties
  imports Pool_System Pool_Runs Session_Properties
begin

text \<open>
  What holds of the client's pool in every state its tasks can reach: each of its sessions is a
  session as the session theories describe it, and the streams it hands out are exclusive.
\<close>

section \<open>The sessions of the pool are sessions\<close>

definition session_run ::
    "(byte list \<Rightarrow> byte list) \<Rightarrow> ((string \<times> string) list \<Rightarrow> (string \<times> string) list) \<Rightarrow> string \<Rightarrow> session \<Rightarrow> bool" where
  "session_run digest order v s \<longleftrightarrow>
     (\<exists>sid pf age now. (session_step digest order v)\<^sup>*\<^sup>* (new_client sid pf age now) s)"

lemma session_run_steps: "session_run digest order v s \<Longrightarrow> (session_step digest order v)\<^sup>*\<^sup>* s s' \<Longrightarrow> session_run digest order v s'"
  unfolding session_run_def by (meson rtranclp_trans)

lemma session_run_inv:
  assumes "session_run digest order v s"
  shows "session_inv s" and "unread s" and "load s \<le> length (pumps s)"
proof -
  obtain sid pf age now where r: "(session_step digest order v)\<^sup>*\<^sup>* (new_client sid pf age now) s"
    using assms by (auto simp: session_run_def)
  show "session_inv s" using session.reachable_inv [OF _ r] by (auto simp: session_init_def)
  from r have "unread s \<and> load s + 0 \<le> length (pumps s) + 0"
  proof (induction rule: rtranclp_induct)
    case base
    show ?case by (simp add: unread_def load_def new_client_def session_new_def)
  next
    case (step s s')
    then show ?case using unread_kept.step_keep [OF step(2)] load_kept.step_keep [OF step(2), of 0 0] by blast
  qed
  then show "unread s" "load s \<le> length (pumps s)" by simp_all
qed

lemma op_returns_step: "op_returns now k result s s' \<Longrightarrow> session_step digest order v s s'"
proof (induction rule: op_returns.induct)
  case (returns_refused q bs disable deadline k s now e result s')
  then show ?case by (metis session_local step_permit_refused snd_conv)
next
  case (returns_answered i k s r now result s')
  then show ?case by (metis session_local step_answered snd_conv)
qed

lemma run_returned_ready: "op_returns now RunSession (Inr u) s s' \<Longrightarrow> \<not> reader_present s'"
  by (auto elim!: op_returns.cases simp: resume_def run_rest_def split: sum.splits if_splits)

text \<open>The client moves its sessions by steps of their own.\<close>

definition evolves ::
    "(byte list \<Rightarrow> byte list) \<Rightarrow> ((string \<times> string) list \<Rightarrow> (string \<times> string) list) \<Rightarrow> string \<Rightarrow> client \<Rightarrow> client \<Rightarrow> bool" where
  "evolves digest order v c c' \<longleftrightarrow>
     length (sessions c') = length (sessions c) \<and>
     (\<forall>k<length (sessions c). (session_step digest order v)\<^sup>*\<^sup>* (sessions c ! k) (sessions c' ! k))"

abbreviation ready :: "client \<Rightarrow> nat \<Rightarrow> bool" where
  "ready c k \<equiv> \<not> reader_present (sessions c ! k)"

lemma evolves_ready: "evolves digest order v c c' \<Longrightarrow> k < length (sessions c) \<Longrightarrow> ready c k \<Longrightarrow> ready c' k"
proof -
  assume "evolves digest order v c c'" "k < length (sessions c)"
  then have "(session_step digest order v)\<^sup>*\<^sup>* (sessions c ! k) (sessions c' ! k)" by (simp add: evolves_def)
  then show "ready c k \<Longrightarrow> ready c' k"
    by (induction rule: rtranclp_induct) (auto dest: reader_kept.step_keep)
qed

lemma evolves_trans: "evolves digest order v c c1 \<Longrightarrow> evolves digest order v c1 c2 \<Longrightarrow> evolves digest order v c c2"
  by (auto simp: evolves_def intro: rtranclp_trans)

lemma evolves_same: "sessions c' = sessions c \<Longrightarrow> evolves digest order v c c'"
  by (simp add: evolves_def)

lemma evolves_update:
  "k < length (sessions c) \<Longrightarrow> (session_step digest order v)\<^sup>*\<^sup>* (sessions c ! k) (f (sessions c ! k)) \<Longrightarrow>
   evolves digest order v c (update_session k f c)"
  by (simp add: evolves_def sessions_update)

lemma shutdown_steps: "(session_step digest order v)\<^sup>*\<^sup>* s (shutdown s)"
  by (blast intro: session_local step_shutdown)

lemma evolves_fold:
  "\<forall>item\<in>set items. idle_id item < length (sessions c) \<Longrightarrow>
   evolves digest order v c (fold (\<lambda>item. update_session (idle_id item) shutdown) items c)"
proof (induction items arbitrary: c)
  case (Cons item items)
  then have "evolves digest order v c (update_session (idle_id item) shutdown c)"
    by (auto intro: evolves_update shutdown_steps)
  moreover have "evolves digest order v (update_session (idle_id item) shutdown c)
      (fold (\<lambda>item. update_session (idle_id item) shutdown) (item # items) c)" using Cons by simp
  ultimately show ?case by (rule evolves_trans)
qed (simp add: evolves_same)

lemma evolves_pool [simp]: "evolves digest order v c (c'\<lparr>idle_pool := x\<rparr>) = evolves digest order v c c'"
  by (simp add: evolves_def)

lemma client_ops_evolve:
  assumes "pool_inv c"
  shows "evolves digest order v c (cleanup now timeout c)" and "evolves digest order v c (snd (client_shutdown c))"
proof -
  have i: "\<forall>item\<in>set (idle_pool c). idle_id item < length (sessions c)" using assms by (simp add: pool_inv_def)
  then show "evolves digest order v c (cleanup now timeout c)" by (simp add: cleanup_def Let_def evolves_fold)
  have "evolves digest order v c (c\<lparr>client_closed := True\<rparr>)" by (simp add: evolves_same)
  from evolves_trans [OF this evolves_fold] i show "evolves digest order v c (snd (client_shutdown c))"
    by (simp add: client_shutdown_def Let_def)
qed

lemma take_idle_evolves:
  assumes "pool_inv c" and "take_idle now c = (r, c')"
  shows "evolves digest order v c c'" and "r = Some k \<Longrightarrow> k \<in> idle_ids c" and "idle_ids c' \<subseteq> idle_ids c"
  using take_idle_taken [OF assms] shutdown_steps [of digest order v]
  by (auto simp: taken_def evolves_def split: option.splits)

text \<open>The sessions that may get a stream have been started.\<close>

fun uses :: "caller \<Rightarrow> nat option" where
  "uses (Taken k _) = Some k"
| "uses (Reserving k _ _) = Some k"
| "uses (Reserved k _ _) = Some k"
| "uses (Opening k _ _) = Some k"
| "uses (Granted k _ _) = Some k"
| "uses _ = None"

definition in_use :: "pool_system \<Rightarrow> nat set" where
  "in_use p = idle_ids (pool p) \<union> set (returning p) \<union> {k. \<exists>x\<in>set (callers p). uses x = Some k}"

definition run_inv ::
    "(byte list \<Rightarrow> byte list) \<Rightarrow> ((string \<times> string) list \<Rightarrow> (string \<times> string) list) \<Rightarrow> string \<Rightarrow> pool_system \<Rightarrow> bool" where
  "run_inv digest order v p \<longleftrightarrow>
     owner_inv p \<and> (\<forall>s\<in>set (sessions (pool p)). session_run digest order v s) \<and> (\<forall>k\<in>in_use p. ready (pool p) k)"

lemma uses_in: "caller_in c x \<Longrightarrow> uses x = Some k \<Longrightarrow> k < length (sessions c)"
  by (cases x) (auto simp: caller_in_def)

lemma in_use_less: "owner_inv p \<Longrightarrow> k \<in> in_use p \<Longrightarrow> k < length (sessions (pool p))"
  using uses_in by (auto simp: owner_inv_def in_use_def pool_inv_def)

lemma run_inv_keep:
  assumes inv: "run_inv digest order v p" and "owner_inv p'" and ev: "evolves digest order v (pool p) (pool p')"
    and new: "\<And>k. k \<in> in_use p' \<Longrightarrow> k \<in> in_use p \<or> ready (pool p') k"
  shows "run_inv digest order v p'"
proof -
  have "session_run digest order v (sessions (pool p') ! k)" if "k < length (sessions (pool p'))" for k
  proof -
    have "k < length (sessions (pool p))" using ev that by (simp add: evolves_def)
    then have "session_run digest order v (sessions (pool p) ! k)"
      "(session_step digest order v)\<^sup>*\<^sup>* (sessions (pool p) ! k) (sessions (pool p') ! k)"
      using inv ev by (simp_all add: run_inv_def evolves_def)
    then show ?thesis by (rule session_run_steps)
  qed
  moreover have "ready (pool p') k" if "k \<in> in_use p'" for k
    using new [OF that] evolves_ready [OF ev] in_use_less [of p k] inv by (auto simp: run_inv_def)
  ultimately show ?thesis using assms(2) by (auto simp: run_inv_def in_set_conv_nth)
qed

lemma uses_update: "x \<in> set (xs[i := y]) \<Longrightarrow> uses x = Some k \<Longrightarrow> uses y = Some k \<or> (\<exists>x\<in>set xs. uses x = Some k)"
  by (auto dest: set_update_subset_insert [THEN subsetD])

lemma run_inv_moved:
  assumes "run_inv digest order v p" and "owner_inv (moved i x n c p)" and "evolves digest order v (pool p) c"
    and "idle_ids c \<subseteq> idle_ids (pool p)" and "\<And>k. uses x = Some k \<Longrightarrow> k \<in> in_use p \<or> ready c k"
  shows "run_inv digest order v (moved i x n c p)"
proof (rule run_inv_keep [OF assms(1,2)])
  show "evolves digest order v (pool p) (pool (moved i x n c p))" using assms(3) by (simp add: moved_def)
  show "k \<in> in_use p \<or> ready (pool (moved i x n c p)) k" if "k \<in> in_use (moved i x n c p)" for k
    using that assms(4,5) unfolding in_use_def moved_def by (auto dest: uses_update)
qed

section \<open>Moves of a caller\<close>

lemma reserve_step:
  assumes "session_run digest order v s" and "\<not> reader_present s" and "sid \<noteq> 0" and "reserve_locked now sid s = (r, s')"
  shows "session_step digest order v s s'"
  using assms session_run_inv(2) [OF assms(1)] by (auto simp: unread_def intro: session_local step_reserve)

lemma opened_evolves:
  assumes "k < length (sessions c)" and "caller_opened result k sid i c = (x, c')"
  shows "evolves digest order v c c'" and "idle_ids c' = idle_ids c" and "uses x = None \<or> uses x = Some k"
  using assms evolves_update [OF assms(1), of digest order v shutdown] shutdown_steps
  by (auto simp: caller_opened_def create_stream_opened_def evolves_same split: sum.splits)

lemma refusal_uses [simp]: "uses (refusal b e) = None"
  by (simp add: refusal_def)

lemma started_uses: "uses (caller_started r k c) = Some j \<Longrightarrow> j = k \<and> (\<exists>u. r = Inr u)"
  by (auto simp: caller_started_def split: sum.splits)

lemma caller_moves_evolves:
  assumes "pool_inv c" and "caller_in c x" and run: "\<forall>s\<in>set (sessions c). session_run digest order v s"
    and rdy: "\<And>k. uses x = Some k \<Longrightarrow> ready c k" and move: "caller_moves now x n c = Some (x', n', c')"
  shows "evolves digest order v c c' \<and> idle_ids c' \<subseteq> idle_ids c \<and> (\<forall>k. uses x' = Some k \<longrightarrow> uses x = Some k \<or> k \<in> idle_ids c)"
proof (cases x)
  case Called
  with move show ?thesis by (auto simp: evolves_same split: sum.splits)
next
  case Checked
  obtain r c1 where t: "take_idle now c = (r, c1)" by fastforce
  with take_idle_evolves [OF assms(1) t] Checked move show ?thesis by (cases r) auto
next
  case (Taken k b)
  with move show ?thesis by (auto simp: evolves_same split: if_splits prod.splits)
next
  case (Reserving k sid b)
  obtain r s where r: "reserve_locked now sid (sessions c ! k) = (r, s)" by fastforce
  have k: "k < length (sessions c)" "sid \<noteq> 0" using assms(2) Reserving by (simp_all add: caller_in_def)
  then have "session_step digest order v (sessions c ! k) s" using reserve_step [OF _ _ k(2) r] run rdy Reserving by simp
  then have "evolves digest order v c (update_session k (\<lambda>_. s) c)" using k by (intro evolves_update) simp_all
  with move Reserving r show ?thesis by (cases r) (auto simp: Let_def)
next
  case (Reserved k sid i)
  obtain r s where r: "open_reserved_stream now sid (sessions c ! k) = (r, s)" by fastforce
  let ?c = "update_session k (\<lambda>_. s) c"
  have k: "k < length (sessions c)" "sid \<noteq> 0" using assms(2) Reserved by (simp_all add: caller_in_def)
  then have "session_step digest order v (sessions c ! k) s" using r rdy Reserved by (auto intro: session_local step_open)
  then have ev: "evolves digest order v c ?c" using k by (intro evolves_update) simp_all
  show ?thesis
  proof (cases r)
    case None
    with move Reserved r ev show ?thesis by auto
  next
    case (Some result)
    with move Reserved r have "caller_opened result k sid i ?c = (x', c')" by (simp split: prod.splits)
    from opened_evolves [OF _ this] evolves_trans [OF ev] k Reserved show ?thesis by fastforce
  qed
qed (use move in simp_all)

section \<open>Every step keeps the sessions\<close>

lemma run_inv_dial:
  assumes inv: "run_inv digest order v p" and i: "i < length (callers p)" "callers p ! i = Dialling"
    and create: "create_session order v now d (pool p) = (r, c)"
    and x: "x = (case r of Inl e \<Rightarrow> Refused e | Inr (k, None) \<Rightarrow> Running k | Inr (k, Some result) \<Rightarrow> caller_started result k c)"
  shows "run_inv digest order v (moved i x n c p)"
proof (cases d)
  case (Inl e)
  with create x have c: "c = pool p" "x = Refused e" by (auto simp: create_session_def)
  have "owner_inv (moved i x n c p)" using owner_inv_dial [OF _ i create x] inv by (simp add: run_inv_def)
  with c show ?thesis by (intro run_inv_moved [OF inv]) (simp_all add: evolves_same)
next
  case (Inr u)
  let ?s0 = "new_client (length (sessions (pool p))) (pool_padding (pool p)) (max_session_age (pool p)) now"
  obtain res s where s: "run order v now (set_idle_sender ?s0) = (res, s)" by fastforce
  have c: "c = (pool p)\<lparr>sessions := sessions (pool p) @ [s]\<rparr>" "r = Inr (length (sessions (pool p)), res)"
    using create Inr s by (auto simp: create_session_def Let_def)
  have "res = None \<or> (\<exists>e. res = Some (Inl e))"
    using s by (auto simp: run_def write_control_def enqueue_frame_def set_idle_sender_def new_client_def session_new_def
        split: sum.splits)
  with x c have x': "uses x = None" by (auto simp: caller_started_def)
  have "session_step digest order v ?s0 (set_idle_sender ?s0)" by (blast intro: session_local step_idle_sender)
  moreover have "session_step digest order v (set_idle_sender ?s0) s" using s by (blast intro: session_local step_run)
  ultimately have "session_run digest order v s" unfolding session_run_def by (meson rtranclp.intros)
  moreover have "k \<in> in_use (moved i x n c p) \<Longrightarrow> k \<in> in_use p" for k
    using x' by (auto simp: in_use_def moved_def c dest: uses_update)
  moreover have "k \<in> in_use p \<Longrightarrow> ready c k" for k
    using inv in_use_less [of p k] by (simp add: run_inv_def c nth_append)
  ultimately show ?thesis
    using inv owner_inv_dial [OF _ i create x] by (auto simp: run_inv_def moved_def c)
qed

lemma run_inv_received:
  assumes inv: "run_inv digest order v p" and k: "k < length (sessions (pool p))" and pos: "0 < idle_notices (sessions (pool p) ! k)"
    and r: "idle_received now k (pool p) = (go_on, c)"
  shows "run_inv digest order v (p\<lparr>pool := c, returning := (if go_on then returning p @ [k] else returning p)\<rparr>)" (is "run_inv _ _ _ ?p")
proof (rule run_inv_keep [OF inv])
  let ?f = "\<lambda>s. s\<lparr>idle_notices := idle_notices s - 1\<rparr>"
  have "session_step digest order v (sessions (pool p) ! k) (?f (sessions (pool p) ! k))"
    using pos by (blast intro: session_local step_idle_received)
  then have ev: "evolves digest order v (pool p) (update_session k ?f (pool p))" using k by (intro evolves_update) simp_all
  moreover have "evolves digest order v (update_session k ?f (pool p)) (update_session k shutdown (update_session k ?f (pool p)))"
    using k shutdown_steps by (intro evolves_update) simp_all
  ultimately show ev': "evolves digest order v (pool p) (pool ?p)"
    using r evolves_trans by (auto simp: idle_received_def Let_def split: if_splits)
  show "owner_inv ?p" using owner_inv_received [OF _ k pos r] inv by (simp add: run_inv_def)
  have "session_run digest order v (sessions (pool p) ! k)" using inv k by (simp add: run_inv_def)
  from session_run_inv(2,3) [OF this] pos have "ready (pool p) k" by (auto simp: unread_def load_def)
  then have "ready c k" using evolves_ready [OF ev' k] by simp
  then show "j \<in> in_use p \<or> ready (pool ?p) j" if "j \<in> in_use ?p" for j
    using that idle_received_fields [OF r] by (auto simp: in_use_def split: if_splits)
qed

lemma run_inv_pooled:
  assumes inv: "run_inv digest order v p" and k: "k \<in> set (returning p)"
  shows "run_inv digest order v (p\<lparr>pool := idle_pooled now k (pool p), returning := remove1 k (returning p)\<rparr>)" (is "run_inv _ _ _ ?p")
proof (rule run_inv_keep [OF inv])
  show "owner_inv ?p" using owner_inv_pooled [OF _ k] inv by (simp add: run_inv_def)
  have "k < length (sessions (pool p))" using inv k by (simp add: run_inv_def owner_inv_def)
  then show "evolves digest order v (pool p) (pool ?p)"
    using shutdown_steps by (auto simp: idle_pooled_def evolves_same intro: evolves_update)
  show "j \<in> in_use p \<or> ready (pool ?p) j" if "j \<in> in_use ?p" for j
    using that k by (auto simp: in_use_def idle_pooled_def split: if_splits dest: set_remove1_subset [THEN subsetD])
qed

lemma run_inv_client:
  assumes "run_inv digest order v p" and "owner_inv (p\<lparr>pool := c\<rparr>)" and "evolves digest order v (pool p) c"
    and "idle_ids c \<subseteq> idle_ids (pool p)"
  shows "run_inv digest order v (p\<lparr>pool := c\<rparr>)"
  using assms(3,4) by (intro run_inv_keep [OF assms(1,2)]) (auto simp: in_use_def)

lemma run_inv_move:
  assumes inv: "run_inv digest order v p" and i: "i < length (callers p)"
    and move: "caller_moves now (callers p ! i) (counter p) (pool p) = Some (x, n, c)"
    and own: "owner_inv (moved i x n c p)"
  shows "run_inv digest order v (moved i x n c p)"
proof -
  have used: "uses (callers p ! i) = Some k \<Longrightarrow> k \<in> in_use p" for k using i by (auto simp: in_use_def)
  then have "uses (callers p ! i) = Some k \<Longrightarrow> ready (pool p) k" for k using inv by (simp add: run_inv_def)
  moreover have "pool_inv (pool p)" "caller_in (pool p) (callers p ! i)"
    "\<forall>s\<in>set (sessions (pool p)). session_run digest order v s"
    using inv i by (simp_all add: run_inv_def owner_inv_def)
  ultimately have m: "evolves digest order v (pool p) c \<and> idle_ids c \<subseteq> idle_ids (pool p) \<and>
      (\<forall>k. uses x = Some k \<longrightarrow> uses (callers p ! i) = Some k \<or> k \<in> idle_ids (pool p))"
    using move by (intro caller_moves_evolves) simp_all
  then have "uses x = Some k \<Longrightarrow> k \<in> in_use p" for k using used by (auto simp: in_use_def)
  with m own show ?thesis by (intro run_inv_moved [OF inv]) simp_all
qed

lemma run_inv_started:
  assumes inv: "run_inv digest order v p" and i: "i < length (callers p)" "callers p ! i = Running k"
    and ret: "op_returns now RunSession result (sessions (pool p) ! k) s"
    and own: "owner_inv (moved i (caller_started result k c) n c p)" and c: "c = update_session k (\<lambda>_. s) (pool p)"
  shows "run_inv digest order v (moved i (caller_started result k c) n c p)"
proof (rule run_inv_moved [OF inv own])
  have "caller_in (pool p) (callers p ! i)" using inv i(1) by (simp add: run_inv_def owner_inv_def)
  with i(2) have k: "k < length (sessions (pool p))" by (simp add: caller_in_def)
  then show "evolves digest order v (pool p) c"
    using op_returns_step [OF ret] unfolding c by (intro evolves_update) blast+
  show "j \<in> in_use p \<or> ready c j" if "uses (caller_started result k c) = Some j" for j
    using started_uses [OF that] run_returned_ready ret k by (auto simp: c sessions_update)
qed (simp add: c)

lemma run_inv_opened:
  assumes inv: "run_inv digest order v p" and i: "i < length (callers p)" "callers p ! i = Opening k sid j"
    and ret: "op_returns now (OpenReserved sid) result (sessions (pool p) ! k) s"
    and op: "caller_opened result k sid j (update_session k (\<lambda>_. s) (pool p)) = (x, c)"
    and own: "owner_inv (moved i x n c p)"
  shows "run_inv digest order v (moved i x n c p)"
proof (rule run_inv_moved [OF inv own])
  let ?c = "update_session k (\<lambda>_. s) (pool p)"
  have "caller_in (pool p) (callers p ! i)" using inv i(1) by (simp add: run_inv_def owner_inv_def)
  with i(2) have k: "k < length (sessions (pool p))" by (simp add: caller_in_def)
  then have "evolves digest order v (pool p) ?c" using op_returns_step [OF ret] by (intro evolves_update) blast+
  moreover note o = opened_evolves [OF _ op]
  ultimately show "evolves digest order v (pool p) c" using k by (auto intro: evolves_trans)
  show "idle_ids c \<subseteq> idle_ids (pool p)" using o(2) k by simp
  show "l \<in> in_use p \<or> ready c l" if "uses x = Some l" for l
    using that o(3) k i nth_mem [OF i(1)] by (force simp: in_use_def)
qed

lemma run_step:
  assumes "pool_step digest order v p p'" and inv: "run_inv digest order v p"
  shows "run_inv digest order v p'"
proof -
  have own: "owner_inv p" using inv by (simp add: run_inv_def)
  then have pool: "pool_inv (pool p)" by (simp add: owner_inv_def)
  have own': "owner_inv p'" using owner_step [OF assms(1) own] .
  note client = run_inv_client [OF inv]
  from assms(1) show ?thesis
  proof cases
    case pool_call
    with own' show ?thesis by (auto intro!: run_inv_keep [OF inv] simp: evolves_same in_use_def)
  next
    case (pool_session k s)
    with own' show ?thesis by (auto intro!: client evolves_update)
  next
    case (pool_idle_received k now go_on c)
    with run_inv_received [OF inv] show ?thesis by simp
  next
    case (pool_cleanup now timeout)
    with own' client_ops_evolve(1) [OF pool] gentle_ids [OF cleanup_gentle [OF pool]] show ?thesis by (simp add: client)
  next
    case pool_shutdown
    with own' client_ops_evolve(2) [OF pool] gentle_ids [OF client_shutdown_gentle [OF pool]] show ?thesis
      by (simp add: client)
  next
    case (pool_close_session k)
    with own' inv shutdown_steps show ?thesis
      by (auto intro!: client evolves_update simp: client_close_session_def evolves_same)
  next
    case (pool_started i k now result s c x)
    with run_inv_started [OF inv] own' show ?thesis by simp
  next
    case (pool_cut_off i k e)
    with own' show ?thesis by (auto intro!: run_inv_moved [OF inv] simp: evolves_same)
  next
    case (pool_gone i k b sid)
    with own' show ?thesis by (auto intro!: run_inv_moved [OF inv] simp: evolves_same)
  next
    case pool_cancel
    with own' show ?thesis by (auto intro!: client simp: evolves_same)
  qed (use own' in \<open>auto intro: run_inv_move [OF inv] run_inv_dial [OF inv] run_inv_opened [OF inv] run_inv_pooled [OF inv]\<close>)
qed

section \<open>Properties\<close>

definition pool_init :: "pool_system \<Rightarrow> bool" where
  "pool_init p \<longleftrightarrow> (\<exists>pf age n. p = pool_start pf age n)"

interpretation pools: invariant_system pool_init "pool_step digest order v" "run_inv digest order v"
  for digest order v
proof
  show "run_inv digest order v p" if "pool_init p" for p
    using that by (auto simp: pool_init_def pool_start_def client_new_def run_inv_def owner_inv_def pool_inv_def
        owners_def claims_of_def apart_def in_use_def)
qed (rule run_step)

lemma pool_reachable_inv:
  "(pool_step digest order v)\<^sup>*\<^sup>* (pool_start pf age n) p \<Longrightarrow> run_inv digest order v p"
  using pools.reachable_inv [of "pool_start pf age n" digest order v p] by (auto simp: pool_init_def)

lemma one_live_pump:
  assumes "session_inv s"
  shows "card {i. i < length (pumps s) \<and> \<not> pump_token (pumps s ! i)} \<le> 1"
proof (cases "streams s")
  case None
  with assms have "{i. i < length (pumps s) \<and> \<not> pump_token (pumps s ! i)} = {}"
    by (auto simp: session_inv_def linked_def)
  then show ?thesis by (simp only: card.empty zero_le)
next
  case (Some a)
  with assms have "{i. i < length (pumps s) \<and> \<not> pump_token (pumps s ! i)} \<subseteq> {stream_pump (snd a)}"
    by (cases a) (auto simp: session_inv_def linked_def)
  from card_mono [OF _ this] show ?thesis by simp
qed

text \<open>C4: However callers, returning sessions, cleanups and the shutdown interleave with the sessions' own
  tasks, the pool holds at most four idle sessions, none of them twice; an idle session has no stream
  and no caller is about to use it; two callers are never about to use the same session and never
  hold the same stream; and a session has one live stream at most.\<close>

theorem streams_are_exclusive:
  assumes "(pool_step digest order v)\<^sup>*\<^sup>* (pool_start pf age n) p"
  shows "pool_inv (pool p) \<and>
    (\<forall>k\<in>idle_ids (pool p). is_idle (sessions (pool p) ! k) \<and> (\<forall>x\<in>set (callers p). claims x \<noteq> Some k)) \<and>
    (\<forall>i<length (callers p). \<forall>j<length (callers p). i \<noteq> j \<longrightarrow>
       (\<forall>k. claims (callers p ! i) = Some k \<longrightarrow> claims (callers p ! j) \<noteq> Some k) \<and>
       (\<forall>k m. holds (callers p ! i) = Some (k, m) \<longrightarrow> holds (callers p ! j) \<noteq> Some (k, m))) \<and>
    (\<forall>s\<in>set (sessions (pool p)). card {i. i < length (pumps s) \<and> \<not> pump_token (pumps s ! i)} \<le> 1)"
proof -
  have inv: "run_inv digest order v p" using assms by (rule pool_reachable_inv)
  then have own: "owner_inv p" by (simp add: run_inv_def)
  have one: "owners k p \<le> 1" if "k < length (sessions (pool p))" for k using own that by (simp add: owner_inv_def)
  have "is_idle (sessions (pool p) ! k) \<and> (\<forall>x\<in>set (callers p). claims x \<noteq> Some k)" if k: "k \<in> idle_ids (pool p)" for k
  proof -
    have "k < length (sessions (pool p))" using own k by (auto simp: owner_inv_def pool_inv_def)
    from one [OF this] k have "load (sessions (pool p) ! k) = 0" "claims_of k (callers p) = 0" by (simp_all add: owners_def)
    then show ?thesis using claims_of_pos [of _ "callers p" k] by (auto simp: load_0 is_idle_def)
  qed
  moreover have "claims (callers p ! j) \<noteq> Some k"
    if ij: "i < length (callers p)" "j < length (callers p)" "i \<noteq> j" and c: "claims (callers p ! i) = Some k" for i j k
  proof
    assume "claims (callers p ! j) = Some k"
    with claims_of_two [OF ij c] have "2 \<le> owners k p" by (simp add: owners_def)
    moreover have "k < length (sessions (pool p))" using own ij(1) c by (auto simp: owner_inv_def caller_in_def)
    ultimately show False using one [of k] by simp
  qed
  moreover have "apart (callers p)" "pool_inv (pool p)" using own by (simp_all add: owner_inv_def)
  moreover have "\<forall>s\<in>set (sessions (pool p)). session_inv s" using inv session_run_inv(1) by (auto simp: run_inv_def)
  moreover have "holds (callers p ! j) \<noteq> Some (k, m)"
    if "i < length (callers p)" "j < length (callers p)" "i \<noteq> j" "holds (callers p ! i) = Some (k, m)" for i j k m
    using that apartD [OF \<open>apart (callers p)\<close>, of i j "(k, m)"] by blast
  ultimately show ?thesis using one_live_pump by simp
qed

lemma granting_steps:
  obtains p where "(pool_step digest id [])\<^sup>*\<^sup>* (pool_start sample_pf 0 0) p" and "callers p = [Granted 0 1 0, Running 1]"
    and "length (sessions (pool p)) = 2"
  using granting_run exec_pool_turns_steps by blast

theorem streams_are_exclusive_witness:
  "\<exists>p. (pool_step (\<lambda>_. []) id [])\<^sup>*\<^sup>* (pool_start sample_pf 0 0) p \<and> callers p = [Granted 0 1 0, Running 1] \<and>
     card {i. i < length (pumps (sessions (pool p) ! 0)) \<and> \<not> pump_token (pumps (sessions (pool p) ! 0) ! i)} \<le> 1"
proof -
  obtain p where p: "(pool_step (\<lambda>_. []) id [])\<^sup>*\<^sup>* (pool_start sample_pf 0 0) p" "callers p = [Granted 0 1 0, Running 1]"
    "length (sessions (pool p)) = 2" by (rule granting_steps)
  then have "sessions (pool p) ! 0 \<in> set (sessions (pool p))" by simp
  with streams_are_exclusive [OF p(1)] p show ?thesis by blast
qed

text \<open>C23: Every session of a pool, at any time, is in a state that a client session reaches by its own
  steps, so that what is shown of sessions holds of pooled ones; and one that waits in the pool or is
  held by a caller has taken its reader.\<close>

theorem pooled_sessions_are_sessions:
  assumes "(pool_step digest order v)\<^sup>*\<^sup>* (pool_start pf age n) p"
  shows "(\<forall>s\<in>set (sessions (pool p)). \<exists>sid pf age now. (session_step digest order v)\<^sup>*\<^sup>* (new_client sid pf age now) s) \<and>
    (\<forall>k\<in>in_use p. k < length (sessions (pool p)) \<and> \<not> reader_present (sessions (pool p) ! k))"
  using pool_reachable_inv [OF assms] in_use_less by (auto simp: run_inv_def session_run_def)

theorem pooled_sessions_are_sessions_witness:
  "\<exists>p. (pool_step (\<lambda>_. []) id [])\<^sup>*\<^sup>* (pool_start sample_pf 0 0) p \<and> callers p = [Granted 0 1 0, Running 1] \<and>
     \<not> reader_present (sessions (pool p) ! 0)"
proof -
  obtain p where p: "(pool_step (\<lambda>_. []) id [])\<^sup>*\<^sup>* (pool_start sample_pf 0 0) p" "callers p = [Granted 0 1 0, Running 1]"
    "length (sessions (pool p)) = 2" by (rule granting_steps)
  then have "0 \<in> in_use p" by (simp add: in_use_def)
  with pooled_sessions_are_sessions [OF p(1)] p show ?thesis by blast
qed

text \<open>A caller that has come to the reservation gets its stream, unless the session is closed or has
  outlived its maximum age: the session is never taken by another stream.\<close>

theorem reservation_never_blocks:
  assumes "(pool_step digest order v)\<^sup>*\<^sup>* (pool_start pf age n) p"
    and "i < length (callers p)" and "callers p ! i = Reserving k sid b"
    and "reserve_locked now sid (sessions (pool p) ! k) = (r, s)"
  shows "r = (if closed (sessions (pool p) ! k) then Inl BrokenPipe
      else if is_expired now (sessions (pool p) ! k) then Inl TimedOut else Inr sid)"
proof -
  have own: "owner_inv p" using pool_reachable_inv [OF assms(1)] by (simp add: run_inv_def)
  have "caller_in (pool p) (callers p ! i)" using own assms(2) by (simp add: owner_inv_def)
  then have "owners k p \<le> 1" using own assms(3) by (simp add: owner_inv_def caller_in_def)
  moreover have "0 < claims_of k (callers p)" using claims_of_pos [OF nth_mem [OF assms(2)]] assms(3) by simp
  ultimately have "load (sessions (pool p) ! k) = 0" by (simp add: owners_def)
  then have "streams (sessions (pool p) ! k) = None" by (simp add: load_0)
  with assms(4) show ?thesis by (auto simp: reserve_locked_def split: if_splits prod.splits)
qed

end
