(* ===== verification/Session_Progress.thy ===== *)
theory Session_Progress
  imports Session_Properties Session_Runs
begin

text \<open>
  The progress of a session: the writer task of an open session is alive and can empty the queues,
  which lets every suspended operation go on, and a control request is written in its turn, however
  many requests come after it.
\<close>

section \<open>The writer lives as long as the session\<close>

interpretation alive_kept: kept_steps "\<lambda>s. close_token s \<or> writer_alive s"
  by unfold_locales (auto simp: primitive_updates split: primitive_splits)

interpretation alive: invariant_system session_init "session_step digest order v" "\<lambda>s. close_token s \<or> writer_alive s"
  for digest order v
proof
  show "close_token s \<or> writer_alive s" if "session_init s" for s
    using that by (auto simp: session_init_def new_client_def new_server_def session_new_def)
qed (rule alive_kept.step_keep)

section \<open>Emptying the queues\<close>

text \<open>The steps of the writer task while the transport accepts what it writes.\<close>

inductive writer_step :: "session \<Rightarrow> session \<Rightarrow> bool" where
    writer_takes: "writer_take s = Some s' \<Longrightarrow> writer_step s s'"
  | writer_finishes: "writer_finish (Inr ()) s = Some s' \<Longrightarrow> writer_step s s'"

definition work :: "session \<Rightarrow> nat" where
  "work s = 2 * (length (control_queue s) + length (data_queue s)) + of_bool (writing s \<noteq> None)"

lemma writer_step_session: "writer_step s s' \<Longrightarrow> session_step digest order v s s'"
  by (induction rule: writer_step.induct) (blast intro: session_local step_writer_take step_writer_finish)+

lemma writer_steps_session: "(writer_step ^^ n) s s' \<Longrightarrow> (session_step digest order v)\<^sup>*\<^sup>* s s'"
  by (induction n arbitrary: s')
    (auto elim!: relcomppE intro: rtranclp.rtrancl_into_rtrancl writer_step_session)

lemma writer_works:
  assumes "writer_alive s" and "\<not> close_token s" and "0 < work s"
  obtains s' where "writer_step s s'" and "work s = Suc (work s')" and "writer_alive s'" and "\<not> close_token s'"
    and "tasks s' = tasks s"
proof (cases "writing s")
  case (Some r)
  then show ?thesis
    using that [OF writer_finishes] assms by (auto simp: writer_finish_def work_def is_ok_def Let_def)
next
  case None
  then show ?thesis
    using that [OF writer_takes] assms
    by (cases "control_queue s"; cases "data_queue s") (auto simp: writer_take_def work_def)
qed

lemma writer_drains:
  "writer_alive s \<Longrightarrow> \<not> close_token s \<Longrightarrow>
   \<exists>s'. (writer_step ^^ work s) s s' \<and> work s' = 0 \<and> writer_alive s' \<and> \<not> close_token s' \<and> tasks s' = tasks s"
proof (induction "work s" arbitrary: s)
  case 0
  then show ?case by (intro exI [of _ s]) simp
next
  case (Suc n)
  obtain t where t: "writer_step s t" "work s = Suc (work t)" "writer_alive t" "\<not> close_token t" "tasks t = tasks s"
    using writer_works [OF Suc.prems] Suc.hyps(2) by (metis zero_less_Suc)
  with Suc.hyps(1) [of t] Suc.hyps(2) obtain s' where "(writer_step ^^ n) t s'" "work s' = 0" "writer_alive s'" "\<not> close_token s'" "tasks s' = tasks s"
    by auto
  with relpowp_Suc_I2 [of writer_step, OF t(1)] Suc.hyps(2) show ?case by metis
qed

text \<open>C3: Every suspended operation of an open session can go on: in every reachable state at most 257
  steps of the writer task, while the transport accepts what it writes, empty both queues without
  touching the suspended operations; then each operation that waits for its request has an answer
  and each that waits for room in a queue is let in.\<close>

theorem suspended_operations_resume:
  assumes "session_init s0" and "(session_step digest order v)\<^sup>*\<^sup>* s0 s" and "\<not> closed s"
  shows "\<exists>n\<le>257. \<exists>s'. (writer_step ^^ n) s s' \<and> tasks s' = tasks s \<and>
    control_queue s' = [] \<and> data_queue s' = [] \<and> writing s' = None \<and>
    (\<forall>i k. AwaitResult i k \<in> set (tasks s) \<longrightarrow> (\<exists>r. request_answer i r s')) \<and>
    (\<forall>q bs d dl k. AwaitPermit q bs d dl k \<in> set (tasks s) \<longrightarrow>
       permit_granted q bs d k (drop_task (AwaitPermit q bs d dl k) s') \<noteq> None)"
proof -
  have inv: "session_inv s" using session.reachable_inv [OF assms(1,2)] .
  then have "\<not> close_token s" using assms(3) by (simp add: session_inv_def)
  moreover from this have "writer_alive s" using alive.reachable_inv [OF assms(1,2)] by simp
  ultimately obtain s' where s': "(writer_step ^^ work s) s s'" "work s' = 0" "writer_alive s'" "tasks s' = tasks s"
    using writer_drains by blast
  have "(session_step digest order v)\<^sup>*\<^sup>* s0 s'"
    using assms(2) writer_steps_session [OF s'(1)] by (rule rtranclp_trans)
  then have w: "waiters_inv s'" using waiters.reachable_inv [OF assms(1)] by blast
  have empty: "control_queue s' = []" "data_queue s' = []" "writing s' = None" using s'(2) by (auto simp: work_def)
  have "\<exists>r. request_answer i r s'" if "AwaitResult i k \<in> set (tasks s)" for i k
  proof -
    have "i \<in> set (result_ids (tasks s'))" using that s'(4) by (force simp: result_ids_def map_filter_def)
    with w empty s'(3) have "i \<in> fst ` set (completions s')" by (auto simp: waiters_inv_def pending_ids_def)
    then show ?thesis by (auto simp: request_answer_def)
  qed
  moreover have "permit_granted q bs d k (drop_task t s') \<noteq> None" for q bs d k t
    using empty s'(3) by (cases q) (simp_all add: permit_granted_def queue_of_def drop_task_def WRITE_QUEUE_CAPACITY_def Let_def)
  moreover have "work s \<le> 257" using inv by (simp add: session_inv_def work_def WRITE_QUEUE_CAPACITY_def)
  ultimately show ?thesis using s'(1,4) empty by blast
qed

theorem suspended_operations_resume_witness:
  "\<exists>n\<le>257. \<exists>s'. (writer_step ^^ n) sample_opening s' \<and> (\<exists>r. request_answer 1 r s')"
proof -
  have "\<not> closed sample_opening" "AwaitResult 1 (OpenReserved 5) \<in> set (tasks sample_opening)"
    by (simp_all add: client_eval)
  with suspended_operations_resume [OF sample_client_reachable(1,3)] show ?thesis by blast
qed

section \<open>Control requests in their turn\<close>

text \<open>
  The request is closed off by the session, has been written since the first \<open>m\<close> requests, is
  being written, or is in its queue, with its turn before \<open>last_turn\<close> requests have been written.
\<close>

definition in_turn :: "write_request \<Rightarrow> nat \<Rightarrow> nat \<Rightarrow> session \<Rightarrow> bool" where
  "in_turn r m last_turn s \<longleftrightarrow>
     close_token s \<or> m \<le> length (served s) \<and>
     (bytes r \<in> set (drop m (served s)) \<or>
      writing s = Some r \<and> length (served s) \<le> last_turn \<or>
      r \<in> set (take (Suc last_turn - length (served s) - of_bool (writing s \<noteq> None)) (control_queue s)))"

lemma in_turn_append: "in_turn r m n s \<Longrightarrow> in_turn r m n (s\<lparr>control_queue := control_queue s @ rs\<rparr>)"
  by (auto simp: in_turn_def)

lemma in_turn_take:
  assumes "in_turn r m n s" and "writer_take s = Some s'"
  shows "in_turn r m n s'"
proof (cases "control_queue s")
  case Nil
  with assms show ?thesis by (auto simp: in_turn_def writer_take_def split: if_splits list.splits)
next
  case (Cons x xs)
  with assms(2) have s': "s' = s\<lparr>control_queue := xs, writing := Some x\<rparr>" "writing s = None"
    by (auto simp: writer_take_def split: if_splits)
  with assms(1) Cons show ?thesis
    by (cases "Suc n - length (served s)") (auto simp: in_turn_def)
qed

lemma in_turn_finish:
  assumes "in_turn r m n s" and "writer_finish res s = Some s'"
  shows "in_turn r m n s'"
proof (cases res)
  case (Inl e)
  with assms(2) show ?thesis
    by (auto simp: in_turn_def writer_finish_def writer_exit_def is_ok_def Let_def split: if_splits option.splits)
next
  case (Inr u)
  with assms(2) obtain w where "writing s = Some w" "\<not> close_token s" "close_token s' = close_token s"
    "served s' = served s @ [bytes w]" "writing s' = None" "control_queue s' = control_queue s"
    by (auto simp: writer_finish_def is_ok_def Let_def split: if_splits option.splits)
  with assms(1) show ?thesis by (auto simp: in_turn_def)
qed

interpretation turn_kept: kept_steps "in_turn r m n" for r m n
proof
  fix s s' fr q bs d dl k
  show "in_turn r m n s \<Longrightarrow> in_turn r m n (snd (queue_control fr s))"
    by (auto simp: queue_control_def push_request_def in_turn_append split: sum.splits)
  show "in_turn r m n s \<Longrightarrow> permit_granted q bs d k (drop_task (AwaitPermit q bs d dl k) s) = Some s' \<Longrightarrow> in_turn r m n s'"
    using in_turn_append [of r m n "drop_task (AwaitPermit q bs d dl k) s"]
    by (auto simp: permit_granted_def push_request_def Let_def in_turn_def drop_task_def split: if_splits queue_sel.splits)
qed ((erule (1) in_turn_take in_turn_finish)
    | (auto simp: in_turn_def primitive_updates split: primitive_splits; fail))+

text \<open>C13: A control request is written in its turn. Whatever the other tasks do and however many requests
  come later: of a session that is not closed, as soon as more requests have been written than stood
  before it, the one being written included, the request has been written too.\<close>

theorem control_requests_in_turn:
  assumes "i < length (control_queue s)" and "(session_step digest order v)\<^sup>*\<^sup>* s s'" and "\<not> close_token s'"
    and "length (served s) + i + of_bool (writing s \<noteq> None) < length (served s')"
  shows "bytes (control_queue s ! i) \<in> set (drop (length (served s)) (served s'))"
proof -
  let ?r = "control_queue s ! i" and ?n = "length (served s) + i + of_bool (writing s \<noteq> None)"
  have "?r \<in> set (take (Suc i) (control_queue s))" using assms(1) by (simp add: take_Suc_conv_app_nth)
  then have "in_turn ?r (length (served s)) ?n s" by (simp add: in_turn_def)
  then have "in_turn ?r (length (served s)) ?n s'"
    by (rule session.stable_reachable [of "in_turn ?r (length (served s)) ?n", OF _ _ assms(2), rotated])
      (rule turn_kept.step_keep)
  with assms(3,4) show ?thesis by (auto simp: in_turn_def)
qed

text \<open>The settings of a client session wait in the control queue and are written.\<close>

definition queued_settings :: session where
  "queued_settings = the (exec_moves [Run, Permit] (new_client 1 sample_factory0 0 0))"

theorem control_requests_in_turn_witness:
  "\<exists>s'. exec_moves [Take, Finish] queued_settings = Some s' \<and>
     bytes (control_queue queued_settings ! 0) \<in> set (drop 0 (served s'))"
proof -
  obtain s' where s': "exec_moves [Take, Finish] queued_settings = Some s'" "\<not> close_token s'" "length (served s') = 1"
    and q: "length (control_queue queued_settings) = 1" "served queued_settings = []" "writing queued_settings = None"
    by (simp add: queued_settings_def move_eval sample_factory0_def)
  from control_requests_in_turn [of 0, OF _ exec_moves_steps [OF s'(1)] s'(2)] s' q show ?thesis by simp
qed

end
