(* ===== verification/Session_Wire.thy ===== *)
theory Session_Wire
  imports Session_Properties
begin

text \<open>
  What a session hands to its transport: every request is the encoding of one frame that the
  checks of \<^verbatim>\<open>receive_loop\<close> admit, whatever the interleaving of the tasks, and requests that were
  written stay written. \<open>sent_frames\<close> is the sequence of frames a session has written.
\<close>

section \<open>Requests are encoded frames\<close>

definition task_wired :: "task \<Rightarrow> bool" where
  "task_wired t = (case t of AwaitPermit _ bs _ _ _ \<Rightarrow> encodes_frame bs | _ \<Rightarrow> True)"

definition wire_inv :: "session \<Rightarrow> bool" where
  "wire_inv s \<longleftrightarrow>
     (\<forall>r\<in>set (control_queue s) \<union> set (data_queue s) \<union> set_option (writing s). encodes_frame (bytes r)) \<and>
     (\<forall>bs\<in>set (served s). encodes_frame bs) \<and> (\<forall>t\<in>set (tasks s). task_wired t)"

lemma task_wired_simps [simp]:
  "task_wired (AwaitPermit q bs d dl k) = encodes_frame bs" "task_wired (AwaitResult i k)"
  "task_wired (AwaitFinSend i sid)" "task_wired (AwaitCloseTimeout sid n)"
  by (simp_all add: task_wired_def)

lemma plain_task_wired: "plain_task t \<Longrightarrow> task_wired t"
  by (simp add: plain_task_def split: task.splits)

text \<open>An update that adds no request keeps the invariant.\<close>

lemma wire_no_request:
  assumes "wire_inv s" and "control_queue s' = control_queue s" and "data_queue s' = data_queue s"
    and "writing s' = writing s" and "served s' = served s" and "\<forall>t\<in>set (tasks s'). t \<in> set (tasks s) \<or> task_wired t"
  shows "wire_inv s'"
  using assms unfolding wire_inv_def by auto

lemma wire_drop_task: "wire_inv s \<Longrightarrow> wire_inv (drop_task t s)"
  by (erule wire_no_request) (auto simp: drop_task_def dest: set_remove1_subset [THEN subsetD])

lemma wire_push_send: "push_send i m s = (r, s') \<Longrightarrow> wire_inv s \<Longrightarrow> wire_inv s'"
  by (erule wire_no_request) (auto simp: push_send_def update_pump_def Let_def split: if_splits)

lemma wire_control: "wire_inv s \<Longrightarrow> frame_ok fr \<Longrightarrow> wire_inv (snd (queue_control fr s))"
  by (auto simp: queue_control_def push_request_def wire_inv_def encodes_frame_def split: sum.splits)

lemma wire_permit:
  assumes "wire_inv s" and "AwaitPermit q bs d dl k \<in> set (tasks s)"
    and "permit_granted q bs d k (drop_task (AwaitPermit q bs d dl k) s) = Some s'"
  shows "wire_inv s'"
proof -
  have "encodes_frame bs" using assms(1,2) unfolding wire_inv_def by fastforce
  with wire_drop_task [OF assms(1), of "AwaitPermit q bs d dl k"] assms(3) show ?thesis
    by (cases q) (auto simp: permit_granted_def push_request_def wire_inv_def Let_def split: if_splits)
qed

lemma wire_take: "wire_inv s \<Longrightarrow> writer_take s = Some s' \<Longrightarrow> wire_inv s'"
  by (auto simp: writer_take_def wire_inv_def split: if_splits list.splits)

lemma wire_finish: "wire_inv s \<Longrightarrow> writer_finish res s = Some s' \<Longrightarrow> wire_inv s'"
  by (auto simp: writer_finish_def writer_exit_def wire_inv_def Let_def split: if_splits option.splits)

interpretation wire_kept: kept_steps wire_inv
proof
  fix s :: session and i sid r s1 st bs t and Q :: "task \<Rightarrow> bool"
  show "wire_inv s \<Longrightarrow> push_send i PushFin (drop_task (AwaitFinSend i sid) s) = (r, s1) \<Longrightarrow> wire_inv s1"
    using wire_push_send wire_drop_task by blast
  show "wire_inv s \<Longrightarrow> plain_task t \<Longrightarrow> wire_inv (s\<lparr>tasks := tasks s @ [t]\<rparr>)"
    by (erule wire_no_request) (auto dest: plain_task_wired)
  show "wire_inv s \<Longrightarrow> push_send (stream_pump st) PushFin s = (r, s1) \<Longrightarrow>
      wire_inv s1 \<and> wire_inv (s1\<lparr>tasks := tasks s1 @ [AwaitFinSend (stream_pump st) sid]\<rparr>)"
    using wire_push_send [of "stream_pump st" PushFin s r s1] by (auto intro!: wire_no_request [of s1])
  show "wire_inv s \<Longrightarrow> push_send (stream_pump st) (PushData bs) s = (Sent, s1) \<Longrightarrow>
      wire_inv (take_slots (stream_pump st) (length bs) s1)"
    using wire_push_send [of "stream_pump st" "PushData bs" s Sent s1]
    by (auto simp: take_slots_def update_pump_def intro!: wire_no_request [of s1])
qed ((erule (1) wire_control wire_take wire_finish) | (erule wire_drop_task) | (erule (2) wire_permit)
    | (simp add: wire_inv_def writer_exit_def cancel_stream_def update_pump_def forget_completion_def; fail)
    | (erule wire_no_request; auto simp: stream_state_new_def forget_completion_def drop_task_def
        dest: set_remove1_subset [THEN subsetD]; fail))+

lemma wire_init: "session_init s \<Longrightarrow> wire_inv s"
  by (auto simp: session_init_def new_client_def new_server_def session_new_def wire_inv_def)

interpretation wire: invariant_system session_init "session_step digest order v" wire_inv
  for digest order v
  using wire_init wire_kept.step_keep by unfold_locales

section \<open>Frames on the wire\<close>

definition frame_of :: "byte list \<Rightarrow> frame option" where
  "frame_of bs = (case read_from_or_eof (Reader bs None) of Inr (fr, _) \<Rightarrow> fr | Inl _ \<Rightarrow> None)"

definition sent_frames :: "session \<Rightarrow> frame list" where
  "sent_frames s = List.map_filter frame_of (served s)"

lemma frame_of_encode: "encode fr = Inr bs \<Longrightarrow> frame_of bs = Some fr"
  using read_from_or_eof_encode [of fr bs "[]" None] by (simp add: frame_of_def)

lemma sent_frames_ok: "wire_inv s \<Longrightarrow> fr \<in> set (sent_frames s) \<Longrightarrow> frame_ok fr"
  by (auto simp: sent_frames_def map_filter_def wire_inv_def encodes_frame_def) (metis frame_of_encode option.inject)

text \<open>What was written stays written.\<close>

interpretation served_kept: kept_steps "\<lambda>s. prefix k (served s)" for k
  by unfold_locales
    (auto simp: primitive_updates split: primitive_splits)

lemma sent_frames_grow:
  assumes "local_step order v s s' \<or> receive_step digest order fr s s'"
  shows "prefix (sent_frames s) (sent_frames s')"
proof -
  have "prefix (served s) (served s')"
    using assms served_kept.local_step_keep [of order v s s' "served s"]
      served_kept.receive_step_keep [of digest order fr s s' "served s"] by blast
  then show ?thesis by (auto simp: sent_frames_def map_filter_def prefix_def)
qed

lemma encode_sent_frames:
  "\<forall>bs\<in>set bss. encodes_frame bs \<Longrightarrow>
   encode_all encode (List.map_filter frame_of bss) = Inr (concat bss) \<and> length (List.map_filter frame_of bss) = length bss"
proof (induction bss)
  case (Cons bs bss)
  then obtain fr where "encode fr = Inr bs" by (auto simp: encodes_frame_def)
  with Cons frame_of_encode [of fr bs] show ?case by (simp add: map_filter_def)
qed (simp add: map_filter_def)

section \<open>Admitted frames\<close>

lemma queue_control_valid: "queue_control fr s = (Inl e, t) \<Longrightarrow> e \<noteq> InvalidData"
  by (auto simp: queue_control_def encode_def split: sum.splits if_splits)

lemma push_admitted: "fst (on_receive_push now sid bs s) \<noteq> RecvStop (Inl InvalidData)"
  by (auto simp: on_receive_push_def split: option.splits prod.splits try_send.splits sum.splits
      dest: queue_control_valid)

lemma syn_admitted:
  "fst (on_receive_syn_cmd now sid s) = RecvStop (Inl InvalidData) \<Longrightarrow> \<not> is_client s \<and> \<not> received_settings s"
  by (auto simp: on_receive_syn_cmd_def Let_def split: if_splits option.splits prod.splits sum.splits
      dest: queue_control_valid)

lemma settings_admitted: "fst (on_receive_settings order bs s) \<noteq> RecvStop (Inl InvalidData)"
  by (auto simp: on_receive_settings_def Let_def split: if_splits prod.splits sum.splits dest: queue_control_valid)

lemma heart_admitted: "fst (on_receive_heart_request sid s) \<noteq> RecvStop (Inl InvalidData)"
  by (auto simp: on_receive_heart_request_def split: prod.splits sum.splits dest: queue_control_valid)

lemma quiet_admitted:
  "fst (on_receive_fin_cmd now sid s) = RecvContinue" "fst (on_receive_synack now sid bs s) = RecvContinue"
  "fst (on_receive_server_settings bs s) = RecvContinue" "fst (on_receive_update_padding digest bs s) = RecvContinue"
  by (auto simp: on_receive_fin_cmd_def on_receive_synack_def on_receive_server_settings_def
      on_receive_update_padding_def Let_def split: option.splits prod.splits try_send.splits)

text \<open>A frame that passes the checks is refused for its place in the protocol only.\<close>

lemma admitted_frame:
  assumes "frame_ok fr" and "fst (receive_frame digest order now fr s) = RecvStop (Inl InvalidData)"
  shows "command fr = Syn \<and> \<not> is_client s \<and> \<not> received_settings s"
  using assms syn_admitted [of now "stream_id fr" "s\<lparr>last_activity := now\<rparr>"]
  by (cases "command fr")
    (auto simp: receive_frame_def frame_ok_def push_admitted settings_admitted heart_admitted quiet_admitted Let_def
      split: if_splits)

text \<open>C5: Sessions are well typed: everything a session has written is the encoding of a sequence of
  frames, one for each request, every one of them with a stream id and a payload that its command
  allows; so a peer never refuses one of them as invalid data, but for a SYN that arrives at a
  server before the settings.\<close>

theorem sent_frames_well_typed:
  assumes "session_init s0" and "(session_step digest order v)\<^sup>*\<^sup>* s0 s"
  shows "encode_all encode (sent_frames s) = Inr (concat (served s)) \<and> length (sent_frames s) = length (served s) \<and>
    (\<forall>fr\<in>set (sent_frames s). valid_stream_id (command fr) (stream_id fr) \<and> (data fr = [] \<or> allows_data (command fr)) \<and>
      (fst (receive_frame digest' order' now fr peer) = RecvStop (Inl InvalidData) \<longrightarrow>
        command fr = Syn \<and> \<not> is_client peer \<and> \<not> received_settings peer))"
proof -
  have w: "wire_inv s" using assms by (rule wire.reachable_inv)
  then have "\<forall>bs\<in>set (served s). encodes_frame bs" by (simp add: wire_inv_def)
  from encode_sent_frames [OF this] have "encode_all encode (sent_frames s) = Inr (concat (served s))"
    "length (sent_frames s) = length (served s)" by (simp_all add: sent_frames_def)
  moreover have "frame_ok fr" if "fr \<in> set (sent_frames s)" for fr using w that by (rule sent_frames_ok)
  ultimately show ?thesis using admitted_frame unfolding frame_ok_def by blast
qed

text \<open>A client session that has written the SYN of stream 5.\<close>

definition sent_moves :: "move list" where
  "sent_moves = reserved_moves @ [Open 5, Permit, Take, Finish]"

definition sample_sent :: session where
  "sample_sent = the (exec_moves sent_moves (new_client 1 sample_factory0 0 0))"

lemma sample_sent_reachable: "(session_step (\<lambda>_. []) id [])\<^sup>*\<^sup>* (new_client 1 sample_factory0 0 0) sample_sent"
proof -
  have "\<not> Option.is_none (exec_moves sent_moves (new_client 1 sample_factory0 0 0))"
    by (simp add: sent_moves_def client_eval)
  then show ?thesis unfolding sample_sent_def by (rule some_the [THEN exec_moves_steps])
qed

lemma sample_sent_served: "\<exists>bs. served sample_sent = [bs, [1, 0, 0, 0, 5, 0, 0]]"
  by (simp add: sample_sent_def sent_moves_def client_eval)

theorem sent_frames_well_typed_witness:
  "length (sent_frames sample_sent) = 2 \<and> last (sent_frames sample_sent) = frame_new Syn 5 \<and> valid_stream_id Syn 5"
proof -
  note typed = sent_frames_well_typed [OF sample_client_reachable(1) sample_sent_reachable, of "\<lambda>_. []" id 0 sample_server]
  obtain bs where s: "served sample_sent = [bs, [1, 0, 0, 0, 5, 0, 0]]" using sample_sent_served ..
  have "encode (frame_new Syn 5) = Inr [1, 0, 0, 0, 5, 0, 0]" by (simp add: encode_new to_be_bytes32_def)
  from frame_of_encode [OF this] have "last (sent_frames sample_sent) = frame_new Syn 5"
    "frame_new Syn 5 \<in> set (sent_frames sample_sent)"
    by (auto simp: sent_frames_def map_filter_def s)
  with typed s show ?thesis by (auto simp: frame_new_def)
qed

end
