(* ===== verification/Session_Greeting.thy ===== *)
theory Session_Greeting
  imports Session_Wire
begin

text \<open>
  The first frame a client session writes is its settings: until they are written the session
  has no reader loop, no stream and no heartbeat, so nothing else can be queued.
\<close>

definition settings_bytes :: "byte list \<Rightarrow> bool" where
  "settings_bytes bs \<longleftrightarrow> (\<exists>d. encode ((frame_new Settings 0)\<lparr>data := d\<rparr>) = Inr bs)"

definition starting_task :: "task \<Rightarrow> bool" where
  "starting_task t =
     (case t of
        AwaitPermit _ bs _ _ k \<Rightarrow> settings_bytes bs \<and> k = RunSession
      | AwaitResult _ k \<Rightarrow> k = RunSession
      | AwaitFinSend _ _ \<Rightarrow> False
      | AwaitCloseTimeout _ _ \<Rightarrow> True)"

text \<open>A client session that has written nothing yet.\<close>

definition starting :: "session \<Rightarrow> bool" where
  "starting s \<longleftrightarrow>
     is_client s \<and> served s = [] \<and> reader_present s \<and> streams s = None \<and> pumps s = [] \<and> heartbeat s = HbOff \<and>
     \<not> main_loop_running s \<and> peer_version s = 0 \<and>
     (\<forall>r\<in>set (control_queue s) \<union> set (data_queue s) \<union> set_option (writing s). settings_bytes (bytes r)) \<and>
     (\<forall>c\<in>set (completions s). snd c \<noteq> Inr ()) \<and> (\<forall>t\<in>set (tasks s). starting_task t)"

definition greeted :: "session \<Rightarrow> bool" where
  "greeted s \<longleftrightarrow> (if served s = [] then close_token s \<or> starting s else settings_bytes (hd (served s)))"

lemma starting_greeted: "starting s \<Longrightarrow> greeted s"
  by (simp add: greeted_def starting_def)

lemma starting_task_simps [simp]:
  "starting_task (AwaitPermit q bs d dl k) \<longleftrightarrow> settings_bytes bs \<and> k = RunSession"
  "starting_task (AwaitResult i k) \<longleftrightarrow> k = RunSession"
  "\<not> starting_task (AwaitFinSend i sid)" "starting_task (AwaitCloseTimeout sid n)"
  by (simp_all add: starting_task_def)

section \<open>Steps of a session that is starting\<close>

lemma starting_fewer: "starting s \<Longrightarrow> set ts \<subseteq> set (tasks s) \<Longrightarrow> starting (s\<lparr>tasks := ts\<rparr>)"
  by (auto simp: starting_def)

lemma starting_drop: "starting s \<Longrightarrow> starting (drop_task t s)"
  unfolding drop_task_def by (erule starting_fewer) (auto dest: set_remove1_subset [THEN subsetD])

lemma starting_writer:
  "starting s \<Longrightarrow> writer_take s = Some s' \<Longrightarrow> starting s'"
  "starting s \<Longrightarrow> writer_finish res s = Some s' \<Longrightarrow>
    greeted s'"
  by (auto simp: greeted_def writer_take_def writer_finish_def writer_exit_def starting_def Let_def split: if_splits list.splits option.splits)

lemma starting_permit:
  assumes "starting s" and "AwaitPermit q bs d dl k \<in> set (tasks s)"
    and "permit_granted q bs d k (drop_task (AwaitPermit q bs d dl k) s) = Some s'"
  shows "starting s'"
proof -
  have "settings_bytes bs" "k = RunSession" using assms(1,2) by (auto simp: starting_def)
  with starting_drop [OF assms(1), of "AwaitPermit q bs d dl k"] assms(3) show ?thesis
    by (cases q) (auto simp: permit_granted_def push_request_def starting_def Let_def split: if_splits)
qed

lemma settings_bytesI: "encode ((frame_new Settings 0)\<lparr>data := d\<rparr>) = Inr bs \<Longrightarrow> settings_bytes bs"
  by (auto simp: settings_bytes_def)

lemma starting_run: "starting s \<Longrightarrow> run order v now s = (r, s') \<Longrightarrow> starting s'"
  by (auto simp: run_def write_control_def enqueue_frame_def enqueue_encoded_with_mode_def starting_def
      split: sum.splits) (rule settings_bytesI)

lemma starting_answer:
  assumes "starting s" and "AwaitResult i k \<in> set (tasks s)" and "request_answer i r s"
  shows "starting (snd (resume now k r (forget_completion i (drop_task (AwaitResult i k) s))))"
proof -
  have k: "k = RunSession" using assms(1,2) by (auto simp: starting_def)
  have "r \<noteq> Inr ()" using assms(1,3) by (auto simp: starting_def request_answer_def)
  then obtain e where "r = Inl e" by (cases r) auto
  with k starting_drop [OF assms(1), of "AwaitResult i k"] show ?thesis
    by (auto simp: resume_def forget_completion_def starting_def)
qed

lemma shutdown_token: "close_token (shutdown s)" "served (shutdown s) = served s"
  by (simp_all add: shutdown_def Let_def cancel_stream_def update_pump_def split: option.splits)

lemma starting_no_stream: "starting s \<Longrightarrow> streams s = None"
  by (simp add: starting_def)

lemma starting_stream_ops:
  assumes "starting s"
  shows "snd (write_data sid bs s) = s" and "snd (send_fin_by_id sid c s) = s"
    and "greeted (snd (close_stream_by_id now sid s))" and "greeted (helper_drop_stream_by_id now sid s)"
  using assms starting_no_stream [OF assms] shutdown_token
  by (auto simp: write_data_def send_fin_by_id_def close_stream_by_id_def close_stream_rest_def finish_or_retire_stream_def
      helper_drop_stream_by_id_def drop_stream_rest_def finish_stream_if_closed_def starting_def greeted_def Let_def split: sum.splits prod.splits)

lemma starting_idle:
  assumes "starting s"
  shows "pump_recv now i s = None" "pump_written i s = None" "pump_failed now n i s = None" "pump_timed_out n i s = None"
    "pump_returned i s = None" "heartbeat_tick now s = None" "heartbeat_answered s = None"
    "heartbeat_timed_out now s = None" "heartbeat_cancelled s = None"
  using assms by (simp_all add: starting_def pump_recv_def pump_written_def pump_failed_def pump_timed_out_def
      pump_returned_def heartbeat_tick_def heartbeat_answered_def heartbeat_timed_out_def heartbeat_cancelled_def Let_def)

lemma starting_expiration: "starting s \<Longrightarrow> expiration_fired now s = Some s' \<Longrightarrow> greeted s'"
  using shutdown_token by (auto simp: expiration_fired_def starting_def greeted_def Let_def split: if_splits)

lemma starting_refused:
  assumes "starting s" and "AwaitPermit q bs d dl k \<in> set (tasks s)"
  shows "starting (snd (resume now k (Inl e) (drop_task (AwaitPermit q bs d dl k) s)))"
proof -
  have "k = RunSession" using assms by (auto simp: starting_def)
  with starting_drop [OF assms(1)] show ?thesis by (simp add: resume_def)
qed

lemma starting_no_fin: "starting s \<Longrightarrow> AwaitFinSend i sid \<notin> set (tasks s)"
  by (auto simp: starting_def)

lemma starting_accept: "starting s \<Longrightarrow> starting (snd (accept_stream b s))"
  by (auto simp: accept_stream_def starting_def split: option.splits list.splits)

lemma starting_local: "local_step order v s s' \<Longrightarrow> starting s \<Longrightarrow> \<not> close_token s \<Longrightarrow> greeted s'"
proof (induction rule: local_step.induct)
  case (step_writer_finish res s s')
  then show ?case using starting_writer(2) by blast
next
  case (step_drop sid s' now s)
  then show ?case using starting_stream_ops(4) by blast
next
  case (step_close sid now s r s')
  then show ?case using starting_stream_ops(3) [of s now sid] by simp
next
  case (step_close_timeout sid deadline s now)
  then show ?case
    using starting_drop [of s "AwaitCloseTimeout sid deadline"] starting_no_stream
    by (simp add: close_timeout_fired_def stream_active_def starting_greeted)
next
  case (step_expiration now s s')
  then show ?case using starting_expiration by blast
next
  case (step_accept b s r s')
  then show ?case using starting_accept [of s b] by (simp add: starting_greeted)
next
  case (step_write sid bs s r s')
  then show ?case using starting_stream_ops(1) [of s sid bs] by (simp add: starting_greeted)
next
  case (step_send_fin sid s r s')
  then show ?case using starting_stream_ops(2) [of s sid ShutdownWrite] by (simp add: starting_greeted)
next
  case (step_padding s' s pf)
  then show ?case by (simp add: starting_def greeted_def)
next
  case (step_idle_sender s' s)
  then show ?case by (simp add: starting_def greeted_def set_idle_sender_def)
next
  case (step_idle_received s s')
  then show ?case by (simp add: starting_def greeted_def)
next
  case (step_shutdown s' s)
  then show ?case using shutdown_token by (simp add: greeted_def starting_def)
next
  case (step_reserve s sid now r s')
  then show ?case by (simp add: starting_def)
next
  case (step_open s sid now r s')
  then show ?case by (simp add: starting_def)
next
  case (step_control s fr r s')
  then show ?case by (simp add: starting_def)
next
  case (step_receive_end s s')
  then show ?case by (simp add: starting_def)
qed ((simp add: starting_idle starting_no_fin writer_cancelled_def; fail)
    | (blast intro: starting_greeted starting_writer(1) starting_permit starting_run starting_answer starting_refused))+

section \<open>The first frame\<close>

text \<open>A closed session writes nothing more.\<close>

interpretation silent_kept: kept_steps "\<lambda>s. close_token s \<and> served s = k" for k
  by unfold_locales
    (auto simp: primitive_updates split: primitive_splits)

lemma greeted_step:
  assumes "local_step order v s s' \<or> receive_step digest order fr s s'" and "greeted s"
  shows "greeted s'"
proof (cases "served s = []")
  case False
  have "prefix (served s) (served s')"
    using assms(1) served_kept.local_step_keep [of order v s s' "served s"]
      served_kept.receive_step_keep [of digest order fr s s' "served s"] by blast
  with False assms(2) show ?thesis by (auto simp: greeted_def prefix_def)
next
  case empty: True
  show ?thesis
  proof (cases "close_token s")
    case True
    then have "close_token s' \<and> served s' = []"
      using assms(1) empty silent_kept.local_step_keep [of order v s s' "[]"]
        silent_kept.receive_step_keep [of digest order fr s s' "[]"] by blast
    then show ?thesis by (simp add: greeted_def)
  next
    case False
    with assms(2) empty have s: "starting s" by (simp add: greeted_def)
    then have "\<not> receive_step digest order fr s s'" by (auto simp: starting_def elim: receive_step.cases)
    with assms(1) show ?thesis using starting_local [OF _ s False] by blast
  qed
qed

lemma greeted_init: "session_init s \<Longrightarrow> is_client s \<Longrightarrow> greeted s"
  by (auto simp: session_init_def new_client_def new_server_def session_new_def greeted_def starting_def)

lemma greeted_first:
  assumes "greeted s" and "sent_frames s \<noteq> []"
  shows "command (hd (sent_frames s)) = Settings"
proof -
  obtain bs bss where s: "served s = bs # bss" using assms(2) by (cases "served s") (auto simp: sent_frames_def map_filter_def)
  with assms(1) obtain d where "encode ((frame_new Settings 0)\<lparr>data := d\<rparr>) = Inr bs"
    by (auto simp: greeted_def settings_bytes_def)
  from frame_of_encode [OF this] s show ?thesis by (simp add: sent_frames_def map_filter_def frame_new_def)
qed

end
