(* ===== verification/Tunnel.thy ===== *)
theory Tunnel
  imports Session_Greeting
begin

text \<open>
  A client session and a server session connected by a transport: what one has written is what
  the other reads, frame by frame and in order. The theory relates the bytes an application
  reads at one end to the frames the other end has written.
\<close>

section \<open>What a session has received\<close>

text \<open>The payloads sent on a stream.\<close>

definition pushed :: "u32 \<Rightarrow> frame list \<Rightarrow> byte list" where
  "pushed sid frs = concat (map data (filter (\<lambda>fr. command fr = Push \<and> stream_id fr = sid) frs))"

text \<open>A FIN of the stream was sent, and the payloads before it are all in \<open>d\<close>.\<close>

definition fin_after :: "u32 \<Rightarrow> frame list \<Rightarrow> byte list \<Rightarrow> bool" where
  "fin_after sid frs d \<longleftrightarrow>
     (\<exists>frs1 fin frs2. frs = frs1 @ fin # frs2 \<and> command fin = Fin \<and> stream_id fin = sid \<and> prefix (pushed sid frs1) d)"

text \<open>
  What the queue of a pump has accepted, related to the frames \<open>frs\<close> the session has received:
  from some frame on (the SYN of the stream at a server) it is the payloads of the stream, all of
  them while the stream is active and a prefix of them afterwards.
\<close>

definition pump_log :: "bool \<Rightarrow> bool \<Rightarrow> bool \<Rightarrow> frame list \<Rightarrow> pump \<Rightarrow> bool" where
  "pump_log client active waiting frs p \<longleftrightarrow>
     (\<exists>frs1 frs2. frs = frs1 @ frs2 \<and>
        (client \<or> (\<exists>frs0 syn. frs1 = frs0 @ [syn] \<and> command syn = Syn \<and> stream_id syn = pump_stream p)) \<and>
        prefix (data_of (accepted p)) (pushed (pump_stream p) frs2) \<and>
        (active \<longrightarrow> data_of (accepted p) = pushed (pump_stream p) frs2) \<and>
        (PushFin \<in> set (accepted p) \<longrightarrow> fin_after (pump_stream p) frs2 (data_of (before_fin (accepted p)))) \<and>
        (waiting \<longrightarrow> fin_after (pump_stream p) frs2 (data_of (accepted p))))"

definition pump_active :: "nat \<Rightarrow> session \<Rightarrow> bool" where
  "pump_active i s \<longleftrightarrow> (case streams s of Some (_, st) \<Rightarrow> stream_pump st = i | None \<Rightarrow> False)"

definition fin_waiting :: "nat \<Rightarrow> session \<Rightarrow> bool" where
  "fin_waiting i s \<longleftrightarrow> (\<exists>sid. AwaitFinSend i sid \<in> set (tasks s))"

definition log_inv :: "frame list \<Rightarrow> session \<Rightarrow> bool" where
  "log_inv frs s \<longleftrightarrow>
     closed s \<or>
     ((\<forall>i. fin_waiting i s \<longrightarrow> i < length (pumps s)) \<and>
      (\<forall>i<length (pumps s). pump_log (is_client s) (pump_active i s) (fin_waiting i s) frs (pumps s ! i)))"

lemma pushed_simps [simp]:
  "pushed sid [] = []" "pushed sid (frs @ frs') = pushed sid frs @ pushed sid frs'"
  "pushed sid [fr] = (if command fr = Push \<and> stream_id fr = sid then data fr else [])"
  by (simp_all add: pushed_def)

lemma fin_after_append: "fin_after sid frs d \<Longrightarrow> fin_after sid (frs @ frs') (d @ d')"
  unfolding fin_after_def by (metis append.assoc append_Cons prefix_append)

lemma fin_after_more: "fin_after sid frs d \<Longrightarrow> fin_after sid (frs @ frs') d"
  using fin_after_append [of sid frs d frs' "[]"] by simp

lemma pump_log_weaken:
  assumes "pump_log client active waiting frs p" and "active' \<Longrightarrow> active" and "waiting' \<Longrightarrow> waiting"
    and "accepted p' = accepted p" and "pump_stream p' = pump_stream p"
  shows "pump_log client active' waiting' frs p'"
  using assms unfolding pump_log_def by metis

text \<open>A frame that is no payload of the active stream changes nothing.\<close>

lemma pump_log_other:
  assumes "pump_log client active waiting frs p"
    and "active \<Longrightarrow> \<not> (command fr = Push \<and> stream_id fr = pump_stream p)"
  shows "pump_log client active waiting (frs @ [fr]) p"
proof -
  from assms(1) obtain frs1 frs2 where l: "frs = frs1 @ frs2"
    "client \<or> (\<exists>frs0 syn. frs1 = frs0 @ [syn] \<and> command syn = Syn \<and> stream_id syn = pump_stream p)"
    "prefix (data_of (accepted p)) (pushed (pump_stream p) frs2)"
    "active \<longrightarrow> data_of (accepted p) = pushed (pump_stream p) frs2"
    "PushFin \<in> set (accepted p) \<longrightarrow> fin_after (pump_stream p) frs2 (data_of (before_fin (accepted p)))"
    "waiting \<longrightarrow> fin_after (pump_stream p) frs2 (data_of (accepted p))" unfolding pump_log_def by blast
  show ?thesis unfolding pump_log_def
    by (rule exI [of _ frs1], rule exI [of _ "frs2 @ [fr]"]) (use l assms(2) in \<open>auto intro: fin_after_more\<close>)
qed

text \<open>A payload of the stream enters the queue.\<close>

lemma pump_log_push:
  assumes "pump_log client True waiting frs p" and "command fr = Push" and "stream_id fr = pump_stream p"
    and "accepted p' = accepted p @ [PushData (data fr)]" and "pump_stream p' = pump_stream p"
  shows "pump_log client active' waiting (frs @ [fr]) p'"
proof -
  from assms(1) obtain frs1 frs2 where l: "frs = frs1 @ frs2"
    "client \<or> (\<exists>frs0 syn. frs1 = frs0 @ [syn] \<and> command syn = Syn \<and> stream_id syn = pump_stream p)"
    "data_of (accepted p) = pushed (pump_stream p) frs2"
    "PushFin \<in> set (accepted p) \<longrightarrow> fin_after (pump_stream p) frs2 (data_of (before_fin (accepted p)))"
    "waiting \<longrightarrow> fin_after (pump_stream p) frs2 (data_of (accepted p))" unfolding pump_log_def by blast
  have "data_of (accepted p') = pushed (pump_stream p) (frs2 @ [fr])" using l(3) assms by simp
  moreover have "PushFin \<in> set (accepted p') \<Longrightarrow> before_fin (accepted p') = before_fin (accepted p)"
    using assms(4) by (simp add: before_fin_append(1))
  ultimately show ?thesis unfolding pump_log_def
    by (intro exI [of _ frs1] exI [of _ "frs2 @ [fr]"]) (use l assms in \<open>auto intro: fin_after_more fin_after_append\<close>)
qed

text \<open>The end of the stream enters the queue after a FIN, at once or by the task that waited for room.\<close>

lemma pump_log_fin:
  assumes "pump_log client active True frs p" and "accepted p' = accepted p @ [PushFin]"
    and "pump_stream p' = pump_stream p"
  shows "pump_log client active True frs p'"
proof -
  have b: "PushFin \<notin> set (accepted p) \<Longrightarrow> before_fin (accepted p @ [PushFin]) = accepted p"
    by (simp add: before_fin_append(2))
  from assms show ?thesis unfolding pump_log_def
    by (cases "PushFin \<in> set (accepted p)") (simp_all add: before_fin_append(1) b)
qed

lemma pump_log_fin_received:
  assumes "pump_log client True waiting frs p" and "command fr = Fin" and "stream_id fr = pump_stream p"
  shows "pump_log client True True (frs @ [fr]) p"
proof -
  from assms(1) obtain frs1 frs2 where l: "frs = frs1 @ frs2"
    "client \<or> (\<exists>frs0 syn. frs1 = frs0 @ [syn] \<and> command syn = Syn \<and> stream_id syn = pump_stream p)"
    "data_of (accepted p) = pushed (pump_stream p) frs2"
    "PushFin \<in> set (accepted p) \<longrightarrow> fin_after (pump_stream p) frs2 (data_of (before_fin (accepted p)))"
    unfolding pump_log_def by blast
  have "fin_after (pump_stream p) (frs2 @ [fr]) (data_of (accepted p))"
    unfolding fin_after_def by (intro exI [of _ frs2] exI [of _ fr] exI [of _ "[]"]) (use l(3) assms in simp)
  with l assms(2) show ?thesis unfolding pump_log_def
    by (intro exI [of _ frs1] exI [of _ "frs2 @ [fr]"]) (auto intro: fin_after_more)
qed

section \<open>Local steps keep the log\<close>

lemma log_inv_weaken:
  assumes "log_inv frs s" and "closed s \<Longrightarrow> closed s'" and "is_client s' = is_client s"
    and "length (pumps s') = length (pumps s)"
    and "\<And>i. i < length (pumps s) \<Longrightarrow> accepted (pumps s' ! i) = accepted (pumps s ! i) \<and>
      pump_stream (pumps s' ! i) = pump_stream (pumps s ! i)"
    and "\<And>i. pump_active i s' \<Longrightarrow> pump_active i s" and "\<And>i. fin_waiting i s' \<Longrightarrow> fin_waiting i s"
  shows "log_inv frs s'"
proof (cases "closed s'")
  case False
  with assms(1,2) have l: "\<And>i. fin_waiting i s \<Longrightarrow> i < length (pumps s)"
    "\<And>i. i < length (pumps s) \<Longrightarrow> pump_log (is_client s) (pump_active i s) (fin_waiting i s) frs (pumps s ! i)"
    by (auto simp: log_inv_def)
  have "pump_log (is_client s') (pump_active i s') (fin_waiting i s') frs (pumps s' ! i)" if "i < length (pumps s')" for i
    using that assms(3-7) l(2) [of i] by (intro pump_log_weaken [OF l(2), of i, folded assms(3)]) simp_all
  with l(1) assms(4,7) show ?thesis by (simp add: log_inv_def)
qed (simp add: log_inv_def)

lemma field_update: "j < length xs \<Longrightarrow> f y = f (xs ! i) \<Longrightarrow> f (xs[i := y] ! j) = f (xs ! j)"
  by (cases "i = j") simp_all

lemmas log_simps = pump_active_def fin_waiting_def cancel_stream_def update_pump_def field_update

lemma log_task: "log_inv frs s \<Longrightarrow> plain_task t \<Longrightarrow> log_inv frs (s\<lparr>tasks := tasks s @ [t]\<rparr>)"
  by (erule log_inv_weaken) (auto simp: log_simps plain_task_def)

lemma log_cancel: "log_inv frs s \<Longrightarrow> log_inv frs (cancel_stream st (s\<lparr>streams := None\<rparr>))"
  by (erule log_inv_weaken) (auto simp: log_simps)

lemma log_control: "log_inv frs s \<Longrightarrow> log_inv frs (snd (queue_control fr s))"
  by (erule log_inv_weaken) (auto simp: queue_control_def push_request_def log_simps split: sum.splits if_splits)

lemma log_fewer_tasks: "log_inv frs s \<Longrightarrow> set ts \<subseteq> set (tasks s) \<Longrightarrow> log_inv frs (s\<lparr>tasks := ts\<rparr>)"
  by (erule log_inv_weaken) (auto simp: log_simps)

lemma log_drop_task: "log_inv frs s \<Longrightarrow> log_inv frs (drop_task t s)"
  unfolding drop_task_def by (erule log_fewer_tasks) (auto dest: set_remove1_subset [THEN subsetD])

lemma log_pump:
  assumes "log_inv frs s" and "pump_step (pumps s ! i) p"
  shows "log_inv frs (s\<lparr>pumps := (pumps s)[i := p]\<rparr>)"
proof -
  have "accepted p = accepted (pumps s ! i) \<and> pump_stream p = pump_stream (pumps s ! i)"
    using assms(2) by (cases rule: pump_step.cases) (simp_all add: pump_stopped_def pump_exit_def)
  with assms(1) show ?thesis by (elim log_inv_weaken) (auto simp: log_simps)
qed

lemma log_permit: "log_inv frs s \<Longrightarrow> permit_granted q bs d k (drop_task t s) = Some s' \<Longrightarrow> log_inv frs s'"
  by (drule log_drop_task [of _ _ t], erule log_inv_weaken)
    (auto simp: permit_granted_def push_request_def log_simps Let_def split: if_splits queue_sel.splits)

lemma log_new:
  assumes "log_inv frs s" and "stream_state_new sid s = (st, s1)"
    and "is_client s \<or> (\<exists>frs0 syn. frs = frs0 @ [syn] \<and> command syn = Syn \<and> stream_id syn = sid)"
    and "streams s = None"
  shows "log_inv frs (s1\<lparr>streams := Some (sid, st)\<rparr>)"
proof (cases "closed s")
  case False
  have st: "stream_pump st = length (pumps s)" and s1: "s1 = s\<lparr>pumps := pumps s @ [pump_new sid]\<rparr>"
    using assms(2) by (auto simp: stream_state_new_def)
  have new: "pump_log (is_client s) True False frs (pump_new sid)"
    unfolding pump_log_def by (intro exI [of _ frs] exI [of _ "[]"]) (use assms(3) in \<open>simp add: pump_new_def\<close>)
  from assms(1) False have l: "\<And>i. fin_waiting i s \<Longrightarrow> i < length (pumps s)"
    "\<And>i. i < length (pumps s) \<Longrightarrow> pump_log (is_client s) (pump_active i s) (fin_waiting i s) frs (pumps s ! i)"
    by (auto simp: log_inv_def)
  then have "\<not> fin_waiting (length (pumps s)) s" by blast
  with new l assms(4) show ?thesis
    unfolding log_inv_def s1 by (auto simp: pump_active_def fin_waiting_def st nth_append less_Suc_eq)
qed (use assms in \<open>auto simp: log_inv_def stream_state_new_def\<close>)

text \<open>The task that waited for room sends the end of the stream.\<close>

lemma log_fin_send:
  assumes "log_inv frs s" and "AwaitFinSend i sid \<in> set (tasks s)" and "push_send i PushFin s = (r, s')"
  shows "log_inv frs s'"
proof (cases "closed s \<or> s' = s")
  case False
  let ?p = "(pumps s ! i)\<lparr>push_queue := push_queue (pumps s ! i) @ [PushFin], accepted := accepted (pumps s ! i) @ [PushFin]\<rparr>"
  from False assms(3) have s': "s' = s\<lparr>pumps := (pumps s)[i := ?p]\<rparr>"
    by (auto simp: push_send_def update_pump_def Let_def split: if_splits)
  from assms(1) False have l: "\<And>i. fin_waiting i s \<Longrightarrow> i < length (pumps s)"
    "\<And>i. i < length (pumps s) \<Longrightarrow> pump_log (is_client s) (pump_active i s) (fin_waiting i s) frs (pumps s ! i)"
    by (auto simp: log_inv_def)
  have w: "fin_waiting i s" using assms(2) by (auto simp: fin_waiting_def)
  then have "pump_log (is_client s) (pump_active i s) True frs (pumps s ! i)" using l(2) [OF l(1) [OF w]] by simp
  then have "pump_log (is_client s) (pump_active i s) True frs ?p" by (rule pump_log_fin) simp_all
  with l w show ?thesis
    unfolding log_inv_def s' by (auto simp: pump_active_def fin_waiting_def nth_list_update)
qed (use assms in \<open>auto simp: log_inv_def push_send_def update_pump_def Let_def split: if_splits\<close>)

lemma push_send_drop: "push_send i m (drop_task t s) = map_prod id (drop_task t) (push_send i m s)"
  by (simp add: push_send_def drop_task_def update_pump_def Let_def)

interpretation log_kept: kept_local "log_inv frs" for frs
proof
  fix s :: session and i sid r s' st st' k
  show "log_inv frs s \<Longrightarrow> streams s = Some (sid, st) \<Longrightarrow> stream_pump st' = stream_pump st \<Longrightarrow>
      log_inv frs (s\<lparr>streams := Some (sid, st')\<rparr>)"
    by (erule log_inv_weaken) (auto simp: log_simps)
  show "log_inv frs s'" if "log_inv frs s" "AwaitFinSend i sid \<in> set (tasks s)"
      and send: "push_send i PushFin (drop_task (AwaitFinSend i sid) s) = (r, s')"
  proof -
    obtain s1 where "push_send i PushFin s = (r, s1)" "s' = drop_task (AwaitFinSend i sid) s1"
      using send unfolding push_send_drop by (cases "push_send i PushFin s") simp
    with that(1,2) show ?thesis by (simp add: log_fin_send log_drop_task)
  qed
  show "log_inv frs s \<Longrightarrow> log_inv frs (forget_completion i (drop_task (AwaitResult i k) s))"
    by (drule log_drop_task [of _ _ "AwaitResult i k"], erule log_inv_weaken) (auto simp: forget_completion_def log_simps)
  show "log_inv frs s \<Longrightarrow> log_inv frs (s\<lparr>closed := True, close_token := True\<rparr>)" by (simp add: log_inv_def)
qed ((erule (1) log_task log_cancel log_pump log_new) | (erule log_control log_drop_task)
    | (erule (1) log_permit) | (erule log_fewer_tasks, force)
    | (simp add: log_new; fail)
    | (simp add: log_inv_def pump_active_def fin_waiting_def writer_exit_def; fail)
    | (erule log_inv_weaken; auto simp: log_simps writer_take_def writer_finish_def writer_exit_def Let_def
        split: if_splits list.splits option.splits; fail))+

section \<open>Received frames extend the log\<close>

lemma log_closed: "closed s \<Longrightarrow> log_inv frs s"
  by (simp add: log_inv_def)

lemma log_other:
  assumes "log_inv frs s" and "\<And>sid st. streams s = Some (sid, st) \<Longrightarrow>
    pump_stream (pumps s ! stream_pump st) = sid \<and> \<not> (command fr = Push \<and> stream_id fr = sid)"
  shows "log_inv (frs @ [fr]) s"
proof (cases "closed s")
  case False
  have "pump_log (is_client s) (pump_active i s) (fin_waiting i s) (frs @ [fr]) (pumps s ! i)"
    if "pump_log (is_client s) (pump_active i s) (fin_waiting i s) frs (pumps s ! i)" for i
    using that assms(2) by (intro pump_log_other) (auto simp: pump_active_def split: option.splits)
  with False assms(1) show ?thesis by (simp add: log_inv_def)
qed (simp add: log_inv_def)

lemma linked_stream:
  "session_inv s \<Longrightarrow> streams s = Some (sid, st) \<Longrightarrow>
   stream_pump st < length (pumps s) \<and> pump_stream (pumps s ! stream_pump st) = sid"
  by (simp add: session_inv_def linked_def)

lemma log_push_sent:
  assumes "session_inv s" and "log_inv frs s" and "streams s = Some (stream_id fr, st)" and "command fr = Push"
    and "push_send (stream_pump st) (PushData (data fr)) s = (Sent, s1)"
  shows "log_inv (frs @ [fr]) (take_slots (stream_pump st) n s1)"
proof (cases "closed s")
  case False
  let ?i = "stream_pump st"
  let ?p = "(pumps s ! ?i)\<lparr>push_queue := push_queue (pumps s ! ?i) @ [PushData (data fr)],
    accepted := accepted (pumps s ! ?i) @ [PushData (data fr)], push_slots := push_slots (pumps s ! ?i) - n\<rparr>"
  have i: "?i < length (pumps s)" "pump_stream (pumps s ! ?i) = stream_id fr" using linked_stream [OF assms(1,3)] by simp_all
  have s1: "take_slots ?i n s1 = s\<lparr>pumps := (pumps s)[?i := ?p]\<rparr>"
    using assms(5) i by (auto simp: push_send_def take_slots_def update_pump_def Let_def split: if_splits)
  have act: "pump_active j s \<longleftrightarrow> j = ?i" for j using assms(3) by (auto simp: pump_active_def)
  from assms(2) False have l: "\<And>i. fin_waiting i s \<Longrightarrow> i < length (pumps s)"
    "\<And>i. i < length (pumps s) \<Longrightarrow> pump_log (is_client s) (pump_active i s) (fin_waiting i s) frs (pumps s ! i)"
    by (auto simp: log_inv_def)
  have "pump_log (is_client s) True (fin_waiting ?i s) (frs @ [fr]) ?p"
    using l(2) [OF i(1)] act i assms(4) by (intro pump_log_push [where p = "pumps s ! ?i"]) simp_all
  moreover have "pump_log (is_client s) False (fin_waiting j s) (frs @ [fr]) (pumps s ! j)"
    if "j < length (pumps s)" "j \<noteq> ?i" for j
    using l(2) [OF that(1)] act that(2) by (intro pump_log_other) simp_all
  ultimately show ?thesis
    using l(1) act i(1) unfolding log_inv_def s1 by (auto simp: pump_active_def fin_waiting_def nth_list_update)
qed (use assms in \<open>auto simp: log_inv_def push_send_def take_slots_def update_pump_def Let_def split: if_splits\<close>)

lemma log_remove:
  assumes "log_inv frs s" and "streams s = Some (sid, st)"
  shows "log_inv (frs @ [fr]) (remove_stream_by_id now sid s)"
proof -
  have "streams (remove_stream_by_id now sid s) = None"
    using assms(2) by (simp add: remove_stream_by_id_def shutdown_def Let_def)
  with log_kept.remove_stream_keep [OF assms(1)] show ?thesis by (intro log_other) simp_all
qed

lemma log_receive_push:
  assumes "session_inv s" and "log_inv frs s" and "command fr = Push"
    and "on_receive_push now (stream_id fr) (data fr) s = (RecvContinue, s')"
  shows "log_inv (frs @ [fr]) s'"
proof (cases "\<exists>st. streams s = Some (stream_id fr, st)")
  case False
  with assms(4) have "s' = s" by (auto simp: on_receive_push_def split: option.splits)
  with False assms(1,2) linked_stream show ?thesis by (auto intro!: log_other)
next
  case True
  then obtain st where st: "streams s = Some (stream_id fr, st)" by blast
  have fin: "log_inv (frs @ [fr]) t"
    if "(case queue_control (frame_new Fin (stream_id fr)) s of (Inl e, t) \<Rightarrow> (RecvStop (Inl e), t)
      | (Inr _, t) \<Rightarrow> (RecvContinue, remove_stream_by_id now (stream_id fr) t)) = (RecvContinue, t)" for t
  proof -
    obtain r u where q: "queue_control (frame_new Fin (stream_id fr)) s = (r, u)" by fastforce
    then have "streams u = streams s" by (auto simp: queue_control_def push_request_def split: sum.splits if_splits)
    with that q log_remove [of frs u] log_control [OF assms(2)] st show ?thesis
      by (cases r) (auto, metis snd_conv)
  qed
  obtain r s1 where send: "push_send (stream_pump st) (PushData (data fr)) s = (r, s1)" by fastforce
  then have "r \<noteq> Sent \<Longrightarrow> s1 = s" using push_send_not_sent by blast
  with assms(4) st send fin log_push_sent [OF assms(1,2) st assms(3)] show ?thesis
    by (cases r) (auto simp: on_receive_push_def log_closed split: if_splits)
qed

lemma log_fin_received:
  assumes "session_inv s" and "log_inv frs s" and "streams s = Some (stream_id fr, st)" and "command fr = Fin"
  shows "log_inv (frs @ [fr]) (s\<lparr>tasks := tasks s @ [AwaitFinSend (stream_pump st) sid]\<rparr>)"
proof (cases "closed s")
  case False
  let ?i = "stream_pump st"
  have i: "?i < length (pumps s)" "pump_stream (pumps s ! ?i) = stream_id fr" using linked_stream [OF assms(1,3)] by simp_all
  have act: "pump_active j s \<longleftrightarrow> j = ?i" for j using assms(3) by (auto simp: pump_active_def)
  from assms(2) False have l: "\<And>i. fin_waiting i s \<Longrightarrow> i < length (pumps s)"
    "\<And>i. i < length (pumps s) \<Longrightarrow> pump_log (is_client s) (pump_active i s) (fin_waiting i s) frs (pumps s ! i)"
    by (auto simp: log_inv_def)
  have "pump_log (is_client s) True True (frs @ [fr]) (pumps s ! ?i)"
    using l(2) [OF i(1)] act i assms(4) by (intro pump_log_fin_received) simp_all
  moreover have "pump_log (is_client s) (pump_active j s) (fin_waiting j s) (frs @ [fr]) (pumps s ! j)"
    if "j < length (pumps s)" for j
    using l(2) [OF that] assms(4) by (intro pump_log_other) simp_all
  ultimately have "pump_log (is_client s) (pump_active j s) (j = ?i \<or> fin_waiting j s) (frs @ [fr]) (pumps s ! j)"
    if "j < length (pumps s)" for j using that act by (cases "j = ?i") (simp, metis)
  moreover have "fin_waiting j (s\<lparr>tasks := tasks s @ [AwaitFinSend ?i sid]\<rparr>) \<longleftrightarrow> j = ?i \<or> fin_waiting j s"
    "pump_active j (s\<lparr>tasks := tasks s @ [AwaitFinSend ?i sid]\<rparr>) = pump_active j s" for j
    by (auto simp: fin_waiting_def pump_active_def)
  ultimately show ?thesis using l(1) i(1) unfolding log_inv_def by auto
qed (simp add: log_inv_def)

lemma push_send_tasks: "push_send i m (s\<lparr>tasks := ts\<rparr>) = map_prod id (\<lambda>t. t\<lparr>tasks := ts\<rparr>) (push_send i m s)"
  by (simp add: push_send_def update_pump_def Let_def)

lemma log_receive_fin:
  assumes "session_inv s" and "log_inv frs s" and "command fr = Fin"
  shows "log_inv (frs @ [fr]) (snd (on_receive_fin_cmd now (stream_id fr) s))"
proof (rule log_kept.on_receive_fin_keep)
  show "log_inv (frs @ [fr]) s" using assms linked_stream by (intro log_other) simp_all
next
  fix st :: stream_state and r s1
  let ?i = "stream_pump st"
  let ?s = "s\<lparr>streams := Some (stream_id fr, st\<lparr>remote_fin := True\<rparr>)\<rparr>"
  assume st: "streams s = Some (stream_id fr, st)" and send: "push_send ?i PushFin ?s = (r, s1)"
  have "session_inv ?s" "log_inv frs ?s"
    using session_kept.keep_flags [OF assms(1) st] log_kept.keep_flags [OF assms(2) st] by simp_all
  then have "log_inv (frs @ [fr]) (?s\<lparr>tasks := tasks ?s @ [AwaitFinSend ?i (stream_id fr)]\<rparr>)"
    using log_fin_received [of ?s frs fr "st\<lparr>remote_fin := True\<rparr>"] assms(3) by simp
  moreover have s1: "tasks s1 = tasks ?s" using send by (auto simp: push_send_def update_pump_def Let_def split: if_splits)
  ultimately have l: "log_inv (frs @ [fr]) (s1\<lparr>tasks := tasks s1 @ [AwaitFinSend ?i (stream_id fr)]\<rparr>)"
    using log_fin_send [of _ _ ?i "stream_id fr"] send by (simp add: push_send_tasks)
  with log_fewer_tasks [OF l, of "tasks s1"] show "log_inv (frs @ [fr]) s1 \<and>
      log_inv (frs @ [fr]) (s1\<lparr>tasks := tasks s1 @ [AwaitFinSend ?i (stream_id fr)]\<rparr>)" by auto
qed

lemma log_receive_syn:
  assumes "session_inv s" and "log_inv frs s" and "command fr = Syn" and "stream_id fr \<noteq> 0"
  shows "log_inv (frs @ [fr]) (snd (on_receive_syn_cmd now (stream_id fr) s))"
proof -
  have l: "log_inv (frs @ [fr]) s" using assms linked_stream by (intro log_other) simp_all
  then show ?thesis
    using assms(3,4) by (intro log_kept.on_receive_syn_keep) (auto intro!: log_new)
qed

lemma log_receive:
  assumes "receive_step digest order fr s s'" and "session_inv s" and "log_inv frs s" and "frame_ok fr"
  shows "log_inv (frs @ [fr]) s'"
  using assms(1)
proof cases
  case (step_receive now)
  let ?s = "s\<lparr>last_activity := now\<rparr>"
  have s: "session_inv ?s" "log_inv frs ?s" using assms(2,3) by simp_all
  have other: "command fr \<noteq> Push \<Longrightarrow> log_inv (frs @ [fr]) ?s" using s linked_stream [of ?s] by (intro log_other) simp_all
  show ?thesis
  proof (cases "command fr = Push")
    case True
    with step_receive assms(4) s show ?thesis
      by (intro log_receive_push [OF s True, of now]) (auto simp: receive_frame_def frame_ok_def Let_def allows_data_def)
  next
    case False
    have "log_inv (frs @ [fr]) (snd (receive_frame digest order now fr s))"
      using False other [OF False] s assms(4)
      by (cases "command fr") (auto simp: receive_frame_def frame_ok_def valid_stream_id_def Let_def
        intro: log_receive_fin log_receive_syn log_kept.on_receive_settings_keep log_kept.on_receive_info_keep)
    with step_receive show ?thesis by simp
  qed
next
  case (step_receive_stop now res s1)
  then show ?thesis by (intro log_closed) (simp add: shutdown_def Let_def split: option.splits)
qed

section \<open>Two sessions and the transport between them\<close>

text \<open>
  \<open>up\<close> and \<open>down\<close> count the frames each side has read of what the other has written. A
  writer may put Waste frames between the frames it was given; a transport that fails or ends is a
  receive loop that ends, which is a step of the session alone.
\<close>

record tunnel =
  near :: session
  far :: session
  up :: nat
  down :: nat

inductive tunnel_step ::
    "(byte list \<Rightarrow> byte list) \<Rightarrow> ((string \<times> string) list \<Rightarrow> (string \<times> string) list) \<Rightarrow> string \<Rightarrow>
     ((string \<times> string) list \<Rightarrow> (string \<times> string) list) \<Rightarrow> string \<Rightarrow> tunnel \<Rightarrow> tunnel \<Rightarrow> bool"
  for digest order v order' v' where
    near_local: "local_step order v (near t) s \<Longrightarrow> tunnel_step digest order v order' v' t (t\<lparr>near := s\<rparr>)"
  | far_local: "local_step order' v' (far t) s \<Longrightarrow> tunnel_step digest order v order' v' t (t\<lparr>far := s\<rparr>)"
  | far_receives:
      "up t < length (sent_frames (near t)) \<Longrightarrow> receive_step digest order' (sent_frames (near t) ! up t) (far t) s \<Longrightarrow>
       tunnel_step digest order v order' v' t (t\<lparr>far := s, up := Suc (up t)\<rparr>)"
  | near_receives:
      "down t < length (sent_frames (far t)) \<Longrightarrow> receive_step digest order (sent_frames (far t) ! down t) (near t) s \<Longrightarrow>
       tunnel_step digest order v order' v' t (t\<lparr>near := s, down := Suc (down t)\<rparr>)"
  | far_padding:
      "command fr = Waste \<Longrightarrow> stream_id fr = 0 \<Longrightarrow> receive_step digest order' fr (far t) s \<Longrightarrow>
       tunnel_step digest order v order' v' t (t\<lparr>far := s\<rparr>)"
  | near_padding:
      "command fr = Waste \<Longrightarrow> stream_id fr = 0 \<Longrightarrow> receive_step digest order fr (near t) s \<Longrightarrow>
       tunnel_step digest order v order' v' t (t\<lparr>near := s\<rparr>)"

definition tunnel_init :: "tunnel \<Rightarrow> bool" where
  "tunnel_init t \<longleftrightarrow>
     (\<exists>sid pf age now. near t = new_client sid pf age now) \<and> (\<exists>sid pf age now. far t = new_server sid pf age now) \<and>
     up t = 0 \<and> down t = 0"

text \<open>One direction of the tunnel: \<open>n\<close> frames have gone from \<open>a\<close> to \<open>b\<close>.\<close>

definition link_inv :: "nat \<Rightarrow> session \<Rightarrow> session \<Rightarrow> bool" where
  "link_inv n a b \<longleftrightarrow>
     wire_inv a \<and> session_inv b \<and> n \<le> length (sent_frames a) \<and> log_inv (take n (sent_frames a)) b"

definition tunnel_inv :: "tunnel \<Rightarrow> bool" where
  "tunnel_inv t \<longleftrightarrow>
     link_inv (up t) (near t) (far t) \<and> link_inv (down t) (far t) (near t) \<and>
     is_client (near t) \<and> \<not> is_client (far t)"

lemma link_sender:
  assumes "link_inv n a b" and "local_step order v a a' \<or> receive_step digest order fr a a'"
  shows "link_inv n a' b"
proof -
  have "wire_inv a'" using assms wire_kept.local_step_keep wire_kept.receive_step_keep by (auto simp: link_inv_def)
  moreover obtain frs where "sent_frames a' = sent_frames a @ frs"
    using sent_frames_grow [OF assms(2)] by (auto simp: prefix_def)
  ultimately show ?thesis using assms(1) by (simp add: link_inv_def)
qed

lemma link_receiver: "link_inv n a b \<Longrightarrow> local_step order v b b' \<Longrightarrow> link_inv n a b'"
  using session_kept.local_step_keep log_kept.local_step_keep by (auto simp: link_inv_def)

lemma link_receives:
  assumes "link_inv n a b" and "n < length (sent_frames a)" and "receive_step digest order (sent_frames a ! n) b b'"
  shows "link_inv (Suc n) a b'"
proof -
  have "frame_ok (sent_frames a ! n)" using assms(1,2) sent_frames_ok by (auto simp: link_inv_def)
  with log_receive [OF assms(3)] session_kept.receive_step_keep [OF assms(3)] assms(1,2) show ?thesis
    by (simp add: link_inv_def take_Suc_conv_app_nth)
qed

lemma link_padding:
  assumes "link_inv n a b" and "command fr = Waste" and "stream_id fr = 0" and "receive_step digest order fr b b'"
  shows "link_inv n a b'"
proof -
  have "\<exists>now. b' = b\<lparr>last_activity := now\<rparr>"
    using assms(4) by (cases rule: receive_step.cases)
      (use assms(2,3) receive_waste [of fr] in \<open>auto simp: not_waste_def\<close>)
  with assms(1) show ?thesis by (auto simp: link_inv_def)
qed

interpretation side_kept: kept_steps "\<lambda>s. is_client s = b" for b
  by unfold_locales
    (auto simp: primitive_updates split: primitive_splits)

lemma side_step: "local_step order v s s' \<or> receive_step digest order fr s s' \<Longrightarrow> is_client s' = is_client s"
  using side_kept.local_step_keep [of order v s s' "is_client s"]
    side_kept.receive_step_keep [of digest order fr s s' "is_client s"] by blast

lemma tunnel_step_inv: "tunnel_step digest order v order' v' t t' \<Longrightarrow> tunnel_inv t \<Longrightarrow> tunnel_inv t'"
proof (induction rule: tunnel_step.induct)
  case (near_local t s)
  note local = disjI1 [OF near_local(1)]
  from near_local show ?case
    by (simp add: tunnel_inv_def link_sender [OF _ local] link_receiver [OF _ near_local(1)] side_step [OF local])
next
  case (far_local t s)
  note local = disjI1 [OF far_local(1)]
  from far_local show ?case
    by (simp add: tunnel_inv_def link_sender [OF _ local] link_receiver [OF _ far_local(1)] side_step [OF local])
next
  case (far_receives t s)
  note receive = disjI2 [OF far_receives(2)]
  from far_receives link_receives [OF _ far_receives(1,2)] show ?case
    by (simp add: tunnel_inv_def link_sender [OF _ receive] side_step [OF receive])
next
  case (near_receives t s)
  note receive = disjI2 [OF near_receives(2)]
  from near_receives link_receives [OF _ near_receives(1,2)] show ?case
    by (simp add: tunnel_inv_def link_sender [OF _ receive] side_step [OF receive])
next
  case (far_padding fr t s)
  note receive = disjI2 [OF far_padding(3)]
  from far_padding link_padding [OF _ far_padding(1-3)] show ?case
    by (simp add: tunnel_inv_def link_sender [OF _ receive] side_step [OF receive])
next
  case (near_padding fr t s)
  note receive = disjI2 [OF near_padding(3)]
  from near_padding link_padding [OF _ near_padding(1-3)] show ?case
    by (simp add: tunnel_inv_def link_sender [OF _ receive] side_step [OF receive])
qed

interpretation tunnel: invariant_system tunnel_init "tunnel_step digest order v order' v'" tunnel_inv
  for digest order v order' v'
proof
  fix t assume "tunnel_init t"
  then have "session_init (near t)" "session_init (far t)" "pumps (near t) = []" "pumps (far t) = []"
    "tasks (near t) = []" "tasks (far t) = []" "is_client (near t)" "\<not> is_client (far t)" "up t = 0" "down t = 0"
    by (auto simp: tunnel_init_def session_init_def new_client_def new_server_def session_new_def)
  moreover from this have "session_inv (near t)" "session_inv (far t)" "wire_inv (near t)" "wire_inv (far t)"
    by (blast intro: session_init_inv wire_init)+
  ultimately show "tunnel_inv t" by (simp add: tunnel_inv_def link_inv_def log_inv_def fin_waiting_def)
qed (rule tunnel_step_inv)

section \<open>End to end\<close>

text \<open>
  The bytes an application has read from a stream, compared with the frames \<open>frs\<close> its session has
  received: from the opening of the stream on, they are a prefix of the payloads of the stream;
  end of file was signalled only after a FIN of the stream and after all payloads before it; and
  while the stream is open and its pump runs, nothing is missing but what is in flight or queued.
\<close>

definition stream_in_order :: "bool \<Rightarrow> frame list \<Rightarrow> pump \<Rightarrow> bool" where
  "stream_in_order client frs p \<longleftrightarrow>
     (\<exists>frs1 frs2. frs = frs1 @ frs2 \<and>
        (client \<or> (\<exists>frs0 syn. frs1 = frs0 @ [syn] \<and> command syn = Syn \<and> stream_id syn = pump_stream p)) \<and>
        prefix (delivered p) (pushed (pump_stream p) frs2) \<and>
        (delivered_eof p \<longrightarrow> fin_after (pump_stream p) frs2 (delivered p)) \<and>
        (\<not> pump_token p \<and> pump_phase p \<notin> {PumpExit, PumpDone} \<longrightarrow>
          delivered p @ inflight p @ data_of (push_queue p) = pushed (pump_stream p) frs2))"

lemma data_before_fin: "prefix (data_of (before_fin ms)) (data_of ms)"
proof -
  have "data_of ms = data_of (takeWhile (\<lambda>m. m \<noteq> PushFin) ms) @ data_of (dropWhile (\<lambda>m. m \<noteq> PushFin) ms)"
    by (simp flip: data_of_simps(4))
  then show ?thesis by (simp add: before_fin_def prefix_def)
qed

lemma pump_order_running:
  "pump_order p \<Longrightarrow> pump_phase p \<notin> {PumpExit, PumpDone} \<Longrightarrow>
   data_of (accepted p) = delivered p @ inflight p @ data_of (push_queue p)"
  by (cases "pump_phase p") (auto simp: pump_order_def inflight_def)

lemma pump_log_in_order:
  assumes "pump_log client active waiting frs p" and "pump_order p" and "\<not> pump_token p \<Longrightarrow> active"
  shows "stream_in_order client frs p"
proof -
  from assms(1) obtain frs1 frs2 where l: "frs = frs1 @ frs2"
    "client \<or> (\<exists>frs0 syn. frs1 = frs0 @ [syn] \<and> command syn = Syn \<and> stream_id syn = pump_stream p)"
    "prefix (data_of (accepted p)) (pushed (pump_stream p) frs2)"
    "active \<longrightarrow> data_of (accepted p) = pushed (pump_stream p) frs2"
    "PushFin \<in> set (accepted p) \<longrightarrow> fin_after (pump_stream p) frs2 (data_of (before_fin (accepted p)))"
    unfolding pump_log_def by blast
  note d = pump_order_delivered [OF assms(2)]
  have "prefix (delivered p) (pushed (pump_stream p) frs2)"
    using d(1) data_before_fin l(3) by (blast intro: prefix_order.trans)
  moreover have "delivered_eof p \<longrightarrow> fin_after (pump_stream p) frs2 (delivered p)" using d(2) l(5) by simp
  moreover have "\<not> pump_token p \<and> pump_phase p \<notin> {PumpExit, PumpDone} \<longrightarrow>
      delivered p @ inflight p @ data_of (push_queue p) = pushed (pump_stream p) frs2"
    using pump_order_running [OF assms(2)] l(4) assms(3) by metis
  ultimately show ?thesis using l(1,2) unfolding stream_in_order_def by blast
qed

lemma link_in_order:
  assumes "link_inv n a b" and "\<not> closed b" and "p \<in> set (pumps b)"
  shows "stream_in_order (is_client b) (take n (sent_frames a)) p"
proof -
  from assms(3) obtain i where i: "i < length (pumps b)" "p = pumps b ! i" by (auto simp: in_set_conv_nth)
  have b: "session_inv b" using assms(1) by (simp add: link_inv_def)
  have "\<not> pump_token (pumps b ! i) \<Longrightarrow> pump_active i b"
    using b i(1) by (auto simp: session_inv_def linked_def pump_active_def split: option.splits)
  moreover have "pump_order (pumps b ! i)" using pump_inv_nth [OF b i(1)] by (simp add: pump_inv_def)
  ultimately show ?thesis
    using assms(1,2) i by (auto simp: link_inv_def log_inv_def intro: pump_log_in_order)
qed

section \<open>Settings come first\<close>

interpretation received_kept: kept_steps received_settings
  by unfold_locales
    (auto simp: primitive_updates split: primitive_splits)

lemma queue_control_settings: "received_settings (snd (queue_control fr s)) = received_settings s"
  by (auto simp: queue_control_def push_request_def split: sum.splits)

lemma receive_settings:
  assumes "receive_step digest order fr s s'" and "command fr = Settings" and "frame_ok fr" and "\<not> is_client s"
  shows "received_settings s'"
proof -
  have "received_settings (snd (on_receive_settings order bs t))" if "\<not> is_client t" for bs t
  proof -
    note keep = received_kept.on_receive_settings_keep [of "t\<lparr>received_settings := True\<rparr>" order bs]
    have "on_receive_settings order bs (t\<lparr>received_settings := True\<rparr>) = on_receive_settings order bs t"
      using that by (simp add: on_receive_settings_def)
    with keep show ?thesis by simp
  qed
  then have "received_settings (snd (receive_frame digest order now fr s))" for now
    using assms(2-4) by (auto simp: receive_frame_def frame_ok_def allows_data_def Let_def)
  with assms(1) show ?thesis
    by (cases rule: receive_step.cases) (metis snd_conv, metis snd_conv received_kept.shutdown_keep received_kept.keep_fields(5))
qed

definition greeting_inv :: "tunnel \<Rightarrow> bool" where
  "greeting_inv t \<longleftrightarrow> tunnel_inv t \<and> greeted (near t) \<and> (up t = 0 \<or> received_settings (far t))"

lemma greeting_step: "tunnel_step digest order v order' v' t t' \<Longrightarrow> greeting_inv t \<Longrightarrow> greeting_inv t'"
proof -
  assume step: "tunnel_step digest order v order' v' t t'" and inv: "greeting_inv t"
  from step inv have "tunnel_inv t'" by (auto simp: greeting_inv_def intro: tunnel_step_inv)
  moreover from step inv have "greeted (near t') \<and> (up t' = 0 \<or> received_settings (far t'))"
  proof (induction rule: tunnel_step.induct)
    case (near_local t s)
    then show ?case using greeted_step [OF disjI1 [OF near_local(1)]] by (simp add: greeting_inv_def)
  next
    case (far_local t s)
    then show ?case using received_kept.local_step_keep [OF far_local(1)] by (auto simp: greeting_inv_def)
  next
    case (near_receives t s)
    then show ?case using greeted_step [OF disjI2 [OF near_receives(2)]] by (simp add: greeting_inv_def)
  next
    case (far_padding fr t s)
    then show ?case using received_kept.receive_step_keep [OF far_padding(3)] by (auto simp: greeting_inv_def)
  next
    case (near_padding fr t s)
    then show ?case using greeted_step [OF disjI2 [OF near_padding(3)]] by (simp add: greeting_inv_def)
  next
    case (far_receives t s)
    have t: "tunnel_inv t" "greeted (near t)" using far_receives(3) by (simp_all add: greeting_inv_def)
    show ?case
    proof (cases "up t = 0")
      case True
      have "sent_frames (near t) ! up t = hd (sent_frames (near t))" "sent_frames (near t) \<noteq> []"
        using True far_receives(1) by (auto simp: hd_conv_nth)
      moreover have "frame_ok (sent_frames (near t) ! up t)" "\<not> is_client (far t)"
        using t(1) far_receives(1) by (auto simp: tunnel_inv_def link_inv_def intro: sent_frames_ok)
      ultimately have "received_settings s"
        using receive_settings [OF far_receives(2)] greeted_first [OF t(2)] by simp
      with t(2) show ?thesis by simp
    next
      case False
      with far_receives received_kept.receive_step_keep [OF far_receives(2)] show ?thesis by (simp add: greeting_inv_def)
    qed
  qed
  ultimately show "greeting_inv t'" by (simp add: greeting_inv_def)
qed

interpretation greeting: invariant_system tunnel_init "tunnel_step digest order v order' v'" greeting_inv
  for digest order v order' v'
proof
  fix t assume t: "tunnel_init t"
  then have "session_init (near t)" "is_client (near t)" "up t = 0"
    by (auto simp: tunnel_init_def session_init_def new_client_def session_new_def)
  with tunnel.init_inv [OF t] show "greeting_inv t" by (simp add: greeting_inv_def greeted_init)
qed (rule greeting_step)

end
