(* ===== verification/Tunnel_Runs.thy ===== *)
theory Tunnel_Runs
  imports Tunnel
begin

text \<open>
  Runs of the tunnel: the scheduler of a session extended to two of them, every turn a step of the
  tunnel, and the runs it is used for.
\<close>

section \<open>Turns\<close>

datatype turn = Near move | Far move | FarReads | NearReads

definition read_next :: "frame list \<Rightarrow> nat \<Rightarrow> session \<Rightarrow> session option" where
  "read_next frs n s =
     (if main_loop_running s \<and> n < length frs
      then case receive_frame (\<lambda>_. []) id 0 (frs ! n) s of (RecvContinue, s') \<Rightarrow> Some s' | _ \<Rightarrow> None
      else None)"

fun exec_turn :: "turn \<Rightarrow> tunnel \<Rightarrow> tunnel option" where
  "exec_turn (Near m) t = map_option (\<lambda>s. t\<lparr>near := s\<rparr>) (exec_move m (near t))"
| "exec_turn (Far m) t = map_option (\<lambda>s. t\<lparr>far := s\<rparr>) (exec_move m (far t))"
| "exec_turn FarReads t =
     map_option (\<lambda>s. t\<lparr>far := s, up := Suc (up t)\<rparr>) (read_next (sent_frames (near t)) (up t) (far t))"
| "exec_turn NearReads t =
     map_option (\<lambda>s. t\<lparr>near := s, down := Suc (down t)\<rparr>) (read_next (sent_frames (far t)) (down t) (near t))"

fun exec_turns :: "turn list \<Rightarrow> tunnel \<Rightarrow> tunnel option" where
  "exec_turns [] t = Some t"
| "exec_turns (m # ms) t = Option.bind (exec_turn m t) (exec_turns ms)"

lemma read_next_step:
  "read_next frs n s = Some s' \<Longrightarrow> n < length frs \<and> receive_step (\<lambda>_. []) id (frs ! n) s s'"
  by (auto simp: read_next_def split: if_splits prod.splits flow.splits intro: step_receive)

lemma exec_turn_step: "exec_turn m t = Some t' \<Longrightarrow> tunnel_step (\<lambda>_. []) id [] id [] t t'"
  by (cases m) (auto dest!: exec_move_step read_next_step intro: tunnel_step.intros)

lemma exec_turns_steps: "exec_turns ms t = Some t' \<Longrightarrow> (tunnel_step (\<lambda>_. []) id [] id [])\<^sup>*\<^sup>* t t'"
  by (induction ms arbitrary: t) (auto simp: bind_eq_Some_conv dest: exec_turn_step intro: converse_rtranclp_into_rtranclp)

section \<open>Evaluation\<close>

definition tunnel_start :: tunnel where
  "tunnel_start = \<lparr>near = new_client 1 sample_factory0 0 0, far = new_server 2 sample_factory0 0 0, up = 0, down = 0\<rparr>"

lemma tunnel_start_init: "tunnel_init tunnel_start"
  by (auto simp: tunnel_init_def tunnel_start_def)

definition opening_turns :: "turn list" where
  "opening_turns =
     [Near Run, Near Permit, Near Take, Near Finish, Near Answer, Far Run, FarReads,
      Near (Reserve 1), Near (Open 1), Near Permit, Near Take, Near Finish, Near Answer, FarReads]"

text \<open>The two settings texts of the run.\<close>

definition near_settings :: "(string \<times> string) list" where
  "near_settings = [(''v'', ''2''), (''client'', ''anytls(rust)/''), (''padding-md5'', []), (''session'', ''1'')]"

definition far_settings :: "(string \<times> string) list" where
  "far_settings = [(''v'', ''2''), (''session'', ''2'')]"

lemma settings_clean: "\<forall>e\<in>set near_settings. clean_entry e" "\<forall>e\<in>set far_settings. clean_entry e"
  by (simp_all add: near_settings_def far_settings_def clean_entry_def ascii_string_valid)

lemma settings_read: "from_bytes (to_bytes near_settings) = map_of near_settings"
  "from_bytes (to_bytes far_settings) = map_of far_settings"
  by (rule from_bytes_to_bytes [OF settings_clean(1)], simp add: near_settings_def,
      rule from_bytes_to_bytes [OF settings_clean(2)], simp add: far_settings_def)

lemma near_settings_bytes: "to_bytes near_settings =
   [118, 61, 50, 10, 99, 108, 105, 101, 110, 116, 61, 97, 110, 121, 116, 108, 115, 40, 114, 117, 115, 116, 41, 47, 10,
    112, 97, 100, 100, 105, 110, 103, 45, 109, 100, 53, 61, 10, 115, 101, 115, 115, 105, 111, 110, 61, 49]"
  by (simp add: near_settings_def to_bytes_def as_bytes_def)

lemma far_settings_bytes: "to_bytes far_settings = [118, 61, 50, 10, 115, 101, 115, 115, 105, 111, 110, 61, 50]"
  by (simp add: far_settings_def to_bytes_def as_bytes_def)

lemmas settings_eval = settings_read [unfolded near_settings_bytes far_settings_bytes, unfolded near_settings_def far_settings_def]

text \<open>The frames of the run.\<close>

lemma frames_read:
  "frame_of [4, 0, 0, 0, 0, 0, 47, 118, 61, 50, 10, 99, 108, 105, 101, 110, 116, 61, 97, 110, 121, 116, 108, 115, 40, 114, 117, 115, 116, 41, 47, 10, 112, 97, 100, 100, 105, 110, 103, 45, 109, 100, 53, 61, 10, 115, 101, 115, 115, 105, 111, 110, 61, 49] =
     Some \<lparr>command = Settings, stream_id = 0, data = [118, 61, 50, 10, 99, 108, 105, 101, 110, 116, 61, 97, 110, 121, 116, 108, 115, 40, 114, 117, 115, 116, 41, 47, 10, 112, 97, 100, 100, 105, 110, 103, 45, 109, 100, 53, 61, 10, 115, 101, 115, 115, 105, 111, 110, 61, 49]\<rparr>"
  "frame_of [1, 0, 0, 0, 1, 0, 0] =
     Some \<lparr>command = Syn, stream_id = 1, data = []\<rparr>"
  "frame_of [1, 0, 0, 0, 2, 0, 0] =
     Some \<lparr>command = Syn, stream_id = 2, data = []\<rparr>"
  "frame_of [2, 0, 0, 0, 1, 0, 1, 7] =
     Some \<lparr>command = Push, stream_id = 1, data = [7]\<rparr>"
  "frame_of [10, 0, 0, 0, 0, 0, 13, 118, 61, 50, 10, 115, 101, 115, 115, 105, 111, 110, 61, 50] =
     Some \<lparr>command = ServerSettings, stream_id = 0, data = [118, 61, 50, 10, 115, 101, 115, 115, 105, 111, 110, 61, 50]\<rparr>"
  "frame_of [3, 0, 0, 0, 1, 0, 0] =
     Some \<lparr>command = Fin, stream_id = 1, data = []\<rparr>"
  "frame_of [7, 0, 0, 0, 2, 0, 28, 115, 101, 115, 115, 105, 111, 110, 32, 115, 116, 114, 101, 97, 109, 32, 108, 105, 109, 105, 116, 32, 114, 101, 97, 99, 104, 101, 100] =
     Some \<lparr>command = SynAck, stream_id = 2, data = [115, 101, 115, 115, 105, 111, 110, 32, 115, 116, 114, 101, 97, 109, 32, 108, 105, 109, 105, 116, 32, 114, 101, 97, 99, 104, 101, 100]\<rparr>"
  by (rule frame_of_encode, simp add: encode_def to_be_bytes32_def to_be_bytes16_def MAX_FRAME_DATA_SIZE_def)+

lemmas turn_eval = move_eval read_next_def sent_frames_def map_filter_def frames_read receive_frame_def
  valid_stream_id_def allows_data_def on_receive_settings_def on_receive_syn_cmd_def on_receive_push_def
  queue_control_def push_send_def take_slots_def sample_factory0_def tunnel_start_def
  on_receive_fin_cmd_def on_receive_server_settings_def on_receive_synack_def

section \<open>What the tunnel delivers\<close>


text \<open>A byte sent through the tunnel on stream 1.\<close>

definition sending_turns :: "turn list" where
  "sending_turns =
     [Near (Send 1 [7]), Near Permit, Near Take, Near Finish, FarReads, Far (PumpTakes 0), Far (PumpWrites 0)]"

lemma sending_run: "\<exists>t. exec_turns (opening_turns @ sending_turns) tunnel_start = Some t \<and> \<not> closed (far t) \<and>
   length (pumps (far t)) = 1 \<and> delivered (pumps (far t) ! 0) = [7] \<and>
   take (up t) (sent_frames (near t)) = sent_frames (near t) \<and> sent_frames (near t) \<noteq> []"
  by (simp add: opening_turns_def sending_turns_def turn_eval settings_eval)


text \<open>C9: Two sessions of this program never refuse each other's frames as invalid: the settings of the
  client are the first frame it writes, so the server has them before any SYN, and every frame
  either of them writes has a stream id and a payload its command allows.\<close>

theorem tunnel_frames_admitted:
  assumes "tunnel_init t0" and "(tunnel_step digest order v order' v')\<^sup>*\<^sup>* t0 t"
  shows "(sent_frames (near t) \<noteq> [] \<longrightarrow> command (hd (sent_frames (near t))) = Settings) \<and>
    (\<forall>now. up t < length (sent_frames (near t)) \<longrightarrow>
      fst (receive_frame digest order' now (sent_frames (near t) ! up t) (far t)) \<noteq> RecvStop (Inl InvalidData)) \<and>
    (\<forall>now. down t < length (sent_frames (far t)) \<longrightarrow>
      fst (receive_frame digest order now (sent_frames (far t) ! down t) (near t)) \<noteq> RecvStop (Inl InvalidData))"
proof -
  have g: "greeting_inv t" using greeting.reachable_inv [OF assms] .
  then have t: "tunnel_inv t" "greeted (near t)" "up t = 0 \<or> received_settings (far t)" by (simp_all add: greeting_inv_def)
  have first: "sent_frames (near t) \<noteq> [] \<Longrightarrow> command (hd (sent_frames (near t))) = Settings"
    using greeted_first [OF t(2)] .
  have ok: "frame_ok fr" if "fr \<in> set (sent_frames (near t)) \<union> set (sent_frames (far t))" for fr
    using t(1) that by (auto simp: tunnel_inv_def link_inv_def intro: sent_frames_ok)
  have "fst (receive_frame digest order' now (sent_frames (near t) ! up t) (far t)) \<noteq> RecvStop (Inl InvalidData)"
    if n: "up t < length (sent_frames (near t))" for now
  proof
    assume "fst (receive_frame digest order' now (sent_frames (near t) ! up t) (far t)) = RecvStop (Inl InvalidData)"
    from admitted_frame [OF _ this] ok n have "command (sent_frames (near t) ! up t) = Syn \<and> \<not> received_settings (far t)"
      by simp
    with t(3) n first show False by (cases "sent_frames (near t)") auto
  qed
  moreover have "fst (receive_frame digest order now (sent_frames (far t) ! down t) (near t)) \<noteq> RecvStop (Inl InvalidData)"
    if n: "down t < length (sent_frames (far t))" for now
    using admitted_frame [of "sent_frames (far t) ! down t" digest order now "near t"] ok n t(1) by (auto simp: tunnel_inv_def)
  ultimately show ?thesis using first by blast
qed

theorem tunnel_frames_admitted_witness:
  "\<exists>t. exec_turns (opening_turns @ sending_turns) tunnel_start = Some t \<and> command (hd (sent_frames (near t))) = Settings"
proof -
  from sending_run obtain t where t: "exec_turns (opening_turns @ sending_turns) tunnel_start = Some t"
    "delivered (pumps (far t) ! 0) = [7]" "sent_frames (near t) \<noteq> []" by blast
  with tunnel_frames_admitted [OF tunnel_start_init exec_turns_steps [OF t(1)]] show ?thesis by blast
qed

section \<open>A SYN overtakes a FIN\<close>

text \<open>
  The client is still writing its last payload when its FIN is queued behind it; the server's FIN
  arrives, the stream is removed and the session is idle; the SYN of the next stream is a control
  request and is written first.
\<close>

definition closing_turns :: "turn list" where
  "closing_turns =
     [Near (Send 1 [7]), Near Permit, Near Take, Near (SendEnd 1), Near Permit,
      Far (SendEnd 1), Far Permit, Far Take, Far Finish, Far Take, Far Finish, NearReads, NearReads, Near (PumpTakes 0)]"

definition overtaking_turns :: "turn list" where
  "overtaking_turns =
     [Near (Reserve 2), Near (Open 2), Near Permit, Near Finish, Near Take, Near Finish,
      FarReads, FarReads, Far Take, Far Finish, NearReads]"

lemma overtaking_run: "\<exists>t. exec_turns (opening_turns @ closing_turns @ overtaking_turns) tunnel_start = Some t \<and>
   map (\<lambda>fr. (command fr, stream_id fr)) (sent_frames (near t)) = [(Settings, 0), (Syn, 1), (Push, 1), (Syn, 2)] \<and>
   map bytes (data_queue (near t)) = [[3, 0, 0, 0, 1, 0, 0]] \<and>
   map (\<lambda>fr. (command fr, stream_id fr)) (sent_frames (far t)) = [(ServerSettings, 0), (Fin, 1), (SynAck, 2)] \<and>
   data (last (sent_frames (far t))) = as_bytes ''session stream limit reached'' \<and>
   closed (near t) \<and> \<not> closed (far t)"
  by (simp add: opening_turns_def closing_turns_def overtaking_turns_def turn_eval settings_eval)


end
