(* ===== verification/Traffic_Audit.thy ===== *)
theory Traffic_Audit
  imports Prelude "HOL-Library.AList"
begin

text \<open>
  The traffic counters of the server's clients (\<^verbatim>\<open>src/panel_sync/traffic_audit.rs\<close>). The hash map is
  an association list in one of its iteration orders; client ids are of an arbitrary type.
\<close>

definition saturating_add :: "u64 \<Rightarrow> u64 \<Rightarrow> u64" where
  "saturating_add a b = (if b > - 1 - a then - 1 else a + b)"

definition saturating_sub :: "u64 \<Rightarrow> u64 \<Rightarrow> u64" where
  "saturating_sub a b = (if a < b then 0 else a - b)"

record client_traffic =
  enabled :: bool
  upstream :: u64
  downstream :: u64

definition default_traffic :: client_traffic where
  "default_traffic = \<lparr>enabled = False, upstream = 0, downstream = 0\<rparr>"

type_synonym 'u audit = "('u \<times> client_traffic) list"

definition client_ids :: "'u audit \<Rightarrow> 'u list" where
  "client_ids a = map fst a"

definition sync_client :: "'u \<Rightarrow> bool \<Rightarrow> 'u audit \<Rightarrow> 'u audit" where
  "sync_client u e a =
     AList.update u ((case map_of a u of None \<Rightarrow> default_traffic | Some t \<Rightarrow> t)\<lparr>enabled := e\<rparr>) a"

definition remove_missing_clients :: "'u list \<Rightarrow> 'u audit \<Rightarrow> 'u list \<times> 'u audit" where
  "remove_missing_clients seen a =
     (let removed = filter (\<lambda>u. u \<notin> set seen) (client_ids a) in (removed, fold AList.delete removed a))"

definition is_enabled :: "'u \<Rightarrow> 'u audit \<Rightarrow> bool" where
  "is_enabled u a = (case map_of a u of None \<Rightarrow> False | Some t \<Rightarrow> enabled t)"

definition add_upstream :: "'u \<Rightarrow> u64 \<Rightarrow> 'u audit \<Rightarrow> 'u audit" where
  "add_upstream u n a =
     (case map_of a u of
        None \<Rightarrow> a | Some t \<Rightarrow> AList.update u (t\<lparr>upstream := saturating_add (upstream t) n\<rparr>) a)"

definition add_downstream :: "'u \<Rightarrow> u64 \<Rightarrow> 'u audit \<Rightarrow> 'u audit" where
  "add_downstream u n a =
     (case map_of a u of
        None \<Rightarrow> a | Some t \<Rightarrow> AList.update u (t\<lparr>downstream := saturating_add (downstream t) n\<rparr>) a)"

definition traffic :: "'u \<Rightarrow> 'u audit \<Rightarrow> u64 \<times> u64" where
  "traffic u a = (case map_of a u of None \<Rightarrow> (0, 0) | Some t \<Rightarrow> (upstream t, downstream t))"

section \<open>Lemmas\<close>

lemma unat_saturating_add: "unat (saturating_add a b) = min (unat a + unat b) (2 ^ 64 - 1)"
proof -
  have m: "unat (- 1 - a :: u64) = 2 ^ 64 - 1 - unat a"
  proof -
    have "a \<le> - 1" by (rule word_order.extremum)
    then have "unat (- 1 - a) = unat (- 1 :: u64) - unat a" by (simp add: unat_sub)
    moreover have "unat (- 1 :: u64) = 2 ^ 64 - 1" by (simp add: unsigned_minus_1_eq_mask mask_eq_exp_minus_1)
    ultimately show ?thesis by simp
  qed
  have a: "unat a < 2 ^ LENGTH(64)" by (rule unsigned_less)
  show ?thesis
  proof (cases "b > - 1 - a")
    case True
    then have "2 ^ 64 - 1 - unat a < unat b" using m by (simp add: word_less_nat_alt)
    with True show ?thesis by (simp add: saturating_add_def unsigned_minus_1_eq_mask mask_eq_exp_minus_1)
  next
    case False
    then have "unat b \<le> 2 ^ 64 - 1 - unat a" using m by (simp add: word_less_nat_alt)
    moreover from this have "unat (a + b) = unat a + unat b"
      using a by (intro unat_plus_if_size [THEN trans]) (simp add: word_size)
    ultimately show ?thesis using False a by (simp add: saturating_add_def)
  qed
qed

lemma saturating_add_ge: "a \<le> saturating_add a b"
proof -
  have "unat a < 2 ^ LENGTH(64)" by (rule unsigned_less)
  then have "unat a \<le> unat (saturating_add a b)" by (simp add: unat_saturating_add)
  then show ?thesis by (simp add: word_le_nat_alt)
qed

lemma unat_saturating_sub: "unat (saturating_sub a b) = unat a - unat b"
  by (simp add: saturating_sub_def unat_sub word_less_nat_alt word_le_nat_alt)

lemma fold_delete: "map_of (fold AList.delete us a) = (map_of a) |` (- set us)"
  by (induction us arbitrary: a) (auto simp: delete_conv' restrict_map_def fun_eq_iff)

lemma keys_distinct:
  "distinct (map fst a) \<Longrightarrow> distinct (map fst (sync_client u e a))"
  "distinct (map fst a) \<Longrightarrow> distinct (map fst (add_upstream u n a))"
  "distinct (map fst a) \<Longrightarrow> distinct (map fst (add_downstream u n a))"
  "distinct (map fst a) \<Longrightarrow> distinct (map fst (snd (remove_missing_clients seen a)))"
proof -
  have del: "distinct (map fst b) \<Longrightarrow> distinct (map fst (fold AList.delete us b))" for us and b :: "('k \<times> 'v) list"
    by (induction us arbitrary: b) (simp_all add: distinct_delete)
  show "distinct (map fst a) \<Longrightarrow> distinct (map fst (sync_client u e a))"
    "distinct (map fst a) \<Longrightarrow> distinct (map fst (add_upstream u n a))"
    "distinct (map fst a) \<Longrightarrow> distinct (map fst (add_downstream u n a))"
    by (simp_all add: sync_client_def add_upstream_def add_downstream_def distinct_update split: option.splits)
  show "distinct (map fst a) \<Longrightarrow> distinct (map fst (snd (remove_missing_clients seen a)))"
    by (simp add: remove_missing_clients_def Let_def del)
qed

section \<open>Properties\<close>

text \<open>Accounting touches one counter of one known client: it grows by the bytes added and stops at
  the largest 64-bit number instead of wrapping, the other direction, the other clients and all
  permissions stay as they were, and traffic of an unknown client is ignored.\<close>

theorem accounting_saturates:
  "traffic v (add_upstream u n a) =
     (if v = u \<and> map_of a u \<noteq> None then (saturating_add (fst (traffic u a)) n, snd (traffic u a)) else traffic v a) \<and>
   traffic v (add_downstream u n a) =
     (if v = u \<and> map_of a u \<noteq> None then (fst (traffic u a), saturating_add (snd (traffic u a)) n) else traffic v a) \<and>
   unat (saturating_add (fst (traffic u a)) n) = min (unat (fst (traffic u a)) + unat n) (2 ^ 64 - 1) \<and>
   is_enabled v (add_upstream u n a) = is_enabled v a \<and> is_enabled v (add_downstream u n a) = is_enabled v a"
  by (auto simp: traffic_def add_upstream_def add_downstream_def is_enabled_def update_conv' unat_saturating_add
      split: option.splits)

end
