(* ===== verification/Panel_Sync.thy ===== *)
theory Panel_Sync
  imports Rust_Strings Traffic_Audit Transition
begin

text \<open>
  The synchronisation with the management panel (\<^verbatim>\<open>src/panel_sync/core.rs\<close>): the list of clients is
  fetched, the traffic is reported. The crates behind it are parameters: \<open>'l url_api\<close> holds the
  operations of the \<^verbatim>\<open>url\<close> crate that are called, \<open>uuid_parse\<close> is \<^verbatim>\<open>Uuid::parse_str\<close>, and the outcome
  of a request is a value \<open>http_outcome\<close>. Client ids are of an arbitrary type \<open>'u\<close>. All errors of the
  component are \<^verbatim>\<open>std::io::Error::other\<close>.
\<close>

section \<open>Configuration\<close>

record 'l panel_sync_config =
  webapi_url :: "'l option"
  webapi_token :: "string option"
  node_id :: "nat option"
  update_interval_secs :: "u64 option"

definition is_configured :: "'l panel_sync_config \<Rightarrow> bool" where
  "is_configured c \<longleftrightarrow> webapi_url c \<noteq> None \<and> webapi_token c \<noteq> None \<and> node_id c \<noteq> None"

definition validate :: "'l panel_sync_config \<Rightarrow> unit io_result" where
  "validate c =
     (if webapi_url c = None then Inl OtherError
      else if webapi_token c = None then Inl OtherError
      else if node_id c = None then Inl OtherError else Inr ())"

definition interval_secs :: "'l panel_sync_config \<Rightarrow> u64" where
  "interval_secs c = max (case update_interval_secs c of None \<Rightarrow> 60 | Some n \<Rightarrow> n) 5"

section \<open>JSON payloads\<close>

text \<open>\<^verbatim>\<open>serde_json::Value\<close>; a number that is not an integer is only kept as text, nothing reads it.\<close>

datatype json =
    JNull | JBool bool | JInt int | JFloat string | JString string
  | JArray "json list" | JObject "(string \<times> json) list"

definition json_get :: "string \<Rightarrow> json \<Rightarrow> json option" where
  "json_get k v = (case v of JObject kvs \<Rightarrow> map_of kvs k | _ \<Rightarrow> None)"

definition as_i64 :: "json \<Rightarrow> int option" where
  "as_i64 v = (case v of JInt n \<Rightarrow> if - (2 ^ 63) \<le> n \<and> n < 2 ^ 63 then Some n else None | _ \<Rightarrow> None)"

record 'u sync_user =
  user_client_id :: "'u option"
  enable :: bool

definition deserialize_optional_uuid :: "(string \<Rightarrow> 'u option) \<Rightarrow> json \<Rightarrow> 'u option" where
  "deserialize_optional_uuid uuid_parse v = (case v of JString s \<Rightarrow> uuid_parse s | _ \<Rightarrow> None)"

definition deserialize_enable :: "json option \<Rightarrow> bool io_result" where
  "deserialize_enable v =
     (case v of None \<Rightarrow> Inr True | Some (JBool b) \<Rightarrow> Inr b | Some _ \<Rightarrow> Inl OtherError)"

text \<open>A derived \<^verbatim>\<open>Deserialize\<close> takes the fields of an object, or the elements of an array in field order.\<close>

definition sync_user_fields :: "(string \<Rightarrow> 'u option) \<Rightarrow> json option \<Rightarrow> json option \<Rightarrow> 'u sync_user io_result" where
  "sync_user_fields uuid_parse c e =
     io_bind (deserialize_enable e) (\<lambda>b.
       Inr \<lparr>user_client_id = Option.bind c (deserialize_optional_uuid uuid_parse), enable = b\<rparr>)"

definition deserialize_sync_user :: "(string \<Rightarrow> 'u option) \<Rightarrow> json \<Rightarrow> 'u sync_user io_result" where
  "deserialize_sync_user uuid_parse v =
     (case v of
        JObject kvs \<Rightarrow> sync_user_fields uuid_parse (map_of kvs ''client_id'') (map_of kvs ''enable'')
      | JArray [] \<Rightarrow> sync_user_fields uuid_parse None None
      | JArray [c] \<Rightarrow> sync_user_fields uuid_parse (Some c) None
      | JArray [c, e] \<Rightarrow> sync_user_fields uuid_parse (Some c) (Some e)
      | _ \<Rightarrow> Inl OtherError)"

fun deserialize_all :: "('a \<Rightarrow> 'b io_result) \<Rightarrow> 'a list \<Rightarrow> 'b list io_result" where
  "deserialize_all f [] = Inr []"
| "deserialize_all f (x # xs) = io_bind (f x) (\<lambda>y. io_bind (deserialize_all f xs) (\<lambda>ys. Inr (y # ys)))"

definition deserialize_users :: "(string \<Rightarrow> 'u option) \<Rightarrow> json \<Rightarrow> 'u sync_user list io_result" where
  "deserialize_users uuid_parse v =
     (case v of JArray vs \<Rightarrow> deserialize_all (deserialize_sync_user uuid_parse) vs | _ \<Rightarrow> Inl OtherError)"

text \<open>A request fails to be sent, or is answered with a status and a body; a body that is cut short
  or is not JSON is \<open>None\<close>.\<close>

datatype http_outcome = Send_Failed | Response nat "json option"

definition parse_payload :: "(json \<Rightarrow> 'a io_result) \<Rightarrow> nat \<Rightarrow> json option \<Rightarrow> 'a io_result" where
  "parse_payload from_value status body =
     (if status \<noteq> 200 then Inl OtherError
      else case body of
        None \<Rightarrow> Inl OtherError
      | Some v \<Rightarrow>
          if (case Option.bind (json_get ''ret'' v) as_i64 of None \<Rightarrow> 0 | Some n \<Rightarrow> n) = 0 then Inl OtherError
          else from_value (case json_get ''data'' v of None \<Rightarrow> v | Some d \<Rightarrow> d))"

definition payload_of :: "(json \<Rightarrow> 'a io_result) \<Rightarrow> http_outcome \<Rightarrow> 'a io_result" where
  "payload_of from_value out =
     (case out of Send_Failed \<Rightarrow> Inl OtherError | Response status body \<Rightarrow> parse_payload from_value status body)"

section \<open>The panel client\<close>

record 'l url_api =
  url_path :: "'l \<Rightarrow> string"
  set_path :: "string \<Rightarrow> 'l \<Rightarrow> 'l"
  clear_fragment :: "'l \<Rightarrow> 'l"
  append_pair :: "string \<Rightarrow> string \<Rightarrow> 'l \<Rightarrow> 'l"

definition endpoint :: "'l url_api \<Rightarrow> 'l panel_sync_config \<Rightarrow> string \<Rightarrow> 'l io_result" where
  "endpoint api c action =
     (case webapi_url c of
        None \<Rightarrow> Inl OtherError
      | Some url \<Rightarrow>
          (case webapi_token c of
             None \<Rightarrow> Inl OtherError
           | Some token \<Rightarrow>
               (case node_id c of
                  None \<Rightarrow> Inl OtherError
                | Some n \<Rightarrow>
                    (let path = trim_end_matches (CHR ''/'') (url_path api url) @ ''/mod_mu/'' @ action;
                         url1 = clear_fragment api (set_path api path url)
                     in Inr (append_pair api ''node_id'' (nat_to_string n) (append_pair api ''key'' token url1))))))"

record 'u traffic_delta =
  delta_client :: 'u
  delta_u :: u64
  delta_d :: u64

record 'u pending_report =
  sequence :: u64
  data :: "'u traffic_delta list"
  traffic_snapshot :: "('u \<times> u64 \<times> u64) list"

record ('u, 'l) panel_client =
  config :: "'l panel_sync_config"
  reported_traffic :: "('u \<times> u64 \<times> u64) list"
  reporter_id :: 'u
  next_report_sequence :: u64
  pending_traffic :: "'u pending_report option"

definition panel_client_new :: "'l panel_sync_config \<Rightarrow> 'u \<Rightarrow> ('u, 'l) panel_client" where
  "panel_client_new c r =
     \<lparr>config = c, reported_traffic = [], reporter_id = r, next_report_sequence = 1, pending_traffic = None\<rparr>"

section \<open>Fetching the clients\<close>

fun sync_users :: "'u sync_user list \<Rightarrow> 'u list \<Rightarrow> 'u audit \<Rightarrow> 'u list \<times> 'u audit" where
  "sync_users [] seen a = (seen, a)"
| "sync_users (x # xs) seen a =
     (case user_client_id x of
        Some u \<Rightarrow> sync_users xs (List.insert u seen) (sync_client u (enable x) a)
      | None \<Rightarrow> sync_users xs seen a)"

definition sync_once ::
  "'l url_api \<Rightarrow> (string \<Rightarrow> 'u option) \<Rightarrow> http_outcome \<Rightarrow> ('u, 'l) panel_client \<Rightarrow> 'u audit
     \<Rightarrow> unit io_result \<times> ('u, 'l) panel_client \<times> 'u audit" where
  "sync_once api uuid_parse out p a =
     (case endpoint api (config p) ''users'' of
        Inl e \<Rightarrow> (Inl e, p, a)
      | Inr url \<Rightarrow>
          (case payload_of (deserialize_users uuid_parse) out of
             Inl e \<Rightarrow> (Inl e, p, a)
           | Inr users \<Rightarrow>
               (let (seen, a1) = sync_users users [] a;
                    (removed, a2) = remove_missing_clients seen a1
                in (Inr (), p\<lparr>reported_traffic := fold AList.delete removed (reported_traffic p)\<rparr>, a2))))"

section \<open>Reporting the traffic\<close>

fun collect_deltas ::
  "('u \<times> u64 \<times> u64) list \<Rightarrow> ('u \<times> u64 \<times> u64) list \<Rightarrow> 'u traffic_delta list \<times> ('u \<times> u64 \<times> u64) list" where
  "collect_deltas rep [] = ([], [])"
| "collect_deltas rep ((u, up, down) # xs) =
     (let prev = (case map_of rep u of None \<Rightarrow> (0, 0) | Some t \<Rightarrow> t);
          du = saturating_sub up (fst prev);
          dd = saturating_sub down (snd prev);
          (ds, snap) = collect_deltas rep xs
      in if du = 0 \<and> dd = 0 then (ds, snap)
         else (\<lparr>delta_client = u, delta_u = du, delta_d = dd\<rparr> # ds, (u, up, down) # snap))"

text \<open>The report to send: the pending one, or a new one when anything is to be reported. The outer
  option is empty when there is nothing to do.\<close>

definition prepare_report ::
  "('u, 'l) panel_client \<Rightarrow> 'u audit \<Rightarrow> 'u pending_report option io_result \<times> ('u, 'l) panel_client" where
  "prepare_report p a =
     (case pending_traffic p of
        Some r \<Rightarrow> (Inr (Some r), p)
      | None \<Rightarrow>
          (let (ds, snap) = collect_deltas (reported_traffic p) (map (\<lambda>u. (u, traffic u a)) (client_ids a));
               n = next_report_sequence p
           in if ds = [] then (Inr None, p)
              else if n = - 1 then (Inl OtherError, p)
              else let r = \<lparr>sequence = n, data = ds, traffic_snapshot = snap\<rparr>
                   in (Inr (Some r), p\<lparr>next_report_sequence := n + 1, pending_traffic := Some r\<rparr>)))"

text \<open>The second component is the report that is posted, if one is.\<close>

definition report_traffic_once ::
  "'l url_api \<Rightarrow> http_outcome \<Rightarrow> ('u, 'l) panel_client \<Rightarrow> 'u audit
     \<Rightarrow> unit io_result \<times> ('l \<times> 'u pending_report) option \<times> ('u, 'l) panel_client" where
  "report_traffic_once api out p a =
     (case prepare_report p a of
        (Inl e, p1) \<Rightarrow> (Inl e, None, p1)
      | (Inr None, p1) \<Rightarrow> (Inr (), None, p1)
      | (Inr (Some r), p1) \<Rightarrow>
          (case endpoint api (config p1) ''users/traffic'' of
             Inl e \<Rightarrow> (Inl e, None, p1)
           | Inr url \<Rightarrow>
               (case payload_of Inr out of
                  Inl e \<Rightarrow> (Inl e, Some (url, r), p1)
                | Inr v \<Rightarrow>
                    (Inr (), Some (url, r),
                     p1\<lparr>reported_traffic := AList.merge (reported_traffic p1) (traffic_snapshot r), pending_traffic := None\<rparr>))))"

section \<open>The task\<close>

text \<open>One turn of the loop of \<^verbatim>\<open>run\<close>: the outcome of the two requests, \<open>None\<close> where the cancellation
  wins. The result says whether the loop goes on; a failure of either request does not stop it.\<close>

definition run_round ::
  "'l url_api \<Rightarrow> (string \<Rightarrow> 'u option) \<Rightarrow> http_outcome option \<Rightarrow> http_outcome option
     \<Rightarrow> ('u, 'l) panel_client \<Rightarrow> 'u audit \<Rightarrow> bool \<times> ('u, 'l) panel_client \<times> 'u audit" where
  "run_round api uuid_parse sync_out report_out p a =
     (case sync_out of
        None \<Rightarrow> (False, p, a)
      | Some o1 \<Rightarrow>
          (case sync_once api uuid_parse o1 p a of
             (_, p1, a1) \<Rightarrow>
               (case report_out of
                  None \<Rightarrow> (False, p1, a1)
                | Some o2 \<Rightarrow> (case report_traffic_once api o2 p1 a1 of (_, _, p2) \<Rightarrow> (True, p2, a1)))))"

fun run_loop ::
  "'l url_api \<Rightarrow> (string \<Rightarrow> 'u option) \<Rightarrow> (http_outcome option \<times> http_outcome option) list
     \<Rightarrow> ('u, 'l) panel_client \<Rightarrow> 'u audit \<Rightarrow> bool \<times> ('u, 'l) panel_client \<times> 'u audit" where
  "run_loop api uuid_parse [] p a = (True, p, a)"
| "run_loop api uuid_parse ((o1, o2) # os) p a =
     (case run_round api uuid_parse o1 o2 p a of
        (False, p1, a1) \<Rightarrow> (False, p1, a1)
      | (True, p1, a1) \<Rightarrow> run_loop api uuid_parse os p1 a1)"

text \<open>The whole task over the turns that have elapsed: \<open>True\<close> while it still waits for the next one.\<close>

definition run_panel ::
  "'l url_api \<Rightarrow> (string \<Rightarrow> 'u option) \<Rightarrow> (http_outcome option \<times> http_outcome option) list
     \<Rightarrow> ('u, 'l) panel_client \<Rightarrow> 'u audit \<Rightarrow> bool \<times> ('u, 'l) panel_client \<times> 'u audit" where
  "run_panel api uuid_parse os p a =
     (case validate (config p) of Inl _ \<Rightarrow> (False, p, a) | Inr _ \<Rightarrow> run_loop api uuid_parse os p a)"

section \<open>What a synchronisation does\<close>

text \<open>The permission a list of users gives a client: its last entry counts.\<close>

definition panel_permission :: "'u sync_user list \<Rightarrow> 'u \<Rightarrow> bool option" where
  "panel_permission users u = map_of (rev (map (\<lambda>x. (user_client_id x, enable x)) users)) (Some u)"

definition known :: "client_traffic option \<Rightarrow> client_traffic" where
  "known t = (case t of None \<Rightarrow> default_traffic | Some t \<Rightarrow> t)"

lemma panel_permission_Cons:
  "panel_permission (x # xs) u =
     (case panel_permission xs u of
        Some b \<Rightarrow> Some b | None \<Rightarrow> if user_client_id x = Some u then Some (enable x) else None)"
  by (auto simp: panel_permission_def map_add_def split: option.splits)

lemma panel_permission_Nil [simp]: "panel_permission [] u = None"
  by (simp add: panel_permission_def)

lemma map_of_sync_client:
  "map_of (sync_client v e a) u = (if u = v then Some ((known (map_of a v))\<lparr>enabled := e\<rparr>) else map_of a u)"
  by (simp add: sync_client_def known_def update_conv')

lemma known_simps [simp]: "known (Some t) = t"
  by (simp add: known_def)

lemma sync_users_map:
  "map_of (snd (sync_users users seen a)) u =
     (case panel_permission users u of
        None \<Rightarrow> map_of a u | Some b \<Rightarrow> Some ((known (map_of a u))\<lparr>enabled := b\<rparr>))"
  by (induction users seen a rule: sync_users.induct)
    (auto simp: panel_permission_Cons map_of_sync_client split: option.splits)

lemma sync_users_seen:
  "set (fst (sync_users users seen a)) = set seen \<union> {u. panel_permission users u \<noteq> None}"
  by (induction users seen a rule: sync_users.induct)
    (auto simp: panel_permission_Cons split: option.splits)

lemma remove_missing_map:
  "map_of (snd (remove_missing_clients seen a)) u = (if u \<in> set seen then map_of a u else None)"
proof -
  have "u \<notin> set (client_ids a) \<Longrightarrow> map_of a u = None"
    by (simp add: client_ids_def map_of_eq_None_iff)
  then show ?thesis
    by (auto simp: remove_missing_clients_def Let_def fold_delete restrict_map_def)
qed

lemma removed_clients:
  "set (fst (remove_missing_clients seen a)) = {u. map_of a u \<noteq> None \<and> u \<notin> set seen}"
  by (auto simp: remove_missing_clients_def Let_def client_ids_def map_of_eq_None_iff)

lemma sync_once_okE:
  assumes "sync_once api uuid_parse out p a = (Inr (), p', a')"
  obtains users removed where "payload_of (deserialize_users uuid_parse) out = Inr users"
    and "\<And>u. map_of a' u = map_option (\<lambda>b. (known (map_of a u))\<lparr>enabled := b\<rparr>) (panel_permission users u)"
    and "p' = p\<lparr>reported_traffic := fold AList.delete removed (reported_traffic p)\<rparr>"
    and "set removed = {u. map_of a u \<noteq> None \<and> panel_permission users u = None}"
proof -
  from assms obtain users where users: "payload_of (deserialize_users uuid_parse) out = Inr users"
    and out: "(let (seen, a1) = sync_users users [] a; (removed, a2) = remove_missing_clients seen a1
      in (Inr (), p\<lparr>reported_traffic := fold AList.delete removed (reported_traffic p)\<rparr>, a2))
      = (Inr () :: unit io_result, p', a')"
    by (auto simp: sync_once_def split: sum.splits)
  obtain seen a1 where su: "sync_users users [] a = (seen, a1)" by (cases "sync_users users [] a")
  obtain removed a2 where rm: "remove_missing_clients seen a1 = (removed, a2)"
    by (cases "remove_missing_clients seen a1")
  have seen: "set seen = {u. panel_permission users u \<noteq> None}"
    using sync_users_seen [of users "[]" a] su by simp
  have a1: "map_of a1 u = (case panel_permission users u of
        None \<Rightarrow> map_of a u | Some b \<Rightarrow> Some ((known (map_of a u))\<lparr>enabled := b\<rparr>))" for u
    using sync_users_map [of users "[]" a u] su by simp
  have a2: "map_of a2 u = (if u \<in> set seen then map_of a1 u else None)" for u
    using remove_missing_map [of seen a1 u] rm by simp
  have removed: "set removed = {u. map_of a1 u \<noteq> None \<and> u \<notin> set seen}"
    using removed_clients [of seen a1] rm by simp
  show thesis
  proof (rule that [OF users])
    show "map_of a' u = map_option (\<lambda>b. (known (map_of a u))\<lparr>enabled := b\<rparr>) (panel_permission users u)" for u
      using out su rm a2 [of u] a1 [of u] seen by (auto split: option.splits)
    show "p' = p\<lparr>reported_traffic := fold AList.delete removed (reported_traffic p)\<rparr>"
      using out su rm by simp
    show "set removed = {u. map_of a u \<noteq> None \<and> panel_permission users u = None}"
      using removed a1 seen by auto
  qed
qed

lemma sync_once_failed:
  "sync_once api uuid_parse out p a = (Inl e, p', a') \<Longrightarrow> p' = p \<and> a' = a"
  by (auto simp: sync_once_def Let_def split: sum.splits prod.splits)

lemma keys_distinct_users:
  "distinct (map fst a) \<Longrightarrow> distinct (map fst (snd (sync_users users seen a)))"
  by (induction users seen a rule: sync_users.induct) (auto simp: keys_distinct split: option.splits)

lemma sync_once_distinct:
  assumes "sync_once api uuid_parse out p a = (r, p', a')" and "distinct (map fst a)"
  shows "distinct (map fst a')"
proof -
  have "a' = a \<or> (\<exists>users. a' = snd (remove_missing_clients (fst (sync_users users [] a)) (snd (sync_users users [] a))))"
    using assms(1) by (auto simp: sync_once_def Let_def case_prod_beta split: sum.splits)
  then show ?thesis using assms(2) keys_distinct(4) [OF keys_distinct_users [OF assms(2)]] by auto
qed

text \<open>C39: A synchronisation with the panel either fails and changes nothing, or the audit then holds
  exactly the clients of the panel's list, each with the permission of its last entry there; the
  counters of a client that stays are kept, a new client starts at zero, and a client that is not
  listed any more is refused.\<close>

theorem sync_follows_the_panel:
  "case sync_once api uuid_parse out p a of (r, p', a') \<Rightarrow>
     (case r of
        Inl e \<Rightarrow> p' = p \<and> a' = a
      | Inr _ \<Rightarrow>
          \<exists>users. payload_of (deserialize_users uuid_parse) out = Inr users \<and>
            set (client_ids a') = {u. panel_permission users u \<noteq> None} \<and>
            (\<forall>u. is_enabled u a' = (panel_permission users u = Some True) \<and>
                 traffic u a' = (if panel_permission users u = None then (0, 0) else traffic u a)))"
proof -
  obtain r p' a' where so: "sync_once api uuid_parse out p a = (r, p', a')"
    by (cases "sync_once api uuid_parse out p a")
  show ?thesis
  proof (cases r)
    case (Inl e)
    with so show ?thesis using sync_once_failed [of api uuid_parse out p a e p' a'] by simp
  next
    case (Inr x)
    with so have so': "sync_once api uuid_parse out p a = (Inr (), p', a')" by simp
    obtain users where users: "payload_of (deserialize_users uuid_parse) out = Inr users"
      and a': "\<And>u. map_of a' u = map_option (\<lambda>b. (known (map_of a u))\<lparr>enabled := b\<rparr>) (panel_permission users u)"
      by (rule sync_once_okE [OF so']) blast
    have "set (client_ids a') = {u. map_of a' u \<noteq> None}"
      by (auto simp: client_ids_def map_of_eq_None_iff)
    then have ids: "set (client_ids a') = {u. panel_permission users u \<noteq> None}" by (simp add: a')
    have "is_enabled u a' = (panel_permission users u = Some True) \<and>
        traffic u a' = (if panel_permission users u = None then (0, 0) else traffic u a)" for u
      by (auto simp: is_enabled_def traffic_def a' known_def default_traffic_def split: option.splits)
    with users ids so' show ?thesis by auto
  qed
qed

end
