(* ===== verification/Panel_Reports.thy ===== *)
theory Panel_Reports
  imports Panel_Sync
begin

text \<open>
  The panel task together with the counters that the proxied connections advance: a transition
  system over the operations of \<open>Panel_Sync\<close> and \<open>Traffic_Audit\<close>. The task owns the panel client and
  reads the audit only when it takes a snapshot or applies a list of users, so each of its requests
  is one step. The state also records, for the statements only, every report that was posted, every
  report whose acknowledgement arrived, and every client a synchronisation has removed.
\<close>

record ('u, 'l) panel_system =
  panel :: "('u, 'l) panel_client"
  audit :: "'u audit"
  posts :: "'u pending_report list"
  acked :: "'u pending_report list"
  dropped :: "'u list"

definition posted :: "('l \<times> 'u pending_report) option \<Rightarrow> 'u pending_report list" where
  "posted post = (case post of None \<Rightarrow> [] | Some (url, r) \<Rightarrow> [r])"

inductive panel_step ::
  "'l url_api \<Rightarrow> (string \<Rightarrow> 'u option) \<Rightarrow> ('u, 'l) panel_system \<Rightarrow> ('u, 'l) panel_system \<Rightarrow> bool"
  for api and uuid_parse where
  sync: "sync_once api uuid_parse out (panel s) (audit s) = (r, p, a) \<Longrightarrow>
    panel_step api uuid_parse s
      (s\<lparr>panel := p, audit := a,
         dropped := filter (\<lambda>u. u \<notin> set (client_ids a)) (client_ids (audit s)) @ dropped s\<rparr>)"
| report: "report_traffic_once api out (panel s) (audit s) = (r, post, p) \<Longrightarrow>
    panel_step api uuid_parse s
      (s\<lparr>panel := p, posts := posts s @ posted post,
         acked := (if is_ok r then acked s @ posted post else acked s)\<rparr>)"
| up: "panel_step api uuid_parse s (s\<lparr>audit := add_upstream u n (audit s)\<rparr>)"
| down: "panel_step api uuid_parse s (s\<lparr>audit := add_downstream u n (audit s)\<rparr>)"

definition panel_init :: "('u, 'l) panel_system \<Rightarrow> bool" where
  "panel_init s \<longleftrightarrow>
     (\<exists>c r. s = \<lparr>panel = panel_client_new c r, audit = [], posts = [], acked = [], dropped = []\<rparr>)"

section \<open>One report\<close>

abbreviation acknowledge :: "'u pending_report \<Rightarrow> ('u, 'l) panel_client \<Rightarrow> ('u, 'l) panel_client" where
  "acknowledge r p \<equiv>
     p\<lparr>reported_traffic := AList.merge (reported_traffic p) (traffic_snapshot r), pending_traffic := None\<rparr>"

lemma prepare_reportE:
  assumes "prepare_report p a = (q, p1)"
  obtains (kept) r where "pending_traffic p = Some r" "q = Inr (Some r)" "p1 = p"
  | (unchanged) "pending_traffic p = None" "q = Inr None" "p1 = p"
      "fst (collect_deltas (reported_traffic p) (map (\<lambda>u. (u, traffic u a)) (client_ids a))) = []"
  | (exhausted) "pending_traffic p = None" "q = Inl OtherError" "p1 = p"
  | (fresh) r where "pending_traffic p = None" "q = Inr (Some r)" "sequence r = next_report_sequence p"
      "next_report_sequence p \<noteq> - 1"
      "collect_deltas (reported_traffic p) (map (\<lambda>u. (u, traffic u a)) (client_ids a)) = (data r, traffic_snapshot r)"
      "p1 = p\<lparr>next_report_sequence := next_report_sequence p + 1, pending_traffic := Some r\<rparr>"
proof (cases "pending_traffic p")
  case (Some r)
  with assms show thesis by (intro kept [of r]) (auto simp: prepare_report_def)
next
  case None
  obtain ds snap where cd: "collect_deltas (reported_traffic p) (map (\<lambda>u. (u, traffic u a)) (client_ids a)) = (ds, snap)"
    by (cases "collect_deltas (reported_traffic p) (map (\<lambda>u. (u, traffic u a)) (client_ids a))")
  consider "ds = []" | "ds \<noteq> []" "next_report_sequence p = - 1" | "ds \<noteq> []" "next_report_sequence p \<noteq> - 1"
    by blast
  then show thesis
  proof cases
    case 1
    with assms None cd show thesis by (intro unchanged) (auto simp: prepare_report_def)
  next
    case 2
    with assms None cd show thesis by (intro exhausted) (auto simp: prepare_report_def)
  next
    case 3
    let ?r = "\<lparr>sequence = next_report_sequence p, data = ds, traffic_snapshot = snap\<rparr>"
    from 3 assms None cd show thesis
      by (intro fresh [of ?r]) (auto simp: prepare_report_def Let_def)
  qed
qed

lemma report_onceE:
  assumes "report_traffic_once api out p a = (r, post, p')"
  obtains (silent) q p1 where "prepare_report p a = (q, p1)" "post = None" "p' = p1" "is_ok r \<Longrightarrow> q = Inr None"
  | (lost) x p1 url where "prepare_report p a = (Inr (Some x), p1)" "post = Some (url, x)" "\<not> is_ok r" "p' = p1"
  | (settled) x p1 url where "prepare_report p a = (Inr (Some x), p1)" "post = Some (url, x)" "is_ok r" "p' = acknowledge x p1"
  using assms by (auto simp: report_traffic_once_def split: option.splits prod.splits sum.splits)

section \<open>Every report is counted once\<close>

definition report_inv :: "('u, 'l) panel_system \<Rightarrow> bool" where
  "report_inv s \<longleftrightarrow>
     sorted_wrt (\<lambda>x y. sequence x < sequence y) (acked s) \<and>
     (\<forall>x\<in>set (acked s). sequence x < next_report_sequence (panel s)) \<and>
     (\<forall>x\<in>set (posts s). x \<in> set (acked s) \<or> pending_traffic (panel s) = Some x) \<and>
     (\<forall>r. pending_traffic (panel s) = Some r \<longrightarrow>
        sequence r < next_report_sequence (panel s) \<and> (\<forall>x\<in>set (acked s). sequence x < sequence r))"

lemma next_sequence: "(n :: u64) \<noteq> - 1 \<Longrightarrow> n < n + 1"
proof -
  assume "n \<noteq> - 1"
  then have "1 + n \<noteq> 0" using max_word_wrap [of n] by (auto simp: add.commute)
  then show "n < n + 1" by (simp add: word_less_nat_alt unatSuc add.commute [of n])
qed

lemma report_inv_init: "panel_init s \<Longrightarrow> report_inv s"
  by (auto simp: panel_init_def report_inv_def panel_client_new_def)

lemma report_inv_prepare:
  assumes "report_inv s" and "prepare_report (panel s) a = (q, p1)"
  shows "report_inv (s\<lparr>panel := p1\<rparr>)"
  using assms(2)
proof (cases rule: prepare_reportE)
  case (fresh r)
  then show ?thesis using assms(1) next_sequence [of "next_report_sequence (panel s)"]
    by (auto simp: report_inv_def intro: less_trans)
qed (use assms(1) in simp_all)

lemma prepare_pending: "prepare_report p a = (Inr (Some x), p1) \<Longrightarrow> pending_traffic p1 = Some x"
  by (erule prepare_reportE) auto

lemma report_inv_step:
  assumes "report_inv s" and "panel_step api uuid_parse s s'"
  shows "report_inv s'"
  using assms(2)
proof cases
  case (sync out r p a)
  have "next_report_sequence p = next_report_sequence (panel s) \<and> pending_traffic p = pending_traffic (panel s)"
    using sync(2) by (auto simp: sync_once_def Let_def split: sum.splits prod.splits)
  with sync(1) assms(1) show ?thesis by (simp add: report_inv_def)
next
  case (report out r post p)
  from report(2) show ?thesis
  proof (cases rule: report_onceE)
    case (silent q p1)
    with report(1) report_inv_prepare [OF assms(1) silent(1)] show ?thesis by (simp add: posted_def report_inv_def)
  next
    case (lost x p1 url)
    with report(1) report_inv_prepare [OF assms(1) lost(1)] prepare_pending [OF lost(1)]
    show ?thesis by (auto simp: posted_def report_inv_def)
  next
    case (settled x p1 url)
    with report(1) report_inv_prepare [OF assms(1) settled(1)] prepare_pending [OF settled(1)]
    show ?thesis by (auto simp: posted_def report_inv_def sorted_wrt_append)
  qed
qed (use assms(1) in \<open>simp_all add: report_inv_def\<close>)

interpretation reports: invariant_system panel_init "panel_step api uuid_parse" report_inv for api uuid_parse
  by unfold_locales (auto intro: report_inv_init report_inv_step)

section \<open>Accounting\<close>

datatype direction = Upstream | Downstream

primrec dir_val :: "direction \<Rightarrow> u64 \<times> u64 \<Rightarrow> nat" where
  "dir_val Upstream t = unat (fst t)"
| "dir_val Downstream t = unat (snd t)"

primrec dir_delta :: "direction \<Rightarrow> 'u traffic_delta \<Rightarrow> nat" where
  "dir_delta Upstream d = unat (delta_u d)"
| "dir_delta Downstream d = unat (delta_d d)"

text \<open>The bytes a list of deltas, and a list of reports, charges to a client.\<close>

definition delta_sum :: "direction \<Rightarrow> 'u \<Rightarrow> 'u traffic_delta list \<Rightarrow> nat" where
  "delta_sum dir u ds = (\<Sum>d\<leftarrow>ds. if delta_client d = u then dir_delta dir d else 0)"

definition charged :: "direction \<Rightarrow> 'u \<Rightarrow> 'u pending_report list \<Rightarrow> nat" where
  "charged dir u rs = (\<Sum>r\<leftarrow>rs. delta_sum dir u (data r))"

definition reported_of :: "('u \<times> u64 \<times> u64) list \<Rightarrow> 'u \<Rightarrow> u64 \<times> u64" where
  "reported_of rep u = (case map_of rep u of None \<Rightarrow> (0, 0) | Some t \<Rightarrow> t)"

lemma delta_sum_simps [simp]:
  "delta_sum dir u [] = 0"
  "delta_sum dir u (d # ds) = (if delta_client d = u then dir_delta dir d else 0) + delta_sum dir u ds"
  by (simp_all add: delta_sum_def)

lemma charged_append [simp]: "charged dir u (rs @ rs') = charged dir u rs + charged dir u rs'"
  by (simp add: charged_def)

lemma charged_posted [simp]:
  "charged dir u [] = 0" "charged dir u [r] = delta_sum dir u (data r)"
  by (simp_all add: charged_def)

lemma dir_val_zero [simp]: "dir_val dir (0, 0) = 0"
  by (cases dir) simp_all

lemma collect_deltas_Cons:
  "collect_deltas rep ((u, t) # xs) =
     (if dir_val Upstream t \<le> dir_val Upstream (reported_of rep u) \<and> dir_val Downstream t \<le> dir_val Downstream (reported_of rep u)
      then collect_deltas rep xs
      else (\<lparr>delta_client = u, delta_u = saturating_sub (fst t) (fst (reported_of rep u)),
               delta_d = saturating_sub (snd t) (snd (reported_of rep u))\<rparr> # fst (collect_deltas rep xs),
            (u, t) # snd (collect_deltas rep xs)))"
proof -
  have "saturating_sub a b = 0 \<longleftrightarrow> unat a \<le> unat b" for a b
    using unat_saturating_sub [of a b] by (metis diff_is_0_eq unat_0 unat_eq_zero)
  then show ?thesis by (cases t) (simp add: Let_def case_prod_beta reported_of_def)
qed

lemma collect_deltas_sum:
  assumes "distinct (map fst xs)"
  shows "delta_sum dir u (fst (collect_deltas rep xs)) =
     (case map_of xs u of None \<Rightarrow> 0 | Some t \<Rightarrow> dir_val dir t - dir_val dir (reported_of rep u))"
  using assms
proof (induction xs)
  case (Cons x xs)
  obtain v t where x: "x = (v, t)" by (cases x)
  have notin: "map_of xs v = None" using Cons.prems x by (simp add: map_of_eq_None_iff)
  show ?case
    using Cons x notin by (cases dir) (auto simp: collect_deltas_Cons unat_saturating_sub split: option.splits)
qed simp

lemma collect_deltas_snapshot:
  assumes "distinct (map fst xs)"
  shows "map_of (snd (collect_deltas rep xs)) u =
     (case map_of xs u of
        None \<Rightarrow> None
      | Some t \<Rightarrow>
          if \<forall>dir. dir_val dir t \<le> dir_val dir (reported_of rep u) then None else Some t)"
  using assms
proof (induction xs)
  case (Cons x xs)
  obtain v t where x: "x = (v, t)" by (cases x)
  have notin: "map_of xs v = None" using Cons.prems x by (simp add: map_of_eq_None_iff)
  have all: "(\<forall>dir. P dir) = (P Upstream \<and> P Downstream)" for P
    by (metis direction.exhaust)
  show ?case
    using Cons x notin by (auto simp: collect_deltas_Cons all split: option.splits)
qed simp

lemma map_of_snapshot:
  "map_of (map (\<lambda>u. (u, traffic u a)) (client_ids a)) u = (if map_of a u = None then None else Some (traffic u a))"
proof -
  have "u \<in> set (client_ids a) \<longleftrightarrow> map_of a u \<noteq> None" by (simp add: client_ids_def map_of_eq_None_iff)
  then show ?thesis by (simp add: map_of_map_restrict restrict_map_def)
qed

lemma traffic_unknown: "map_of a u = None \<Longrightarrow> traffic u a = (0, 0)"
  by (simp add: traffic_def)

definition accounts :: "direction \<Rightarrow> 'u \<Rightarrow> ('u, 'l) panel_system \<Rightarrow> bool" where
  "accounts dir u s \<longleftrightarrow>
     (let rep = dir_val dir (reported_of (reported_traffic (panel s)) u);
          now = dir_val dir (traffic u (audit s))
      in charged dir u (acked s) = rep \<and> rep \<le> now \<and>
         (\<forall>r. pending_traffic (panel s) = Some r \<longrightarrow>
            (case map_of (traffic_snapshot r) u of
               None \<Rightarrow> delta_sum dir u (data r) = 0
             | Some t \<Rightarrow> rep + delta_sum dir u (data r) = dir_val dir t \<and> dir_val dir t \<le> now)))"

text \<open>The accounts of every client that was never removed are right.\<close>

definition accounts_inv :: "('u, 'l) panel_system \<Rightarrow> bool" where
  "accounts_inv s \<longleftrightarrow>
     distinct (map fst (audit s)) \<and> (\<forall>dir u. u \<notin> set (dropped s) \<longrightarrow> accounts dir u s)"

lemma accounts_inv_init: "panel_init s \<Longrightarrow> accounts_inv s"
  by (auto simp: panel_init_def accounts_inv_def accounts_def panel_client_new_def reported_of_def)

lemma accounts_more_traffic:
  assumes "accounts dir u s" and "dir_val dir (traffic u (audit s)) \<le> dir_val dir (traffic u a)"
  shows "accounts dir u (s\<lparr>audit := a\<rparr>)"
  using assms by (fastforce simp: accounts_def Let_def split: option.splits)

lemma traffic_grows:
  "dir_val dir (traffic u a) \<le> dir_val dir (traffic u (add_upstream v n a))"
  "dir_val dir (traffic u a) \<le> dir_val dir (traffic u (add_downstream v n a))"
  using saturating_add_ge
  by (cases dir; auto simp: traffic_def add_upstream_def add_downstream_def update_conv' word_le_nat_alt
      split: option.splits)+

lemma accounts_prepare:
  assumes "accounts dir u s" and "distinct (map fst (audit s))"
    and "prepare_report (panel s) (audit s) = (q, p1)"
  shows "accounts dir u (s\<lparr>panel := p1\<rparr>)"
  using assms(3)
proof (cases rule: prepare_reportE)
  case (fresh r)
  let ?rep = "reported_traffic (panel s)" and ?xs = "map (\<lambda>u. (u, traffic u (audit s))) (client_ids (audit s))"
  have d: "distinct (map fst ?xs)" using assms(2) by (simp add: client_ids_def comp_def)
  have sum: "delta_sum dir u (data r) =
      (case map_of ?xs u of None \<Rightarrow> 0 | Some t \<Rightarrow> dir_val dir t - dir_val dir (reported_of ?rep u))"
    using collect_deltas_sum [OF d, of dir u ?rep] fresh(5) by simp
  have snap: "map_of (traffic_snapshot r) u = (case map_of ?xs u of None \<Rightarrow> None | Some t \<Rightarrow>
      if \<forall>dir. dir_val dir t \<le> dir_val dir (reported_of ?rep u) then None else Some t)"
    using collect_deltas_snapshot [OF d, of ?rep u] fresh(5) by simp
  show ?thesis
    using assms(1) fresh sum snap
    by (cases "map_of (audit s) u") (auto simp: accounts_def Let_def map_of_snapshot)
qed (use assms(1) in simp_all)

lemma accounts_acknowledge:
  assumes "accounts dir u s" and "pending_traffic (panel s) = Some r"
  shows "accounts dir u (s\<lparr>panel := acknowledge r (panel s), posts := ps, acked := acked s @ [r]\<rparr>)"
  using assms
  by (cases "map_of (traffic_snapshot r) u")
    (auto simp: accounts_def Let_def reported_of_def merge_conv' map_add_def)

lemma accounts_posts: "accounts dir u (s\<lparr>posts := ps\<rparr>) = accounts dir u s"
  by (simp add: accounts_def)

lemma accounts_sync:
  assumes "accounts dir u s" and "sync_once api uuid_parse out (panel s) (audit s) = (r, p, a)"
    and "u \<notin> set (filter (\<lambda>u. u \<notin> set (client_ids a)) (client_ids (audit s)))"
  shows "accounts dir u (s\<lparr>panel := p, audit := a\<rparr>)"
proof (cases r)
  case (Inl e)
  with assms show ?thesis using sync_once_failed [of api uuid_parse out "panel s" "audit s" e p a] by simp
next
  case (Inr x)
  with assms(2) have ok: "sync_once api uuid_parse out (panel s) (audit s) = (Inr (), p, a)" by simp
  obtain users removed
    where a: "\<And>u. map_of a u = map_option (\<lambda>b. (known (map_of (audit s) u))\<lparr>enabled := b\<rparr>) (panel_permission users u)"
      and p: "p = (panel s)\<lparr>reported_traffic := fold AList.delete removed (reported_traffic (panel s))\<rparr>"
      and removed: "set removed = {u. map_of (audit s) u \<noteq> None \<and> panel_permission users u = None}"
    by (rule sync_once_okE [OF ok]) blast
  have "u \<notin> set removed"
    using assms(3) a [of u] by (auto simp: removed client_ids_def map_of_eq_None_iff [symmetric])
  moreover from this have "traffic u a = traffic u (audit s)"
    using a [of u] by (auto simp: removed traffic_def known_def default_traffic_def split: option.splits)
  ultimately show ?thesis using assms(1)
    by (simp add: accounts_def p reported_of_def fold_delete restrict_map_def)
qed

lemma accounts_report:
  assumes "accounts dir u s" and "distinct (map fst (audit s))"
    and "report_traffic_once api out (panel s) (audit s) = (r, post, p)"
  shows "accounts dir u (s\<lparr>panel := p, posts := posts s @ posted post,
           acked := (if is_ok r then acked s @ posted post else acked s)\<rparr>)"
  using assms(3)
proof (cases rule: report_onceE)
  case (silent q p1)
  with accounts_prepare [OF assms(1,2) silent(1)] show ?thesis by (simp add: posted_def accounts_def)
next
  case (lost x p1 url)
  with accounts_prepare [OF assms(1,2) lost(1)] show ?thesis by (simp add: posted_def accounts_def)
next
  case (settled x p1 url)
  have "accounts dir u (s\<lparr>panel := p1\<rparr>)" by (rule accounts_prepare [OF assms(1,2) settled(1)])
  from accounts_acknowledge [OF this, of x "posts s @ [x]"] settled prepare_pending [OF settled(1)]
  show ?thesis by (simp add: posted_def)
qed

lemma accounts_inv_step:
  assumes "accounts_inv s" and "panel_step api uuid_parse s s'"
  shows "accounts_inv s'"
  using assms(2)
proof cases
  case (sync out r p a)
  have "distinct (map fst a)"
    using sync_once_distinct [OF sync(2)] assms(1) by (simp add: accounts_inv_def)
  moreover have "accounts dir u s'" if "u \<notin> set (dropped s')" for dir u
    using that assms(1) accounts_sync [OF _ sync(2), of dir u] sync(1)
    by (auto simp: accounts_inv_def accounts_def)
  ultimately show ?thesis by (simp add: accounts_inv_def sync(1))
next
  case (report out r post p)
  with assms(1) accounts_report [OF _ _ report(2)] show ?thesis by (simp add: accounts_inv_def)
next
  case (up u n)
  with assms(1) show ?thesis
    by (auto simp: accounts_inv_def keys_distinct intro!: accounts_more_traffic traffic_grows)
next
  case (down u n)
  with assms(1) show ?thesis
    by (auto simp: accounts_inv_def keys_distinct intro!: accounts_more_traffic traffic_grows)
qed

interpretation accounts: invariant_system panel_init "panel_step api uuid_parse" accounts_inv for api uuid_parse
  by unfold_locales (auto intro: accounts_inv_init accounts_inv_step)

lemma report_catches_up:
  assumes "accounts dir u s" and "distinct (map fst (audit s))" and "pending_traffic (panel s) = None"
    and "report_traffic_once api out (panel s) (audit s) = (Inr (), post, p)"
  shows "charged dir u (acked s @ posted post) = dir_val dir (traffic u (audit s))"
proof -
  let ?rep = "reported_traffic (panel s)" and ?xs = "map (\<lambda>u. (u, traffic u (audit s))) (client_ids (audit s))"
  have d: "distinct (map fst ?xs)" using assms(2) by (simp add: client_ids_def comp_def)
  have acc: "charged dir u (acked s) = dir_val dir (reported_of ?rep u)"
    "dir_val dir (reported_of ?rep u) \<le> dir_val dir (traffic u (audit s))"
    using assms(1) by (simp_all add: accounts_def Let_def)
  have "charged dir u (posted post) = delta_sum dir u (fst (collect_deltas ?rep ?xs))"
    using assms(4)
  proof (cases rule: report_onceE)
    case (silent q p1)
    from silent(1) show ?thesis using silent(2,4) by (cases rule: prepare_reportE) (auto simp: posted_def)
  next
    case (settled x p1 url)
    from settled(1) show ?thesis using settled(2) assms(3) by (cases rule: prepare_reportE) (auto simp: posted_def)
  qed simp
  with collect_deltas_sum [OF d, of dir u ?rep] acc show ?thesis
    by (auto simp: map_of_snapshot traffic_unknown split: if_splits)
qed

section \<open>Properties\<close>

text \<open>C16: A traffic report is retried until it is acknowledged and never changes on the way: two posts
  with the same sequence number carry the same data, the acknowledged reports have strictly
  increasing numbers that never wrap, and any other post is a copy of the pending report. A panel
  that ignores numbers it has seen therefore counts every report once.\<close>

theorem reports_counted_once:
  assumes "panel_init s0" and "(panel_step api uuid_parse)\<^sup>*\<^sup>* s0 s"
  shows "(\<forall>x\<in>set (posts s). \<forall>y\<in>set (posts s). sequence x = sequence y \<longrightarrow> x = y) \<and>
     sorted_wrt (\<lambda>x y. sequence x < sequence y) (acked s) \<and>
     (\<forall>x\<in>set (posts s). x \<in> set (acked s) \<or> pending_traffic (panel s) = Some x)"
proof -
  have inv: "report_inv s" by (rule reports.reachable_inv [OF assms])
  have strict: "x = y" if "sorted_wrt (\<lambda>x y. sequence x < sequence y) rs" "x \<in> set rs" "y \<in> set rs" "sequence x = sequence y"
    for rs :: "'a pending_report list" and x y
    using that by (induction rs) auto
  have "x = y" if "x \<in> set (posts s)" "y \<in> set (posts s)" "sequence x = sequence y" for x y
    using inv strict [of "acked s" x y] that unfolding report_inv_def
    by (metis less_irrefl option.inject)
  then show ?thesis using inv by (auto simp: report_inv_def)
qed

text \<open>C15: For a client that was never removed, the panel has been charged, over all acknowledged
  reports, no more bytes than the client has transferred in either direction, and after a
  successful report with nothing outstanding it has been charged exactly the bytes counted so far.\<close>

theorem charges_match_traffic:
  assumes "panel_init s0" and "(panel_step api uuid_parse)\<^sup>*\<^sup>* s0 s" and "u \<notin> set (dropped s)"
  shows "charged dir u (acked s) \<le> dir_val dir (traffic u (audit s)) \<and>
     (pending_traffic (panel s) = None \<longrightarrow>
      report_traffic_once api out (panel s) (audit s) = (Inr (), post, p) \<longrightarrow>
      charged dir u (acked s @ posted post) = dir_val dir (traffic u (audit s)))"
proof -
  have "accounts_inv s" by (rule accounts.reachable_inv [OF assms(1,2)])
  then have acc: "accounts dir u s" "distinct (map fst (audit s))" using assms(3) by (simp_all add: accounts_inv_def)
  from acc(1) have "charged dir u (acked s) \<le> dir_val dir (traffic u (audit s))"
    by (simp add: accounts_def Let_def)
  with report_catches_up [OF acc] show ?thesis by blast
qed

text \<open>C40: A client that the panel removes while a report about it is outstanding and lists again later is
  under-reported: the late acknowledgement restores its old totals as already reported, so of the
  traffic of its new life nothing is reported until it exceeds those totals.\<close>

theorem readded_client_underreported:
  assumes "pending_traffic p = Some r" and "map_of (traffic_snapshot r) u = Some t"
    and "sync_once api uuid_parse out1 p a = (Inr (), p1, a1)" and "u \<notin> set (client_ids a1)"
    and "report_traffic_once api out2 p1 a1 = (Inr (), Some (url, r), p2)"
    and "sync_once api uuid_parse out3 p2 a1 = (Inr (), p3, a3)" and "u \<in> set (client_ids a3)"
    and "distinct (client_ids a3)" and "unat n \<le> unat (fst t)"
    and "report_traffic_once api out4 p3 (add_upstream u n a3) = (res, post, p4)"
  shows "traffic u (add_upstream u n a3) = (n, 0) \<and> charged Upstream u (posted post) = 0"
proof -
  have "pending_traffic p1 = Some r"
    by (rule sync_once_okE [OF assms(3)]) (simp add: assms(1))
  then have p2: "p2 = acknowledge r p1"
    using assms(5) by (auto elim!: report_onceE prepare_reportE)
  have gone: "map_of a1 u = None" using assms(4) by (simp add: client_ids_def map_of_eq_None_iff)
  obtain users removed
    where a3: "\<And>v. map_of a3 v = map_option (\<lambda>b. (known (map_of a1 v))\<lparr>enabled := b\<rparr>) (panel_permission users v)"
      and p3: "p3 = p2\<lparr>reported_traffic := fold AList.delete removed (reported_traffic p2)\<rparr>"
      and removed: "set removed = {v. map_of a1 v \<noteq> None \<and> panel_permission users v = None}"
    by (rule sync_once_okE [OF assms(6)]) blast
  have "u \<notin> set removed" by (simp add: removed gone)
  then have rep: "reported_of (reported_traffic p3) u = t"
    by (simp add: p3 p2 reported_of_def fold_delete restrict_map_def merge_conv' map_add_def assms(2))
  have listed: "map_of a3 u \<noteq> None" using assms(7) by (simp add: client_ids_def map_of_eq_None_iff)
  then have tr: "traffic u (add_upstream u n a3) = (n, 0)"
    using a3 [of u] gone
    by (auto simp: traffic_def add_upstream_def update_conv' known_def default_traffic_def saturating_add_def
        split: option.splits)
  let ?xs = "map (\<lambda>v. (v, traffic v (add_upstream u n a3))) (client_ids (add_upstream u n a3))"
  have "distinct (map fst ?xs)"
    using keys_distinct(2) [of a3 u n] assms(8) by (simp add: client_ids_def comp_def)
  from collect_deltas_sum [OF this, of Upstream u "reported_traffic p3"]
  have zero: "delta_sum Upstream u (fst (collect_deltas (reported_traffic p3) ?xs)) = 0"
    using assms(9) by (simp add: map_of_snapshot tr rep)
  have "pending_traffic p3 = None" by (simp add: p3 p2)
  with assms(10) zero have "charged Upstream u (posted post) = 0"
    by (cases rule: report_onceE) (auto simp: posted_def elim!: prepare_reportE)
  with tr show ?thesis by simp
qed

section \<open>Witnesses\<close>

text \<open>A URL as its path and its query pairs, clients as numbers.\<close>

definition sample_api :: "(string \<times> (string \<times> string) list) url_api" where
  "sample_api =
     \<lparr>url_path = fst, set_path = (\<lambda>p u. (p, snd u)), clear_fragment = (\<lambda>u. u),
      append_pair = (\<lambda>k v u. (fst u, snd u @ [(k, v)]))\<rparr>"

definition sample_parse :: "string \<Rightarrow> nat option" where
  "sample_parse s = (if s = ''a'' then Some 1 else None)"

definition sample_config :: "(string \<times> (string \<times> string) list) panel_sync_config" where
  "sample_config =
     \<lparr>webapi_url = Some (''/panel/'', []), webapi_token = Some ''token'', node_id = Some 7, update_interval_secs = None\<rparr>"

definition sample_list :: "json list \<Rightarrow> http_outcome" where
  "sample_list us = Response 200 (Some (JObject [(''ret'', JInt 1), (''data'', JArray us)]))"

abbreviation sample_users :: http_outcome where
  "sample_users \<equiv> sample_list [JObject [(''client_id'', JString ''a'')], JObject [(''client_id'', JString ''b'')]]"

lemma sample_node: "nat_to_string 7 = ''7''"
  by code_simp

lemmas panel_eval =
  sync_once_def report_traffic_once_def prepare_report_def endpoint_def payload_of_def parse_payload_def
  deserialize_users_def deserialize_sync_user_def sync_user_fields_def deserialize_enable_def
  deserialize_optional_uuid_def json_get_def as_i64_def remove_missing_clients_def client_ids_def
  sync_client_def add_upstream_def traffic_def default_traffic_def saturating_sub_def saturating_add_def
  sample_api_def sample_parse_def sample_config_def sample_list_def panel_client_new_def posted_def Let_def
  trim_end_matches_def sample_node

lemma sample_sync:
  "sync_once sample_api sample_parse sample_users (panel_client_new sample_config 9) [] =
     (Inr (), panel_client_new sample_config 9, [(1, \<lparr>enabled = True, upstream = 0, downstream = 0\<rparr>)])"
  by (simp add: panel_eval)

section \<open>Witnesses of the report properties\<close>

definition sample_traffic :: "nat audit" where
  "sample_traffic = [(1, \<lparr>enabled = True, upstream = 11, downstream = 0\<rparr>)]"

definition sample_report :: "nat pending_report" where
  "sample_report =
     \<lparr>sequence = 1, data = [\<lparr>delta_client = 1, delta_u = 11, delta_d = 0\<rparr>], traffic_snapshot = [(1, 11, 0)]\<rparr>"

definition sample_pending :: "(nat, string \<times> (string \<times> string) list) panel_client" where
  "sample_pending =
     \<lparr>config = sample_config, reported_traffic = [], reporter_id = 9, next_report_sequence = 2,
      pending_traffic = Some sample_report\<rparr>"

lemma sample_lost:
  "report_traffic_once sample_api Send_Failed (panel_client_new sample_config 9) sample_traffic =
     (Inl OtherError, Some ((''/panel/mod_mu/users/traffic'', [(''key'', ''token''), (''node_id'', ''7'')]), sample_report),
      sample_pending)"
  by (simp add: panel_eval sample_traffic_def sample_report_def sample_pending_def)

definition sample_settled :: "(nat, string \<times> (string \<times> string) list) panel_client" where
  "sample_settled =
     \<lparr>config = sample_config, reported_traffic = [(1, 11, 0)], reporter_id = 9, next_report_sequence = 2,
      pending_traffic = None\<rparr>"

lemma sample_retry:
  "report_traffic_once sample_api (sample_list []) sample_pending a =
     (Inr (), Some ((''/panel/mod_mu/users/traffic'', [(''key'', ''token''), (''node_id'', ''7'')]), sample_report),
      sample_settled)"
  by (simp add: panel_eval sample_report_def sample_pending_def sample_settled_def)

definition sample_start :: "(nat, string \<times> (string \<times> string) list) panel_system" where
  "sample_start = \<lparr>panel = panel_client_new sample_config 9, audit = [], posts = [], acked = [], dropped = []\<rparr>"

abbreviation sample_busy :: "(nat, string \<times> (string \<times> string) list) panel_system" where
  "sample_busy \<equiv> sample_start\<lparr>audit := sample_traffic\<rparr>"

abbreviation sample_end :: "(nat, string \<times> (string \<times> string) list) panel_system" where
  "sample_end \<equiv>
     sample_busy\<lparr>panel := sample_settled, posts := [sample_report, sample_report], acked := [sample_report]\<rparr>"

lemma sample_init: "panel_init sample_start"
  by (auto simp: panel_init_def sample_start_def)

lemma sample_busy_reachable: "(panel_step sample_api sample_parse)\<^sup>*\<^sup>* sample_start sample_busy"
proof -
  have 1: "panel_step sample_api sample_parse sample_start
      (sample_start\<lparr>audit := [(1, \<lparr>enabled = True, upstream = 0, downstream = 0\<rparr>)]\<rparr>)"
    using panel_step.sync [of sample_api sample_parse sample_users sample_start, unfolded sample_start_def, simplified, OF sample_sync]
    by (simp add: sample_start_def client_ids_def)
  have 2: "panel_step sample_api sample_parse
      (sample_start\<lparr>audit := [(1, \<lparr>enabled = True, upstream = 0, downstream = 0\<rparr>)]\<rparr>) sample_busy"
    using panel_step.up [of sample_api sample_parse
        "sample_start\<lparr>audit := [(1, \<lparr>enabled = True, upstream = 0, downstream = 0\<rparr>)]\<rparr>" 1 11]
    by (simp add: sample_start_def sample_traffic_def add_upstream_def saturating_add_def)
  from 1 2 show ?thesis by (meson rtranclp.rtrancl_into_rtrancl rtranclp.rtrancl_refl)
qed

lemma sample_end_reachable: "(panel_step sample_api sample_parse)\<^sup>*\<^sup>* sample_start sample_end"
proof -
  let ?lost = "sample_busy\<lparr>panel := sample_pending, posts := [sample_report]\<rparr>"
  have "report_traffic_once sample_api Send_Failed (panel sample_busy) (audit sample_busy) =
      (Inl OtherError, Some ((''/panel/mod_mu/users/traffic'', [(''key'', ''token''), (''node_id'', ''7'')]), sample_report),
       sample_pending)"
    using sample_lost by (simp add: sample_start_def)
  from panel_step.report [OF this, of sample_parse] have 1: "panel_step sample_api sample_parse sample_busy ?lost"
    by (simp add: sample_start_def posted_def)
  have "report_traffic_once sample_api (sample_list []) (panel ?lost) (audit ?lost) =
      (Inr (), Some ((''/panel/mod_mu/users/traffic'', [(''key'', ''token''), (''node_id'', ''7'')]), sample_report),
       sample_settled)"
    using sample_retry by simp
  from panel_step.report [OF this, of sample_parse]
  have 2: "panel_step sample_api sample_parse ?lost sample_end"
    by (simp add: sample_start_def posted_def)
  from sample_busy_reachable 1 2 show ?thesis by (meson rtranclp.rtrancl_into_rtrancl)
qed

theorem reports_counted_once_witness:
  "sample_report \<in> set (posts sample_end) \<and>
   sorted_wrt (\<lambda>x y. sequence x < sequence y) (acked sample_end) \<and> sample_report \<in> set (acked sample_end)"
  using reports_counted_once [OF sample_init sample_end_reachable] by (simp add: sample_settled_def)

theorem charges_match_traffic_witness:
  "charged Upstream 1 (acked sample_end @ []) = 11"
proof -
  have quiet: "report_traffic_once sample_api Send_Failed (panel sample_end) (audit sample_end) = (Inr (), None, sample_settled)"
    by (simp add: panel_eval sample_settled_def sample_traffic_def)
  have "1 \<notin> set (dropped sample_end)" by (simp add: sample_start_def)
  from charges_match_traffic [OF sample_init sample_end_reachable this, of Upstream Send_Failed None sample_settled] quiet
  show ?thesis by (simp add: sample_settled_def posted_def sample_traffic_def traffic_def)
qed

theorem readded_client_underreported_witness:
  "traffic (1 :: nat) (add_upstream 1 5 [(1, \<lparr>enabled = True, upstream = 0, downstream = 0\<rparr>)]) = (5, 0) \<and>
   charged Upstream (1 :: nat) (posted (None :: ((string \<times> (string \<times> string) list) \<times> nat pending_report) option)) = 0"
proof (rule readded_client_underreported)
  show "pending_traffic sample_pending = Some sample_report" by (simp add: sample_pending_def)
  show "map_of (traffic_snapshot sample_report) 1 = Some (11, 0)" by (simp add: sample_report_def)
  show "sync_once sample_api sample_parse (sample_list []) sample_pending sample_traffic = (Inr (), sample_pending, [])"
    by (simp add: panel_eval sample_pending_def sample_traffic_def)
  show "report_traffic_once sample_api (sample_list []) sample_pending [] =
      (Inr (), Some ((''/panel/mod_mu/users/traffic'', [(''key'', ''token''), (''node_id'', ''7'')]), sample_report),
       sample_settled)"
    by (rule sample_retry)
  show "sync_once sample_api sample_parse sample_users sample_settled [] =
      (Inr (), sample_settled, [(1, \<lparr>enabled = True, upstream = 0, downstream = 0\<rparr>)])"
    by (simp add: panel_eval sample_settled_def)
  show "report_traffic_once sample_api Send_Failed sample_settled
      (add_upstream 1 5 [(1, \<lparr>enabled = True, upstream = 0, downstream = 0\<rparr>)]) = (Inr (), None, sample_settled)"
    by (simp add: panel_eval sample_settled_def)
qed (simp_all add: client_ids_def)

end
