(* ===== verification/Client_Args.thy ===== *)
theory Client_Args
  imports Rust_Strings
begin

text \<open>
  The arguments of the client and the AnyTLS URI (\<^verbatim>\<open>src/cli/client.rs\<close>). The crates are parameters:
  percent encoding with a set of characters and its decoding, the form encoding of query pairs,
  the generic URL parser, the address type of \<^verbatim>\<open>socks5-impl\<close> and UUID text. The log level and the
  command-line parser of \<^verbatim>\<open>clap\<close> are left out: a value of the record is what \<^verbatim>\<open>clap\<close> has produced.
\<close>

section \<open>String functions of the standard library\<close>

definition strip_prefix :: "string \<Rightarrow> string \<Rightarrow> string option" where
  "strip_prefix p s = (if take (length p) s = p then Some (drop (length p) s) else None)"

text \<open>The part before the first of some characters, and the rest from it on: \<^verbatim>\<open>find\<close> with the length
  as its default, followed by \<^verbatim>\<open>split_at\<close>.\<close>

definition split_at_any :: "char set \<Rightarrow> string \<Rightarrow> string \<times> string" where
  "split_at_any cs s = (takeWhile (\<lambda>c. c \<notin> cs) s, dropWhile (\<lambda>c. c \<notin> cs) s)"

definition rsplit_once :: "char \<Rightarrow> string \<Rightarrow> (string \<times> string) option" where
  "rsplit_once c s =
     (if c \<in> set s
      then Some (rev (tl (dropWhile (\<lambda>x. x \<noteq> c) (rev s))), rev (takeWhile (\<lambda>x. x \<noteq> c) (rev s)))
      else None)"

definition replace_char :: "char \<Rightarrow> string \<Rightarrow> string \<Rightarrow> string" where
  "replace_char c t s = concat (map (\<lambda>x. if x = c then t else [x]) s)"

section \<open>Arguments\<close>

datatype proxy_type = Proxy_None | Proxy_Http | Proxy_Socks4 | Proxy_Socks5 | Proxy_Mixed

record ('a, 'u) client_args =
  url :: "string option"
  listen_type :: proxy_type
  listen_addr :: "'a option"
  server :: "'a option"
  password :: "string option"
  client_id :: "'u option"
  root_cert :: "string option"
  insecure :: "bool option"
  sni :: "string option"
  padding_scheme :: "string option"
  print_url :: bool
  fragment :: "string option"

definition default_args :: "'a \<Rightarrow> ('a, 'u) client_args" where
  "default_args local_1080 =
     \<lparr>url = None, listen_type = Proxy_Mixed, listen_addr = Some local_1080, server = None, password = None,
      client_id = None, root_cert = None, insecure = None, sni = None, padding_scheme = None,
      print_url = False, fragment = None\<rparr>"

record parsed_url =
  url_scheme :: string
  url_host :: "string option"
  url_port :: "u16 option"
  url_username :: string
  url_password :: "string option"
  url_query :: "string option"
  url_fragment :: "string option"

record ('a, 'u) cli_api =
  pct_encode :: "(char \<Rightarrow> bool) \<Rightarrow> string \<Rightarrow> string"
  pct_decode :: "string \<Rightarrow> string"
  form_serialize :: "(string \<times> string) list \<Rightarrow> string"
  form_parse :: "string \<Rightarrow> (string \<times> string) list"
  url_parse :: "string \<Rightarrow> parsed_url option"
  addr_from :: "string \<Rightarrow> u16 \<Rightarrow> 'a"
  addr_host :: "'a \<Rightarrow> string"
  addr_port :: "'a \<Rightarrow> u16"
  addr_is_ipv6 :: "'a \<Rightarrow> bool"
  uuid_string :: "'u \<Rightarrow> string"
  uuid_of :: "string \<Rightarrow> 'u option"
  local_1080 :: 'a

section \<open>Printing the URI\<close>

definition CONTROLS :: "char \<Rightarrow> bool" where
  "CONTROLS c \<longleftrightarrow> (of_char c :: nat) < 32 \<or> (of_char c :: nat) = 127"

definition USERINFO_ENCODE_SET :: "char \<Rightarrow> bool" where
  "USERINFO_ENCODE_SET c \<longleftrightarrow>
     CONTROLS c \<or> c \<in> set '' \"#<>?@[]^`{|}%:'' \<or> c = CHR 0x5C"

definition FRAGMENT_ENCODE_SET :: "char \<Rightarrow> bool" where
  "FRAGMENT_ENCODE_SET c \<longleftrightarrow> CONTROLS c \<or> c \<in> set '' \"%<>`''"

definition format_host :: "('a, 'u) cli_api \<Rightarrow> 'a \<Rightarrow> string" where
  "format_host api a =
     (let host = replace_char (CHR ''%'') ''%25'' (addr_host api a);
          host1 = (if addr_is_ipv6 api a \<or> CHR '':'' \<in> set host then ''['' @ host @ '']'' else host)
      in if addr_port api a \<noteq> 443 then host1 @ '':'' @ nat_to_string (unat (addr_port api a)) else host1)"

definition format_auth :: "('a, 'u) cli_api \<Rightarrow> string option \<Rightarrow> string" where
  "format_auth api pw =
     (case pw of
        Some p \<Rightarrow> if p = [] then [] else pct_encode api USERINFO_ENCODE_SET p @ ''@''
      | None \<Rightarrow> [])"

definition query_pairs :: "('a, 'u) cli_api \<Rightarrow> ('a, 'u) client_args \<Rightarrow> (string \<times> string) list" where
  "query_pairs api args =
     (case sni args of None \<Rightarrow> [] | Some s \<Rightarrow> [(''sni'', s)]) @
     (if insecure args = Some True then [(''insecure'', ''1'')] else []) @
     (case client_id args of None \<Rightarrow> [] | Some u \<Rightarrow> [(''client_id'', uuid_string api u)])"

definition format_url :: "('a, 'u) cli_api \<Rightarrow> ('a, 'u) client_args \<Rightarrow> string io_result" where
  "format_url api args =
     (case server args of
        None \<Rightarrow> Inl InvalidInput
      | Some a \<Rightarrow>
          (let query = form_serialize api (query_pairs api args)
           in Inr (''anytls://'' @ format_auth api (password args) @ format_host api a @
                   (if query = [] then [] else ''/?'' @ query) @
                   (case fragment args of
                      None \<Rightarrow> []
                    | Some fr \<Rightarrow> ''#'' @ pct_encode api FRAGMENT_ENCODE_SET fr))))"

section \<open>Parsing the URI\<close>

fun apply_pairs :: "('a, 'u) cli_api \<Rightarrow> (string \<times> string) list \<Rightarrow> ('a, 'u) client_args \<Rightarrow> ('a, 'u) client_args io_result" where
  "apply_pairs api [] args = Inr args"
| "apply_pairs api ((key, val) # ps) args =
     (if key = ''password'' then Inl InvalidInput
      else if key = ''sni'' then apply_pairs api ps (args\<lparr>sni := Some val\<rparr>)
      else if key = ''insecure'' then
        (if val = ''1'' then apply_pairs api ps (args\<lparr>insecure := Some True\<rparr>)
         else if val = ''0'' then apply_pairs api ps (args\<lparr>insecure := Some False\<rparr>)
         else Inl InvalidInput)
      else if key = ''client_id'' \<and> val \<noteq> [] then
        (case uuid_of api val of
           None \<Rightarrow> Inl InvalidInput
         | Some u \<Rightarrow> apply_pairs api ps (args\<lparr>client_id := Some u\<rparr>))
      else apply_pairs api ps args)"

definition build_client_args ::
  "('a, 'u) cli_api \<Rightarrow> 'a \<Rightarrow> string \<Rightarrow> string \<Rightarrow> string option \<Rightarrow> ('a, 'u) client_args io_result" where
  "build_client_args api srv pw query fr =
     apply_pairs api (form_parse api query)
       ((default_args (local_1080 api))
          \<lparr>server := Some srv, password := Some pw,
           fragment := (case fr of
               None \<Rightarrow> None
             | Some f \<Rightarrow> if pct_decode api f = [] then None else Some (pct_decode api f))\<rparr>)"

definition is_ipv6_zone_url :: "string \<Rightarrow> bool" where
  "is_ipv6_zone_url raw_url =
     (let raw = (case strip_prefix ''anytls://'' raw_url of None \<Rightarrow> raw_url | Some r \<Rightarrow> r);
          authority = fst (split_at_any (set ''/?#'') raw);
          host = (case rsplit_once (CHR ''@'') authority of None \<Rightarrow> authority | Some (_, h) \<Rightarrow> h)
      in case split_once (CHR ''['') host of
           None \<Rightarrow> False
         | Some (_, h) \<Rightarrow> (case split_once (CHR '']'') h of None \<Rightarrow> False | Some (inner, _) \<Rightarrow> CHR ''%'' \<in> set inner))"

definition parse_ipv6_zone_url :: "('a, 'u) cli_api \<Rightarrow> string \<Rightarrow> ('a, 'u) client_args io_result" where
  "parse_ipv6_zone_url api raw_url =
     (case strip_prefix ''anytls://'' raw_url of
        None \<Rightarrow> Inl InvalidInput
      | Some without_scheme \<Rightarrow>
          (let (authority, rest) = split_at_any (set ''/?#'') without_scheme;
               (userinfo, host_port) = (case rsplit_once (CHR ''@'') authority of None \<Rightarrow> ([], authority) | Some p \<Rightarrow> p)
           in case split_once (CHR ''['') host_port of
                None \<Rightarrow> Inl InvalidInput
              | Some (_, after_bracket) \<Rightarrow>
                  (case split_once (CHR '']'') after_bracket of
                     None \<Rightarrow> Inl InvalidInput
                   | Some (inner, after_host) \<Rightarrow>
                       io_bind
                         (case strip_prefix '':'' after_host of
                            None \<Rightarrow> Inr 443
                          | Some p \<Rightarrow> (case parse_u16 (fst (split_at_any (set ''/?#'') p)) of None \<Rightarrow> Inl InvalidInput | Some n \<Rightarrow> Inr n))
                         (\<lambda>port.
                            let encoded_password = (case rsplit_once (CHR '':'') userinfo of
                                    None \<Rightarrow> userinfo
                                  | Some (user, pw) \<Rightarrow> if user = [] then pw else user);
                                query = (case split_once (CHR ''?'') rest of None \<Rightarrow> [] | Some (_, q) \<Rightarrow> hd (split_on (CHR ''#'') q));
                                fr = map_option snd (split_once (CHR ''#'') rest)
                            in build_client_args api (addr_from api (pct_decode api inner) port)
                                 (pct_decode api encoded_password) query fr))))"

definition parse_client_url :: "('a, 'u) cli_api \<Rightarrow> string \<Rightarrow> ('a, 'u) client_args io_result" where
  "parse_client_url api raw_url =
     (if is_ipv6_zone_url raw_url then parse_ipv6_zone_url api raw_url
      else case url_parse api raw_url of
        None \<Rightarrow> Inl InvalidInput
      | Some u \<Rightarrow>
          if url_scheme u \<noteq> ''anytls'' then Inl InvalidInput
          else case url_host u of
            None \<Rightarrow> Inl InvalidInput
          | Some host \<Rightarrow>
              (let host1 = (if host \<noteq> [] \<and> hd host = CHR ''['' \<and> tl host \<noteq> [] \<and> last (tl host) = CHR '']''
                            then butlast (tl host) else host);
                   port = (case url_port u of None \<Rightarrow> 443 | Some p \<Rightarrow> p);
                   encoded_password = (if url_username u = [] then (case url_password u of None \<Rightarrow> [] | Some p \<Rightarrow> p)
                                       else url_username u)
               in build_client_args api (addr_from api host1 port) (pct_decode api encoded_password)
                    (case url_query u of None \<Rightarrow> [] | Some q \<Rightarrow> q) (url_fragment u)))"

section \<open>Resolving the arguments\<close>

definition or_else :: "'x option \<Rightarrow> 'x option \<Rightarrow> 'x option" where
  "or_else x y = (case x of None \<Rightarrow> y | Some _ \<Rightarrow> x)"

definition merge_url :: "('a, 'u) client_args \<Rightarrow> ('a, 'u) client_args \<Rightarrow> ('a, 'u) client_args" where
  "merge_url parsed args =
     args\<lparr>server := or_else (server args) (server parsed), password := or_else (password args) (password parsed),
          sni := or_else (sni args) (sni parsed), client_id := or_else (client_id args) (client_id parsed),
          insecure := or_else (insecure args) (insecure parsed), fragment := fragment parsed\<rparr>"

definition restore_origin :: "('a, 'u) client_args \<Rightarrow> ('a, 'u) client_args \<Rightarrow> ('a, 'u) client_args" where
  "restore_origin origin args =
     args\<lparr>password := or_else (password origin) (password args), server := or_else (server origin) (server args),
          sni := or_else (sni origin) (sni args), client_id := or_else (client_id origin) (client_id args),
          insecure := or_else (insecure origin) (insecure args), fragment := or_else (fragment origin) (fragment args)\<rparr>"

definition resolve :: "('a, 'u) cli_api \<Rightarrow> ('a, 'u) client_args \<Rightarrow> ('a, 'u) client_args io_result" where
  "resolve api args =
     io_bind (case url args of None \<Rightarrow> Inr args
              | Some raw \<Rightarrow> io_bind (parse_client_url api raw) (\<lambda>parsed. Inr (merge_url parsed args)))
       (\<lambda>merged.
          let result = restore_origin args merged
          in if listen_type result \<notin> {Proxy_Mixed, Proxy_Socks5, Proxy_Http} then Inl InvalidInput
             else case server result of
               None \<Rightarrow> Inl InvalidInput
             | Some a \<Rightarrow> if addr_port api a = 0 then Inl InvalidInput else Inr result)"

section \<open>What the crates promise\<close>

definition lacks :: "string \<Rightarrow> string \<Rightarrow> bool" where
  "lacks s cs = list_all (\<lambda>c. c \<notin> set s) cs"

definition pct_ok :: "('a, 'u) cli_api \<Rightarrow> bool" where
  "pct_ok api \<longleftrightarrow>
     (\<forall>S s. utf8_valid (as_bytes s) \<and> S (CHR ''%'') \<longrightarrow> pct_decode api (pct_encode api S s) = s) \<and>
     (\<forall>S s. set (pct_encode api S s) \<subseteq> set ''%0123456789ABCDEF'' \<union> {c \<in> set s. \<not> S c}) \<and>
     (\<forall>s. utf8_valid (as_bytes s) \<longrightarrow> pct_decode api (replace_char (CHR ''%'') ''%25'' s) = s)"

definition form_ok :: "('a, 'u) cli_api \<Rightarrow> bool" where
  "form_ok api \<longleftrightarrow>
     (\<forall>ps. (\<forall>(k, v)\<in>set ps. utf8_valid (as_bytes k) \<and> utf8_valid (as_bytes v)) \<longrightarrow>
        form_parse api (form_serialize api ps) = ps) \<and>
     (\<forall>ps. lacks (form_serialize api ps) ''/?#'') \<and>
     (\<forall>ps. form_serialize api ps = [] \<longleftrightarrow> ps = [])"

definition uuid_text_ok :: "('a, 'u) cli_api \<Rightarrow> bool" where
  "uuid_text_ok api \<longleftrightarrow>
     (\<forall>u. uuid_of api (uuid_string api u) = Some u \<and> uuid_string api u \<noteq> [] \<and> utf8_valid (as_bytes (uuid_string api u)))"

section \<open>Lemmas\<close>

lemma strip_prefix_append [simp]: "strip_prefix p (p @ s) = Some s"
  by (simp add: strip_prefix_def)

lemma lacks_append [simp]: "lacks (s @ t) cs \<longleftrightarrow> lacks s cs \<and> lacks t cs"
  by (auto simp: lacks_def list_all_iff)

lemma split_at_any_append:
  assumes "lacks a cs" and "b = [] \<or> hd b \<in> set cs"
  shows "split_at_any (set cs) (a @ b) = (a, b)"
proof -
  have "\<forall>x\<in>set a. x \<notin> set cs" using assms(1) by (auto simp: lacks_def list_all_iff)
  then show ?thesis using assms(2) by (cases b) (simp_all add: split_at_any_def)
qed

lemma rsplit_once_append: "c \<notin> set b \<Longrightarrow> rsplit_once c (a @ c # b) = Some (a, b)"
proof -
  assume "c \<notin> set b"
  then have "\<forall>x\<in>set (rev b). x \<noteq> c" by auto
  then have "takeWhile (\<lambda>x. x \<noteq> c) (rev b @ c # rev a) = rev b" "dropWhile (\<lambda>x. x \<noteq> c) (rev b @ c # rev a) = c # rev a"
    using takeWhile_append2 [of "rev b" "\<lambda>x. x \<noteq> c" "c # rev a"] dropWhile_append2 [of "rev b" "\<lambda>x. x \<noteq> c" "c # rev a"]
    by auto
  then show ?thesis by (simp add: rsplit_once_def)
qed

lemma rsplit_once_None: "c \<notin> set s \<Longrightarrow> rsplit_once c s = None"
  by (simp add: rsplit_once_def)

lemma set_replace_char: "set (replace_char c t s) \<subseteq> set t \<union> (set s - {c})"
  by (auto simp: replace_char_def split: if_splits)

lemma mem_replace_char: "x \<in> set s \<Longrightarrow> x \<noteq> c \<Longrightarrow> x \<in> set (replace_char c t s)"
  by (auto simp: replace_char_def)

lemma hd_split_on: "c \<notin> set a \<Longrightarrow> b = [] \<or> hd b = c \<Longrightarrow> hd (split_on c (a @ b)) = a"
  by (cases b) (auto simp: split_on_no_sep split_on_append_sep)

definition port_text :: "u16 \<Rightarrow> string" where
  "port_text p = (if p \<noteq> 443 then '':'' @ nat_to_string (unat p) else [])"

lemma port_text_chars: "lacks (port_text p) ''/?#@[]''"
proof -
  have "lacks (nat_to_string (unat p)) ''/?#@[]''"
    by (simp add: lacks_def nat_to_string_no_char)
  then show ?thesis by (simp add: port_text_def lacks_def)
qed

lemma parse_u16_nat_to_string: "parse_u16 (nat_to_string (unat p)) = Some p"
proof -
  have "unat p < 2 ^ LENGTH(16)" by (rule unsigned_less)
  then show ?thesis by (simp add: parse_u16_def parse_unsigned_nat_to_string)
qed

lemma port_text_parse:
  "(case strip_prefix '':'' (port_text p) of
      None \<Rightarrow> Inr 443
    | Some t \<Rightarrow> (case parse_u16 (fst (split_at_any (set ''/?#'') t)) of None \<Rightarrow> Inl InvalidInput | Some n \<Rightarrow> Inr n)) =
   (Inr p :: u16 io_result)"
proof (cases "p = 443")
  case False
  have "lacks (nat_to_string (unat p)) ''/?#''"
    using port_text_chars [of p] False by (simp add: port_text_def lacks_def)
  then have "split_at_any (set ''/?#'') (nat_to_string (unat p)) = (nat_to_string (unat p), [])"
    using split_at_any_append [of "nat_to_string (unat p)" "''/?#''" "[]"] by simp
  then show ?thesis using False by (simp add: port_text_def strip_prefix_def parse_u16_nat_to_string)
qed (simp add: port_text_def strip_prefix_def)

text \<open>A host with an IPv6 zone: it has a zone separator and a colon, and none of the characters that end
  the host part of a URI.\<close>

definition zone_host :: "string \<Rightarrow> bool" where
  "zone_host h \<longleftrightarrow> CHR ''%'' \<in> set h \<and> CHR '':'' \<in> set h \<and> lacks h ''/?#@[]'' \<and> utf8_valid (as_bytes h)"

abbreviation zone_text :: "string \<Rightarrow> string" where
  "zone_text h \<equiv> replace_char (CHR ''%'') ''%25'' h"

lemma zone_text_chars: "zone_host h \<Longrightarrow> lacks (zone_text h) ''/?#@[]''"
  using set_replace_char [of "CHR ''%''" "''%25''" h] by (auto simp: zone_host_def lacks_def)

lemma zone_text_percent: "zone_host h \<Longrightarrow> CHR ''%'' \<in> set (zone_text h)"
  by (auto simp: zone_host_def replace_char_def)

lemma format_host_zone:
  "zone_host (addr_host api a) \<Longrightarrow>
     format_host api a = ''['' @ zone_text (addr_host api a) @ '']'' @ port_text (addr_port api a)"
  using mem_replace_char [of "CHR '':''" "addr_host api a" "CHR ''%''" "''%25''"]
  by (auto simp: format_host_def Let_def port_text_def zone_host_def)

definition opt_text :: "string option \<Rightarrow> string" where
  "opt_text x = (case x of None \<Rightarrow> [] | Some s \<Rightarrow> s)"

lemma pct_decode_Nil: "pct_ok api \<Longrightarrow> pct_decode api [] = []"
proof -
  assume "pct_ok api"
  then have "pct_decode api (zone_text []) = []" unfolding pct_ok_def by (simp add: as_bytes_def)
  then show ?thesis by (simp add: replace_char_def)
qed

lemma format_auth_parts:
  assumes "pct_ok api" and "CHR ''/'' \<notin> set (opt_text pw)" and "utf8_valid (as_bytes (opt_text pw))"
  obtains u where "format_auth api pw = (if u = [] then [] else u @ ''@'')" "pct_decode api u = opt_text pw"
    "lacks u ''/?#@:''"
proof (cases "opt_text pw = []")
  case True
  then show thesis using pct_decode_Nil [OF assms(1)]
    by (intro that [of "[]"]) (auto simp: format_auth_def opt_text_def lacks_def split: option.splits)
next
  case False
  then obtain p where p: "pw = Some p" "p \<noteq> []" by (cases pw) (auto simp: opt_text_def)
  let ?u = "pct_encode api USERINFO_ENCODE_SET p"
  have dec: "pct_decode api ?u = p"
    using assms p by (simp add: pct_ok_def USERINFO_ENCODE_SET_def opt_text_def)
  then have "?u \<noteq> []" using pct_decode_Nil [OF assms(1)] p(2) by auto
  moreover have "set ?u \<subseteq> set ''%0123456789ABCDEF'' \<union> {c \<in> set p. \<not> USERINFO_ENCODE_SET c}"
    using assms(1) by (simp only: pct_ok_def)
  then have "c \<notin> set ?u" if "c \<notin> set ''%0123456789ABCDEF''" "USERINFO_ENCODE_SET c \<or> c \<notin> set p" for c
    using that by blast
  then have "lacks ?u ''/?#@:''"
    using assms(2) p by (simp add: USERINFO_ENCODE_SET_def opt_text_def lacks_def)
  ultimately show thesis using dec p by (intro that [of ?u]) (simp_all add: format_auth_def opt_text_def)
qed

text \<open>The authority part of a zone URI is taken apart as it was put together.\<close>

lemma authority_parts:
  assumes "lacks u ''/?#@:''" and "zone_host h"
  shows "lacks ((if u = [] then [] else u @ ''@'') @ ''['' @ zone_text h @ '']'' @ port_text p) ''/?#''"
    and "(case rsplit_once (CHR ''@'') ((if u = [] then [] else u @ ''@'') @ ''['' @ zone_text h @ '']'' @ port_text p) of
       None \<Rightarrow> ([], (if u = [] then [] else u @ ''@'') @ ''['' @ zone_text h @ '']'' @ port_text p) | Some q \<Rightarrow> q) =
       (u, ''['' @ zone_text h @ '']'' @ port_text p)"
    and "split_once (CHR ''['') (''['' @ zone_text h @ '']'' @ port_text p) = Some ([], zone_text h @ '']'' @ port_text p)"
    and "split_once (CHR '']'') (zone_text h @ '']'' @ port_text p) = Some (zone_text h, port_text p)"
    and "rsplit_once (CHR '':'') u = None"
proof -
  note z = zone_text_chars [OF assms(2)] and q = port_text_chars [of p]
  show "lacks ((if u = [] then [] else u @ ''@'') @ ''['' @ zone_text h @ '']'' @ port_text p) ''/?#''"
    using assms(1) z q by (simp add: lacks_def)
  have at: "CHR ''@'' \<notin> set (''['' @ zone_text h @ '']'' @ port_text p)" using z q by (simp add: lacks_def)
  then show "(case rsplit_once (CHR ''@'') ((if u = [] then [] else u @ ''@'') @ ''['' @ zone_text h @ '']'' @ port_text p) of
       None \<Rightarrow> ([], (if u = [] then [] else u @ ''@'') @ ''['' @ zone_text h @ '']'' @ port_text p) | Some q \<Rightarrow> q) =
       (u, ''['' @ zone_text h @ '']'' @ port_text p)"
    using rsplit_once_append [OF at, of u] rsplit_once_None [OF at] by (cases "u = []") simp_all
  show "split_once (CHR ''['') (''['' @ zone_text h @ '']'' @ port_text p) = Some ([], zone_text h @ '']'' @ port_text p)"
    using split_once_append [of "CHR ''[''" "[]"] by simp
  show "split_once (CHR '']'') (zone_text h @ '']'' @ port_text p) = Some (zone_text h, port_text p)"
    using split_once_append [of "CHR '']''" "zone_text h" "port_text p"] z by (simp add: lacks_def)
  show "rsplit_once (CHR '':'') u = None" using assms(1) by (intro rsplit_once_None) (simp add: lacks_def)
qed

text \<open>The rest of the URI, query and fragment.\<close>

definition rest_text :: "string \<Rightarrow> string option \<Rightarrow> string" where
  "rest_text q fr = (if q = [] then [] else ''/?'' @ q) @ (case fr of None \<Rightarrow> [] | Some f \<Rightarrow> ''#'' @ f)"

lemma rest_parts:
  assumes "lacks q ''/?#''" and "q \<noteq> [] \<or> CHR ''?'' \<notin> set (opt_text fr)"
  shows "rest_text q fr = [] \<or> hd (rest_text q fr) \<in> set ''/?#''"
    and "(case split_once (CHR ''?'') (rest_text q fr) of None \<Rightarrow> [] | Some (_, s) \<Rightarrow> hd (split_on (CHR ''#'') s)) = q"
    and "map_option snd (split_once (CHR ''#'') (rest_text q fr)) = fr"
proof -
  show "rest_text q fr = [] \<or> hd (rest_text q fr) \<in> set ''/?#''"
    by (simp add: rest_text_def split: option.splits)
  let ?f = "case fr of None \<Rightarrow> [] | Some f \<Rightarrow> ''#'' @ f"
  have tail: "?f = [] \<or> hd ?f = CHR ''#''" by (simp split: option.splits)
  show "(case split_once (CHR ''?'') (rest_text q fr) of None \<Rightarrow> [] | Some (_, s) \<Rightarrow> hd (split_on (CHR ''#'') s)) = q"
  proof (cases "q = []")
    case True
    then have "split_once (CHR ''?'') (rest_text q fr) = None"
      using assms(2) by (auto simp: split_once_None rest_text_def opt_text_def split: option.splits)
    with True show ?thesis by simp
  next
    case False
    then have "split_once (CHR ''?'') (rest_text q fr) = Some (''/'', q @ ?f)"
      using split_once_append [of "CHR ''?''" "''/''" "q @ ?f"] by (simp add: rest_text_def)
    moreover have "hd (split_on (CHR ''#'') (q @ ?f)) = q"
      using assms(1) tail by (intro hd_split_on) (simp_all add: lacks_def)
    ultimately show ?thesis by simp
  qed
  have pre: "CHR ''#'' \<notin> set (if q = [] then [] else ''/?'' @ q)" using assms(1) by (simp add: lacks_def)
  show "map_option snd (split_once (CHR ''#'') (rest_text q fr)) = fr"
  proof (cases fr)
    case None
    with pre show ?thesis by (simp add: rest_text_def split_once_None [THEN iffD2])
  next
    case (Some f)
    with split_once_append [OF pre, of f] show ?thesis by (simp add: rest_text_def)
  qed
qed

lemma apply_query_pairs:
  assumes "uuid_text_ok api"
  shows "apply_pairs api (query_pairs api args) base =
     Inr (base\<lparr>sni := or_else (sni args) (sni base),
               insecure := (if insecure args = Some True then Some True else insecure base),
               client_id := or_else (client_id args) (client_id base)\<rparr>)"
  using assms
  by (cases "sni args"; cases "client_id args"; cases "insecure args = Some True")
    (auto simp: query_pairs_def or_else_def uuid_text_ok_def)

lemma zone_uri_parse:
  assumes "lacks u ''/?#@:''" and "zone_host h" and "lacks q ''/?#''" and "q \<noteq> [] \<or> CHR ''?'' \<notin> set (opt_text fr)"
    and "uri = ''anytls://'' @ (if u = [] then [] else u @ ''@'') @ ''['' @ zone_text h @ '']'' @ port_text p @ rest_text q fr"
  shows "parse_client_url api uri =
     build_client_args api (addr_from api (pct_decode api (zone_text h)) p) (pct_decode api u) q fr"
proof -
  let ?auth = "(if u = [] then [] else u @ ''@'') @ ''['' @ zone_text h @ '']'' @ port_text p"
  have uri: "uri = ''anytls://'' @ ?auth @ rest_text q fr" using assms(5) by simp
  have strip: "strip_prefix ''anytls://'' uri = Some (?auth @ rest_text q fr)"
    unfolding uri by (rule strip_prefix_append)
  note a = authority_parts [OF assms(1,2)] and r = rest_parts [OF assms(3,4)]
  have split: "split_at_any (set ''/?#'') (?auth @ rest_text q fr) = (?auth, rest_text q fr)"
    using a(1) r(1) by (rule split_at_any_append)
  have host: "(case rsplit_once (CHR ''@'') ?auth of None \<Rightarrow> ?auth | Some (_, hp) \<Rightarrow> hp) = ''['' @ zone_text h @ '']'' @ port_text p"
  proof (cases "rsplit_once (CHR ''@'') ?auth")
    case None
    with a(2) [of p] show ?thesis by (simp only: option.case prod.inject) simp
  next
    case (Some x)
    with a(2) [of p] show ?thesis by (simp only: option.case prod.case)
  qed
  have "is_ipv6_zone_url uri"
    unfolding is_ipv6_zone_url_def strip option.case Let_def split fst_conv host a(3,4) prod.case
    using zone_text_percent [OF assms(2)] by simp
  moreover have "parse_ipv6_zone_url api uri =
      build_client_args api (addr_from api (pct_decode api (zone_text h)) p) (pct_decode api u) q fr"
    unfolding parse_ipv6_zone_url_def strip option.case Let_def split a(2,3,4,5) prod.case port_text_parse io_bind_simps r(2,3) ..
  ultimately show ?thesis by (simp add: parse_client_url_def)
qed

section \<open>Properties\<close>

text \<open>C31: The URI that the client prints for a server with an IPv6 zone is read back as the same settings:
  server and port, password, SNI, client id, the insecure flag when it is set, and the display
  name. The password must not contain a slash, and a display name with a question mark needs a
  query before it.\<close>

theorem zone_url_roundtrip:
  assumes "pct_ok api" and "form_ok api" and "uuid_text_ok api"
    and "server args = Some a" and "zone_host (addr_host api a)" and "addr_from api (addr_host api a) (addr_port api a) = a"
    and "CHR ''/'' \<notin> set (opt_text (password args))"
    and "\<forall>x\<in>{password args, sni args, fragment args}. utf8_valid (as_bytes (opt_text x))"
    and "query_pairs api args \<noteq> [] \<or> CHR ''?'' \<notin> set (opt_text (fragment args))" and "fragment args \<noteq> Some []"
    and "format_url api args = Inr uri"
  shows "parse_client_url api uri =
     Inr ((default_args (local_1080 api))\<lparr>server := Some a, password := Some (opt_text (password args)), sni := sni args,
        client_id := client_id args, insecure := (if insecure args = Some True then Some True else None),
        fragment := fragment args\<rparr>)"
proof -
  have utf8: "utf8_valid (as_bytes (opt_text (password args)))" "utf8_valid (as_bytes (opt_text (sni args)))"
    "utf8_valid (as_bytes (opt_text (fragment args)))"
    using assms(8) by simp_all
  obtain u where u: "format_auth api (password args) = (if u = [] then [] else u @ ''@'')"
      "pct_decode api u = opt_text (password args)" "lacks u ''/?#@:''"
    using format_auth_parts [OF assms(1,7) utf8(1)] .
  define q where "q = form_serialize api (query_pairs api args)"
  define fr where "fr = map_option (pct_encode api FRAGMENT_ENCODE_SET) (fragment args)"
  have q: "lacks q ''/?#''" "(q = []) = (query_pairs api args = [])"
    using assms(2) by (auto simp: q_def form_ok_def)
  have pairs: "form_parse api q = query_pairs api args"
    using assms(2,3) utf8(2) unfolding q_def form_ok_def
    by (auto simp: query_pairs_def uuid_text_ok_def opt_text_def utf8_valid_ascii as_bytes_def split: option.splits)
  have "set (pct_encode api FRAGMENT_ENCODE_SET f) \<subseteq> set ''%0123456789ABCDEF'' \<union> {c \<in> set f. \<not> FRAGMENT_ENCODE_SET c}" for f
    using assms(1) by (simp only: pct_ok_def)
  then have "CHR ''?'' \<notin> set f \<Longrightarrow> CHR ''?'' \<notin> set (pct_encode api FRAGMENT_ENCODE_SET f)" for f
    by (fastforce simp: FRAGMENT_ENCODE_SET_def)
  then have fr: "q \<noteq> [] \<or> CHR ''?'' \<notin> set (opt_text fr)"
    using assms(9) q(2) by (auto simp: fr_def opt_text_def split: option.splits)
  have fr_dec: "(case fr of None \<Rightarrow> None | Some f \<Rightarrow> if pct_decode api f = [] then None else Some (pct_decode api f)) = fragment args"
    using assms(1,10) utf8(3)
    by (auto simp: fr_def pct_ok_def FRAGMENT_ENCODE_SET_def opt_text_def split: option.splits)
  have uri: "uri = ''anytls://'' @ (if u = [] then [] else u @ ''@'') @ ''['' @ zone_text (addr_host api a) @ '']'' @
      port_text (addr_port api a) @ rest_text q fr"
    using assms(4,11) u(1) format_host_zone [OF assms(5)]
    by (auto simp: format_url_def Let_def q_def fr_def rest_text_def split: option.splits)
  have host: "pct_decode api (zone_text (addr_host api a)) = addr_host api a"
    using assms(1,5) by (simp add: pct_ok_def zone_host_def)
  show ?thesis
    unfolding zone_uri_parse [OF u(3) assms(5) q(1) fr uri] build_client_args_def host u(2) pairs fr_dec assms(6)
      apply_query_pairs [OF assms(3)]
    by (simp add: default_args_def or_else_def split: option.splits)
qed


section \<open>Concrete crates for the witnesses\<close>

definition hex_digit :: "nat \<Rightarrow> char" where
  "hex_digit n = ''0123456789ABCDEF'' ! n"

definition hex_val :: "char \<Rightarrow> nat" where
  "hex_val c = length (takeWhile (\<lambda>d. d \<noteq> c) ''0123456789ABCDEF'')"

definition sample_pct_encode :: "(char \<Rightarrow> bool) \<Rightarrow> string \<Rightarrow> string" where
  "sample_pct_encode S s =
     concat (map (\<lambda>c. if S c then ''%'' @ [hex_digit (of_char c div 16), hex_digit (of_char c mod 16)] else [c]) s)"

fun sample_pct_decode :: "string \<Rightarrow> string" where
  "sample_pct_decode (c # a # b # s) =
     (if c = CHR ''%'' then char_of (hex_val a * 16 + hex_val b :: nat) # sample_pct_decode s
      else c # sample_pct_decode (a # b # s))"
| "sample_pct_decode s = s"

lemma takeWhile_index: "distinct xs \<Longrightarrow> n < length xs \<Longrightarrow> length (takeWhile (\<lambda>d. d \<noteq> xs ! n) xs) = n"
proof (induction xs arbitrary: n)
  case (Cons x xs)
  then show ?case by (cases n) auto
qed simp

lemma hex_val_digit: "n < 16 \<Longrightarrow> hex_val (hex_digit n) = n"
  unfolding hex_digit_def hex_val_def by (rule takeWhile_index) simp_all

lemma of_char_div: "(of_char c :: nat) div 16 < 16" "(of_char c :: nat) mod 16 < 16"
proof -
  have "(of_char c :: nat) < 16 * 16" by simp
  then show "(of_char c :: nat) div 16 < 16" by (rule less_mult_imp_div_less)
qed simp

lemma hex_digit_set: "n < 16 \<Longrightarrow> hex_digit n \<in> set ''0123456789ABCDEF''"
  unfolding hex_digit_def by (rule nth_mem) simp

lemma char_of_hex: "char_of (of_char c div 16 * 16 + of_char c mod 16 :: nat) = c"
  by (simp add: div_mult_mod_eq)

lemma decode_plain: "c \<noteq> CHR ''%'' \<Longrightarrow> sample_pct_decode (c # s) = c # sample_pct_decode s"
  by (cases s rule: sample_pct_decode.cases) auto

lemma sample_pct_roundtrip: "S (CHR ''%'') \<Longrightarrow> sample_pct_decode (sample_pct_encode S s) = s"
proof (induction s)
  case (Cons c s)
  have enc: "sample_pct_encode S (c # s) = (if S c
      then CHR ''%'' # hex_digit (of_char c div 16) # hex_digit (of_char c mod 16) # sample_pct_encode S s
      else c # sample_pct_encode S s)"
    by (simp add: sample_pct_encode_def)
  have hex: "hex_val (hex_digit (of_char c div 16)) = of_char c div 16" "hex_val (hex_digit (of_char c mod 16)) = of_char c mod 16"
    by (simp_all add: hex_val_digit of_char_div)
  show ?case
  proof (cases "S c")
    case True
    then show ?thesis using Cons by (simp add: enc hex char_of_hex)
  next
    case False
    then have "c \<noteq> CHR ''%''" using Cons.prems by auto
    with False Cons show ?thesis by (simp add: enc decode_plain)
  qed
qed (simp add: sample_pct_encode_def)

lemma sample_pct_chars:
  "set (sample_pct_encode S s) \<subseteq> set ''%0123456789ABCDEF'' \<union> {c \<in> set s. \<not> S c}"
proof
  fix x assume "x \<in> set (sample_pct_encode S s)"
  then obtain c where c: "c \<in> set s"
      "x \<in> set (if S c then ''%'' @ [hex_digit (of_char c div 16), hex_digit (of_char c mod 16)] else [c])"
    by (simp only: sample_pct_encode_def set_concat set_map) blast
  have "hex_digit (of_char c div 16) \<in> set ''0123456789ABCDEF''" "hex_digit (of_char c mod 16) \<in> set ''0123456789ABCDEF''"
    by (simp_all only: hex_digit_set of_char_div)
  with c show "x \<in> set ''%0123456789ABCDEF'' \<union> {c \<in> set s. \<not> S c}"
    by (cases "S c") auto
qed

lemma sample_pct_zone: "sample_pct_encode (\<lambda>c. c = CHR ''%'') s = replace_char (CHR ''%'') ''%25'' s"
  by (induction s) (auto simp: sample_pct_encode_def replace_char_def hex_digit_def)

definition FORM_SET :: "char \<Rightarrow> bool" where
  "FORM_SET c \<longleftrightarrow> c \<in> set ''/?#&=%''"

definition form_pair :: "string \<times> string \<Rightarrow> string" where
  "form_pair p = sample_pct_encode FORM_SET (fst p) @ ''='' @ sample_pct_encode FORM_SET (snd p)"

definition parse_pair :: "string \<Rightarrow> string \<times> string" where
  "parse_pair t =
     (case split_once (CHR ''='') t of
        None \<Rightarrow> (sample_pct_decode t, [])
      | Some (k, v) \<Rightarrow> (sample_pct_decode k, sample_pct_decode v))"

definition sample_form_serialize :: "(string \<times> string) list \<Rightarrow> string" where
  "sample_form_serialize ps = join ''&'' (map form_pair ps)"

definition sample_form_parse :: "string \<Rightarrow> (string \<times> string) list" where
  "sample_form_parse s = (if s = [] then [] else map parse_pair (split_on (CHR ''&'') s))"

definition sample_cli :: "(string \<times> u16, bool) cli_api" where
  "sample_cli =
     \<lparr>pct_encode = sample_pct_encode, pct_decode = sample_pct_decode, form_serialize = sample_form_serialize,
      form_parse = sample_form_parse, url_parse = (\<lambda>_. None), addr_from = Pair, addr_host = fst, addr_port = snd,
      addr_is_ipv6 = (\<lambda>_. False), uuid_string = (\<lambda>b. if b then ''t'' else ''f''),
      uuid_of = (\<lambda>s. if s = ''t'' then Some True else if s = ''f'' then Some False else None),
      local_1080 = (''127.0.0.1'', 1080)\<rparr>"

lemma form_encoded_chars: "lacks (sample_pct_encode FORM_SET s) ''/?#&=''"
proof -
  have "c \<notin> set (sample_pct_encode FORM_SET s)" if "c \<notin> set ''%0123456789ABCDEF''" "FORM_SET c" for c
    using sample_pct_chars [of FORM_SET s] that by blast
  then show ?thesis by (simp add: lacks_def FORM_SET_def)
qed

lemma form_pair_parse: "parse_pair (form_pair p) = p"
proof -
  have "CHR ''='' \<notin> set (sample_pct_encode FORM_SET (fst p))"
    using form_encoded_chars [of "fst p"] by (simp add: lacks_def)
  from split_once_append [OF this, of "sample_pct_encode FORM_SET (snd p)"]
  show ?thesis by (simp add: parse_pair_def form_pair_def sample_pct_roundtrip FORM_SET_def)
qed

lemma sample_form_roundtrip: "sample_form_parse (sample_form_serialize ps) = ps"
proof (cases "ps = []")
  case False
  have amp: "CHR ''&'' \<notin> set (form_pair p)" for p
    using form_encoded_chars [of "fst p"] form_encoded_chars [of "snd p"] by (simp add: lacks_def form_pair_def)
  have split: "split_on (CHR ''&'') (join ''&'' (map form_pair ps)) = map form_pair ps"
    using amp False by (intro split_on_join) auto
  have "join ''&'' (map form_pair ps) \<noteq> []"
  proof
    assume "join ''&'' (map form_pair ps) = []"
    with split have "map form_pair ps = [[]]" by simp
    then show False by (auto simp: form_pair_def)
  qed
  then show ?thesis
    by (simp add: sample_form_parse_def sample_form_serialize_def split comp_def form_pair_parse)
qed (simp add: sample_form_parse_def sample_form_serialize_def)

lemma lacks_join: "(\<And>s. s \<in> set ss \<Longrightarrow> lacks s cs) \<Longrightarrow> lacks sep cs \<Longrightarrow> lacks (join sep ss) cs"
  by (induction sep ss rule: join.induct) (auto simp: lacks_def list_all_iff)

lemma sample_cli_ok: "pct_ok sample_cli" "form_ok sample_cli" "uuid_text_ok sample_cli"
proof -
  show "pct_ok sample_cli"
    using sample_pct_roundtrip sample_pct_chars sample_pct_roundtrip [of "\<lambda>c. c = CHR ''%''"]
    unfolding pct_ok_def by (simp add: sample_cli_def sample_pct_zone)
  have "lacks (sample_form_serialize ps) ''/?#''" for ps
    unfolding sample_form_serialize_def
    using form_encoded_chars by (intro lacks_join) (auto simp: lacks_def form_pair_def)
  moreover have "sample_form_serialize ps = [] \<longleftrightarrow> ps = []" for ps
    using sample_form_roundtrip [of ps] by (auto simp: sample_form_parse_def sample_form_serialize_def)
  ultimately show "form_ok sample_cli"
    unfolding form_ok_def by (simp add: sample_cli_def sample_form_roundtrip)
  show "uuid_text_ok sample_cli"
    by (auto simp: uuid_text_ok_def sample_cli_def as_bytes_def)
qed

definition sample_args :: "(string \<times> u16, bool) client_args" where
  "sample_args =
     (default_args (''127.0.0.1'', 1080))\<lparr>server := Some (''fe80::1%eth0'', 9443), password := Some ''p@ss:word'',
        sni := Some ''edge.example'', insecure := Some True, fragment := Some ''node 1?''\<rparr>"

theorem zone_url_roundtrip_witness:
  "\<exists>uri. format_url sample_cli sample_args = Inr uri \<and> parse_client_url sample_cli uri = Inr sample_args"
proof -
  obtain uri where uri: "format_url sample_cli sample_args = Inr uri"
    by (simp add: format_url_def sample_args_def Let_def)
  have "parse_client_url sample_cli uri =
     Inr ((default_args (local_1080 sample_cli))\<lparr>server := Some (''fe80::1%eth0'', 9443),
        password := Some (opt_text (password sample_args)), sni := sni sample_args,
        client_id := client_id sample_args, insecure := (if insecure sample_args = Some True then Some True else None),
        fragment := fragment sample_args\<rparr>)"
  proof (rule zone_url_roundtrip [OF sample_cli_ok _ _ _ _ _ _ _ uri])
    show "server sample_args = Some (''fe80::1%eth0'', 9443)" by (simp add: sample_args_def)
    show "zone_host (addr_host sample_cli (''fe80::1%eth0'', 9443))"
      by (simp add: zone_host_def sample_cli_def lacks_def utf8_valid_ascii as_bytes_def)
    show "addr_from sample_cli (addr_host sample_cli (''fe80::1%eth0'', 9443)) (addr_port sample_cli (''fe80::1%eth0'', 9443)) =
        (''fe80::1%eth0'', 9443)"
      by (simp add: sample_cli_def)
    show "CHR ''/'' \<notin> set (opt_text (password sample_args))" by (simp add: sample_args_def opt_text_def)
    show "\<forall>x\<in>{password sample_args, sni sample_args, fragment sample_args}. utf8_valid (as_bytes (opt_text x))"
      by (simp add: sample_args_def opt_text_def utf8_valid_ascii as_bytes_def)
    show "query_pairs sample_cli sample_args \<noteq> [] \<or> CHR ''?'' \<notin> set (opt_text (fragment sample_args))"
      by (simp add: query_pairs_def sample_args_def)
    show "fragment sample_args \<noteq> Some []" by (simp add: sample_args_def)
  qed
  with uri show ?thesis
    by (auto simp: sample_args_def default_args_def opt_text_def sample_cli_def)
qed


end
