(* ===== verification/Relay.thy ===== *)
theory Relay
  imports Prelude Transition "HOL-Library.Sublist"
begin

text \<open>
  The relay between a proxied connection, the peer, and a stream of the tunnel (\<^verbatim>\<open>src/relay.rs\<close>). A
  direction is stepped by the iterations of \<^verbatim>\<open>copy_direction\<close>, each with the number of bytes its
  \<^verbatim>\<open>read\<close> delivers; \<^verbatim>\<open>copy_bidirectional\<close> interleaves two directions and stops both at the first
  error, as \<^verbatim>\<open>try_join!\<close> does.
\<close>

datatype endpoint = Peer | Tunnel

definition label :: "endpoint \<Rightarrow> string" where
  "label e = (case e of Peer \<Rightarrow> ''peer'' | Tunnel \<Rightarrow> ''AnyTLS tunnel'')"

record relay_error =
  error_endpoint :: endpoint
  error :: io_error

definition is_peer_disconnect :: "io_error \<Rightarrow> bool" where
  "is_peer_disconnect e \<longleftrightarrow> e \<in> {ConnectionReset, ConnectionAborted, BrokenPipe}"

definition relay_peer_disconnect :: "relay_error \<Rightarrow> bool" where
  "relay_peer_disconnect r \<longleftrightarrow> error_endpoint r = Peer \<and> is_peer_disconnect (error r)"

text \<open>\<^verbatim>\<open>From<RelayError>\<close>: the kind is kept.\<close>

definition io_error_of :: "relay_error \<Rightarrow> io_error" where
  "io_error_of r = error r"

section \<open>One direction\<close>

definition BUFFER_SIZE :: nat where "BUFFER_SIZE = 16 * 1024"

datatype copy_phase = Copying | Copied | Failed relay_error

record copy =
  source :: reader
  dest :: sink
  copied :: u64
  phase :: copy_phase

definition copy_step :: "endpoint \<Rightarrow> endpoint \<Rightarrow> nat \<Rightarrow> copy \<Rightarrow> copy" where
  "copy_step read_endpoint write_endpoint want c =
     (case read_some BUFFER_SIZE want (source c) of
        Inl e \<Rightarrow> c\<lparr>phase := Failed \<lparr>error_endpoint = read_endpoint, error = e\<rparr>\<rparr>
      | Inr (bs, r) \<Rightarrow>
          if bs = [] then
            (case flush (dest c) of
               (Inl e, k) \<Rightarrow> c\<lparr>dest := k, phase := Failed \<lparr>error_endpoint = write_endpoint, error = e\<rparr>\<rparr>
             | (Inr _, k) \<Rightarrow> c\<lparr>dest := k, phase := Copied\<rparr>)
          else
            (case write_all bs (dest c) of
               (Inl e, k) \<Rightarrow> c\<lparr>source := r, dest := k, phase := Failed \<lparr>error_endpoint = write_endpoint, error = e\<rparr>\<rparr>
             | (Inr _, k) \<Rightarrow> c\<lparr>source := r, dest := k, copied := copied c + of_nat (length bs)\<rparr>))"

definition copy_left :: "copy \<Rightarrow> nat" where
  "copy_left c = (if phase c = Copying then Suc (length (avail (source c))) else 0)"

lemma copy_step_left: "phase c = Copying \<Longrightarrow> copy_left (copy_step re we want c) < copy_left c"
  by (auto simp: copy_left_def copy_step_def read_some_def Let_def split: sum.splits prod.splits if_splits option.splits)

text \<open>The whole of \<^verbatim>\<open>copy_direction\<close>: \<open>wants k\<close> is what the \<open>k\<close>-th read may deliver.\<close>

function copy_direction :: "endpoint \<Rightarrow> endpoint \<Rightarrow> (nat \<Rightarrow> nat) \<Rightarrow> copy \<Rightarrow> copy" where
  "copy_direction re we wants c =
     (if phase c = Copying then copy_direction re we (\<lambda>k. wants (Suc k)) (copy_step re we (wants 0) c) else c)"
  by pat_completeness auto
termination
  by (relation "measure (\<lambda>(re, we, wants, c). copy_left c)") (auto simp: copy_step_left)

declare copy_direction.simps [simp del]

definition copy_start :: "reader \<Rightarrow> sink \<Rightarrow> copy" where
  "copy_start r k = \<lparr>source = r, dest = k, copied = 0, phase = Copying\<rparr>"

text \<open>What has left the source has reached the destination, except for the tail of a failed write.\<close>

definition copy_inv :: "byte list \<Rightarrow> byte list \<Rightarrow> copy \<Rightarrow> bool" where
  "copy_inv input before c \<longleftrightarrow>
     (\<exists>sent. wire (dest c) = before @ sent \<and>
        (case phase c of
           Copying \<Rightarrow> sent @ avail (source c) = input \<and> copied c = of_nat (length sent)
         | Copied \<Rightarrow> sent = input \<and> copied c = of_nat (length input) \<and> fault (source c) = None
         | Failed e \<Rightarrow> prefix sent input))"

lemma copy_inv_start: "copy_inv (avail r) (wire k) (copy_start r k)"
  by (simp add: copy_inv_def copy_start_def)

lemma write_all_split:
  "write_all bs k = (r, k') \<Longrightarrow> \<exists>n. wire k' = wire k @ take n bs \<and> (is_ok r \<longrightarrow> take n bs = bs)"
  by (auto simp: write_all_def split: list.splits option.splits intro: exI [of _ "length bs"])

lemma copy_step_inv:
  assumes "copy_inv input before c" and "phase c = Copying"
  shows "copy_inv input before (copy_step re we want c)"
proof -
  obtain sent where sent: "wire (dest c) = before @ sent" "sent @ avail (source c) = input"
      "copied c = of_nat (length sent)"
    using assms by (auto simp: copy_inv_def)
  show ?thesis
  proof (cases "avail (source c) = []")
    case True
    have "wire k = wire (dest c)" if "flush (dest c) = (r, k)" for r k
      using flush_writtenD [OF that] by simp
    then show ?thesis using True sent
      by (auto simp: copy_inv_def copy_step_def read_some_def split: option.splits prod.splits sum.splits)
  next
    case False
    define n where "n = max 1 (min want BUFFER_SIZE)"
    obtain r k where w: "write_all (take n (avail (source c))) (dest c) = (r, k)"
      by (cases "write_all (take n (avail (source c))) (dest c)")
    obtain m where m: "wire k = wire (dest c) @ take m (take n (avail (source c)))"
        "is_ok r \<Longrightarrow> take m (take n (avail (source c))) = take n (avail (source c))"
      using write_all_split [OF w] by blast
    have ne: "take n (avail (source c)) \<noteq> []" using False by (simp add: n_def)
    have rs: "read_some BUFFER_SIZE want (source c) =
        Inr (take n (avail (source c)), Reader (drop n (avail (source c))) (fault (source c)))"
      using False by (simp add: read_some_def n_def Let_def)
    have step: "copy_step re we want c = (case r of
        Inl e \<Rightarrow> c\<lparr>source := Reader (drop n (avail (source c))) (fault (source c)), dest := k,
                   phase := Failed \<lparr>error_endpoint = we, error = e\<rparr>\<rparr>
      | Inr _ \<Rightarrow> c\<lparr>source := Reader (drop n (avail (source c))) (fault (source c)), dest := k,
                   copied := copied c + of_nat (length (take n (avail (source c))))\<rparr>)"
      unfolding copy_step_def rs using ne w by (cases r) simp_all
    show ?thesis
    proof (cases r)
      case (Inl e)
      have "prefix (sent @ take m (take n (avail (source c)))) input"
        using sent(2) by (metis append_take_drop_id prefixI same_prefix_prefix take_is_prefix prefix_order.trans)
      then show ?thesis using Inl step m sent(1) by (simp add: copy_inv_def)
    next
      case (Inr u)
      then show ?thesis using step m sent assms(2) by (simp add: copy_inv_def)
    qed
  qed
qed

lemma copy_direction_inv:
  "copy_inv input before c \<Longrightarrow> copy_inv input before (copy_direction re we wants c)"
proof (induction re we wants c rule: copy_direction.induct)
  case (1 re we wants c)
  then show ?case by (subst copy_direction.simps) (simp add: copy_step_inv)
qed

lemma copy_direction_ends: "phase (copy_direction re we wants c) \<noteq> Copying"
proof (induction re we wants c rule: copy_direction.induct)
  case (1 re we wants c)
  then show ?case by (subst copy_direction.simps) simp
qed

text \<open>A failure is attributed to the endpoint whose operation failed.\<close>

lemma copy_step_failed:
  "phase c = Copying \<Longrightarrow> phase (copy_step re we want c) = Failed e \<Longrightarrow>
     (error_endpoint e = re \<and> fault (source c) = Some (error e)) \<or>
     (error_endpoint e = we \<and> (\<exists>n rest. script (dest c) = Some (error e, n) # rest))"
  by (auto simp: copy_step_def read_some_def flush_def write_all_def Let_def
      split: sum.splits prod.splits if_splits option.splits list.splits)

lemma copy_step_frame:
  "fault (source (copy_step re we want c)) = fault (source c)"
  "set (script (dest (copy_step re we want c))) \<subseteq> set (script (dest c))"
  by (auto simp: copy_step_def read_some_def flush_def write_all_def Let_def
      split: sum.splits prod.splits if_splits option.splits list.splits)

lemma copy_direction_healthy:
  assumes "phase c = Copying" and "fault (source c) = None" and "healthy (dest c)"
  shows "phase (copy_direction re we wants c) = Copied"
  using assms
proof (induction re we wants c rule: copy_direction.induct)
  case (1 re we wants c)
  let ?c = "copy_step re we (wants 0) c"
  have frame: "fault (source ?c) = None" "healthy (dest ?c)"
    using 1 copy_step_frame [of re we "wants 0" c] by (auto simp: healthy_def)
  have nf: "phase ?c \<noteq> Failed e" for e
    using copy_step_failed [of c re we "wants 0" e] 1 by (auto simp: healthy_def)
  show ?case
  proof (cases "phase ?c")
    case Copying
    with 1 frame show ?thesis by (subst copy_direction.simps) simp
  next
    case Copied
    with 1 show ?thesis by (subst copy_direction.simps, subst copy_direction.simps) simp
  qed (use nf in blast)
qed

section \<open>Both directions\<close>

record relay =
  from_peer :: copy
  from_tunnel :: copy

definition relay_start :: "reader \<Rightarrow> sink \<Rightarrow> reader \<Rightarrow> sink \<Rightarrow> relay" where
  "relay_start peer_reader peer_writer tunnel_reader tunnel_writer =
     \<lparr>from_peer = copy_start peer_reader tunnel_writer, from_tunnel = copy_start tunnel_reader peer_writer\<rparr>"

definition relay_result :: "relay \<Rightarrow> (relay_error + u64 \<times> u64) option" where
  "relay_result r =
     (case (phase (from_peer r), phase (from_tunnel r)) of
        (Failed e, _) \<Rightarrow> Some (Inl e)
      | (_, Failed e) \<Rightarrow> Some (Inl e)
      | (Copied, Copied) \<Rightarrow> Some (Inr (copied (from_peer r), copied (from_tunnel r)))
      | _ \<Rightarrow> None)"

inductive copy_bidirectional :: "relay \<Rightarrow> relay \<Rightarrow> bool" where
  peer_chunk: "relay_result r = None \<Longrightarrow> phase (from_peer r) = Copying \<Longrightarrow>
     copy_bidirectional r (r\<lparr>from_peer := copy_step Peer Tunnel want (from_peer r)\<rparr>)"
| tunnel_chunk: "relay_result r = None \<Longrightarrow> phase (from_tunnel r) = Copying \<Longrightarrow>
     copy_bidirectional r (r\<lparr>from_tunnel := copy_step Tunnel Peer want (from_tunnel r)\<rparr>)"

inductive_cases copy_bidirectionalE: "copy_bidirectional r r'"

definition relay_inv :: "reader \<Rightarrow> sink \<Rightarrow> reader \<Rightarrow> sink \<Rightarrow> relay \<Rightarrow> bool" where
  "relay_inv pr pw tr tw r \<longleftrightarrow>
     copy_inv (avail pr) (wire tw) (from_peer r) \<and> copy_inv (avail tr) (wire pw) (from_tunnel r)"

interpretation relay: invariant_system "\<lambda>r. r = relay_start pr pw tr tw" copy_bidirectional "relay_inv pr pw tr tw"
  for pr pw tr tw
proof
  show "relay_inv pr pw tr tw r" if "r = relay_start pr pw tr tw" for r
    using that by (simp add: relay_inv_def relay_start_def copy_inv_start)
  show "relay_inv pr pw tr tw r'" if "relay_inv pr pw tr tw r" "copy_bidirectional r r'" for r r'
    using that(2,1) by cases (auto simp: relay_inv_def copy_step_inv)
qed

lemma copy_inv_prefix:
  assumes "copy_inv input before c"
  shows "\<exists>sent. wire (dest c) = before @ sent \<and> prefix sent input"
proof (cases "phase c")
  case Copying
  with assms obtain sent where "wire (dest c) = before @ sent" "sent @ avail (source c) = input"
    by (auto simp: copy_inv_def)
  then show ?thesis by (metis prefixI)
qed (use assms in \<open>auto simp: copy_inv_def\<close>)

lemma relay_result_Ok:
  "relay_result r = Some (Inr (a, b)) \<longleftrightarrow>
     phase (from_peer r) = Copied \<and> phase (from_tunnel r) = Copied \<and> a = copied (from_peer r) \<and> b = copied (from_tunnel r)"
  by (auto simp: relay_result_def split: copy_phase.splits)

lemma relay_result_None:
  "relay_result r = None \<longleftrightarrow>
     (\<forall>e. phase (from_peer r) \<noteq> Failed e) \<and> (\<forall>e. phase (from_tunnel r) \<noteq> Failed e) \<and>
     (phase (from_peer r) = Copying \<or> phase (from_tunnel r) = Copying)"
  by (auto simp: relay_result_def split: copy_phase.splits)

definition relay_left :: "relay \<Rightarrow> nat" where
  "relay_left r = copy_left (from_peer r) + copy_left (from_tunnel r)"

lemma relay_left_step: "copy_bidirectional r r' \<Longrightarrow> relay_left r' < relay_left r"
  by (erule copy_bidirectionalE) (auto simp: relay_left_def copy_step_left)

lemma relay_steps_bounded: "(copy_bidirectional ^^ n) r r' \<Longrightarrow> n + relay_left r' \<le> relay_left r"
proof (induction n arbitrary: r')
  case (Suc n)
  then obtain r1 where "(copy_bidirectional ^^ n) r r1" "copy_bidirectional r1 r'" by auto
  with Suc.IH [of r1] relay_left_step [of r1 r'] show ?case by simp
qed simp

section \<open>Properties\<close>


text \<open>C18: The relay ends: it takes at most as many reads as there are bytes to read on both sides and
  one more per side, and it never stops before it has a result, success or the first error.\<close>

theorem relay_terminates:
  assumes "(copy_bidirectional ^^ n) (relay_start pr pw tr tw) r"
  shows "n \<le> length (avail pr) + length (avail tr) + 2 \<and>
     (relay_result r = None) = (\<exists>r'. copy_bidirectional r r')"
proof -
  have "n + relay_left r \<le> length (avail pr) + length (avail tr) + 2"
    using relay_steps_bounded [OF assms] by (simp add: relay_left_def copy_left_def relay_start_def copy_start_def)
  moreover have "\<exists>r'. copy_bidirectional r r'" if "relay_result r = None"
    using that peer_chunk [OF that] tunnel_chunk [OF that] unfolding relay_result_None by blast
  moreover have "relay_result r = None" if "copy_bidirectional r r'" for r'
    using that by (rule copy_bidirectionalE)
  ultimately show ?thesis by auto
qed

definition sample_relay :: relay where
  "sample_relay =
     relay_start (Reader [1, 2, 3] None) \<lparr>written = [], script = []\<rparr>
       (Reader [9] (Some ConnectionReset)) \<lparr>written = [[7]], script = [Some (BrokenPipe, 1)]\<rparr>"

lemma sample_relay_step:
  "copy_bidirectional sample_relay
     (sample_relay\<lparr>from_peer :=
        \<lparr>source = Reader [3] None, dest = \<lparr>written = [[7], [1]], script = []\<rparr>, copied = 0,
         phase = Failed \<lparr>error_endpoint = Tunnel, error = BrokenPipe\<rparr>\<rparr>\<rparr>)"
proof -
  have s: "copy_step Peer Tunnel 2 (from_peer sample_relay) =
      \<lparr>source = Reader [3] None, dest = \<lparr>written = [[7], [1]], script = []\<rparr>, copied = 0,
       phase = Failed \<lparr>error_endpoint = Tunnel, error = BrokenPipe\<rparr>\<rparr>"
    by (simp add: sample_relay_def relay_start_def copy_start_def copy_step_def read_some_def BUFFER_SIZE_def write_all_def)
  have "relay_result sample_relay = None" "phase (from_peer sample_relay) = Copying"
    by (simp_all add: sample_relay_def relay_start_def copy_start_def relay_result_def)
  from peer_chunk [OF this, of 2] show ?thesis by (simp add: s)
qed


theorem relay_terminates_witness:
  "\<exists>r. copy_bidirectional sample_relay r \<and> \<not> (\<exists>r'. copy_bidirectional r r')"
proof -
  have "(copy_bidirectional ^^ 1) sample_relay
     (sample_relay\<lparr>from_peer :=
        \<lparr>source = Reader [3] None, dest = \<lparr>written = [[7], [1]], script = []\<rparr>, copied = 0,
         phase = Failed \<lparr>error_endpoint = Tunnel, error = BrokenPipe\<rparr>\<rparr>\<rparr>)"
    using sample_relay_step by auto
  from relay_terminates [OF this [unfolded sample_relay_def], folded sample_relay_def] sample_relay_step
  show ?thesis by (auto simp: relay_result_def)
qed

end
