(* ===== verification/Client_Listener.thy ===== *)
theory Client_Listener
  imports Client_Args Relay
begin

text \<open>
  The local listener of the client (\<^verbatim>\<open>src/client_app.rs\<close>): how it tells from the first bytes of a
  connection, without consuming them, which proxy protocol is spoken, what it does with the
  connection then, and the TLS trust the client starts with.
\<close>

section \<open>Recognising a protocol\<close>

datatype listener_protocol = Listener_Socks5 | Listener_Socks4 | Listener_Http

definition listener_supports_protocol :: "proxy_type \<Rightarrow> listener_protocol \<Rightarrow> bool" where
  "listener_supports_protocol t p \<longleftrightarrow>
     (t, p) \<in> {(Proxy_Socks5, Listener_Socks5), (Proxy_Http, Listener_Http),
               (Proxy_Mixed, Listener_Socks5), (Proxy_Mixed, Listener_Http)}"

definition byte_to_ascii_lowercase :: "byte \<Rightarrow> byte" where
  "byte_to_ascii_lowercase b = (if 65 \<le> b \<and> b \<le> 90 then b + 32 else b)"

definition bytes_eq_ignore_ascii_case :: "byte list \<Rightarrow> byte list \<Rightarrow> bool" where
  "bytes_eq_ignore_ascii_case xs ys \<longleftrightarrow> map byte_to_ascii_lowercase xs = map byte_to_ascii_lowercase ys"

definition http_methods :: "byte list list" where
  "http_methods = map as_bytes
     [''CONNECT'', ''GET'', ''POST'', ''HEAD'', ''PUT'', ''OPTIONS'', ''DELETE'', ''TRACE'', ''PATCH'',
      ''LOCK'', ''UNLOCK'', ''PROPFIND'', ''MKCOL'', ''COPY'', ''MOVE'']"

text \<open>\<^verbatim>\<open>get(..n)\<close> and \<^verbatim>\<open>get(n)\<close> of a slice.\<close>

definition get_to :: "nat \<Rightarrow> 'a list \<Rightarrow> 'a list option" where
  "get_to n xs = (if n \<le> length xs then Some (take n xs) else None)"

definition get_at :: "nat \<Rightarrow> 'a list \<Rightarrow> 'a option" where
  "get_at n xs = (if n < length xs then Some (xs ! n) else None)"

definition is_http_request :: "byte list \<Rightarrow> bool" where
  "is_http_request bs \<longleftrightarrow>
     list_ex (\<lambda>m. (case get_to (length m) bs of Some p \<Rightarrow> bytes_eq_ignore_ascii_case p m | None \<Rightarrow> False) \<and>
                  get_at (length m) bs = Some 32) http_methods"

definition could_be_http_request_prefix :: "byte list \<Rightarrow> bool" where
  "could_be_http_request_prefix bs \<longleftrightarrow>
     list_ex (\<lambda>m. let compared_len = min (length bs) (length m)
                  in (case (get_to compared_len bs, get_to compared_len m) of
                        (Some p, Some expected) \<Rightarrow> bytes_eq_ignore_ascii_case p expected
                      | _ \<Rightarrow> False) \<and>
                     (length bs \<le> length m \<or> get_at (length m) bs = Some 32)) http_methods"

definition PEEK_SIZE :: nat where "PEEK_SIZE = 16"

text \<open>The loop over the results of \<^verbatim>\<open>peek\<close> so far; \<open>None\<close> while it waits for the next one.\<close>

fun detect_listener_protocol :: "byte list io_result list \<Rightarrow> listener_protocol option io_result option" where
  "detect_listener_protocol [] = None"
| "detect_listener_protocol (Inl e # peeks) = Some (Inl e)"
| "detect_listener_protocol (Inr [] # peeks) = Some (Inr None)"
| "detect_listener_protocol (Inr (b # bs) # peeks) =
     (if b = 5 then Some (Inr (Some Listener_Socks5))
      else if b = 4 then Some (Inr (Some Listener_Socks4))
      else if is_http_request (b # bs) then Some (Inr (Some Listener_Http))
      else if could_be_http_request_prefix (b # bs) then detect_listener_protocol peeks
      else Some (Inr None))"

section \<open>Serving a connection\<close>

text \<open>What is done with the connection: handed to the SOCKS5 or the HTTP service, shut down (the result of
  the shutdown is the result of the task), or left with a result.\<close>

datatype listener_action = Serve_Socks5 | Serve_Http | Shut_Down | Left "unit io_result"

text \<open>\<open>detected\<close> is \<open>None\<close> when the five seconds have passed, and \<open>first\<close> is the result of the peek that only
  an unknown protocol needs. The second component is the protocol the connection is labelled with.\<close>

definition handle_listener_stream ::
  "proxy_type \<Rightarrow> listener_protocol option io_result option \<Rightarrow> nat io_result \<Rightarrow> listener_action \<times> proxy_type" where
  "handle_listener_stream t detected first =
     (case detected of
        None \<Rightarrow> (Shut_Down, Proxy_None)
      | Some (Inl e) \<Rightarrow> (Left (if Relay.is_peer_disconnect e then Inr () else Inl e), Proxy_None)
      | Some (Inr (Some p)) \<Rightarrow>
          (let spoken = (case p of Listener_Socks5 \<Rightarrow> Proxy_Socks5 | Listener_Socks4 \<Rightarrow> Proxy_Socks4 | Listener_Http \<Rightarrow> Proxy_Http)
           in if \<not> listener_supports_protocol t p then (Shut_Down, spoken)
              else (case p of
                      Listener_Socks5 \<Rightarrow> (Serve_Socks5, spoken)
                    | Listener_Socks4 \<Rightarrow> (Shut_Down, spoken)
                    | Listener_Http \<Rightarrow> (Serve_Http, spoken)))
      | Some (Inr None) \<Rightarrow>
          (case first of
             Inl e \<Rightarrow> (Left (if Relay.is_peer_disconnect e then Inr () else Inl e), Proxy_None)
           | Inr n \<Rightarrow> (if n = 0 then Left (Inr ()) else Shut_Down, Proxy_None)))"

section \<open>TLS trust\<close>

definition insecure_tls_enabled :: "'p option \<Rightarrow> bool \<Rightarrow> bool" where
  "insecure_tls_enabled root_path allowed \<longleftrightarrow> root_path = None \<and> allowed"

text \<open>The certificates of a root file are read one by one; \<open>trusted\<close> says whether the root store takes one.\<close>

fun add_roots :: "('c \<Rightarrow> bool) \<Rightarrow> 'c io_result list \<Rightarrow> 'c list \<Rightarrow> 'c list io_result" where
  "add_roots trusted [] store = Inr store"
| "add_roots trusted (Inl e # certs) store = Inl e"
| "add_roots trusted (Inr c # certs) store =
     (if trusted c then add_roots trusted certs (store @ [c]) else Inl OtherError)"

datatype 'c server_trust = Any_Certificate | Trust_Roots "'c list"

definition client_tls_config ::
  "('p \<Rightarrow> 'c io_result list io_result) \<Rightarrow> 'c list \<Rightarrow> ('c \<Rightarrow> bool) \<Rightarrow> 'p option \<Rightarrow> bool \<Rightarrow> 'c server_trust io_result" where
  "client_tls_config open_certs native trusted root_path allow_any =
     (if allow_any then Inr Any_Certificate
      else io_bind (case root_path of
                      Some p \<Rightarrow> io_bind (open_certs p) (\<lambda>certs. add_roots trusted certs [])
                    | None \<Rightarrow> add_roots trusted (map Inr native) [])
             (\<lambda>store. if store = [] then Inl InvalidInput else Inr (Trust_Roots store)))"

text \<open>The trust \<^verbatim>\<open>run_client\<close> starts with.\<close>

definition run_client_trust ::
  "(string \<Rightarrow> 'c io_result list io_result) \<Rightarrow> 'c list \<Rightarrow> ('c \<Rightarrow> bool) \<Rightarrow> ('a, 'u) client_args \<Rightarrow> 'c server_trust io_result" where
  "run_client_trust open_certs native trusted args =
     client_tls_config open_certs native trusted (root_cert args)
       (insecure_tls_enabled (root_cert args) (case insecure args of None \<Rightarrow> False | Some b \<Rightarrow> b))"

section \<open>Lemmas\<close>

text \<open>A request line starts with a method and a space; \<open>starts\<close> says how far some bytes follow one method.\<close>

definition starts :: "byte list \<Rightarrow> byte list \<Rightarrow> bool" where
  "starts m bs \<longleftrightarrow> map byte_to_ascii_lowercase (take (length m) bs) = map byte_to_ascii_lowercase (take (length bs) m) \<and>
     (length m < length bs \<longrightarrow> bs ! length m = 32)"

lemma could_be_iff: "could_be_http_request_prefix bs \<longleftrightarrow> (\<exists>m\<in>set http_methods. starts m bs)"
proof -
  have t: "take (min (length bs) (length m)) bs = take (length m) bs" "take (min (length bs) (length m)) m = take (length bs) m"
    for m :: "byte list" by (simp_all add: min_def)
  have g: "(get_at (length m) bs = Some 32) = (length m < length bs \<and> bs ! length m = 32)" for m :: "byte list"
    by (simp add: get_at_def)
  have "(length bs \<le> length m \<or> get_at (length m) bs = Some 32) = (length m < length bs \<longrightarrow> bs ! length m = 32)"
    for m :: "byte list" unfolding g by linarith
  then show ?thesis
    unfolding could_be_http_request_prefix_def list_ex_iff Let_def
    by (intro bex_cong refl) (simp only: starts_def get_to_def t bytes_eq_ignore_ascii_case_def min.cobounded1 min.cobounded2
        if_True option.case prod.case)
qed

lemma is_http_iff: "is_http_request bs \<longleftrightarrow> (\<exists>m\<in>set http_methods. starts m bs \<and> length m < length bs)"
  unfolding is_http_request_def list_ex_iff
  by (intro bex_cong refl) (auto simp: starts_def get_to_def get_at_def bytes_eq_ignore_ascii_case_def)

lemma starts_take: "starts m bs \<Longrightarrow> starts m (take n bs)"
proof -
  assume s: "starts m bs"
  then have "take n (map byte_to_ascii_lowercase (take (length m) bs)) = take n (map byte_to_ascii_lowercase (take (length bs) m))"
    by (simp add: starts_def)
  then have "map byte_to_ascii_lowercase (take (min n (length m)) bs) = map byte_to_ascii_lowercase (take (min n (length bs)) m)"
    by (simp add: take_map)
  with s show "starts m (take n bs)"
    by (simp add: starts_def min.commute [of "length m" n] min.commute [of "length bs" n])
qed

lemma starts_hd:
  "starts m bs \<Longrightarrow> m \<noteq> [] \<Longrightarrow> bs \<noteq> [] \<Longrightarrow> byte_to_ascii_lowercase (hd bs) = byte_to_ascii_lowercase (hd m)"
  by (cases m; cases bs) (auto simp: starts_def)

lemma starts_extend: "starts m (take n bs) \<Longrightarrow> length m < length (take n bs) \<Longrightarrow> starts m bs"
  by (auto simp: starts_def min_def split: if_splits)

lemma http_prefix_waits: "is_http_request bs \<Longrightarrow> could_be_http_request_prefix (take n bs)"
  using starts_take by (auto simp: is_http_iff could_be_iff)

lemma http_stays: "is_http_request (take n bs) \<Longrightarrow> is_http_request bs"
  unfolding is_http_iff using starts_extend [of _ n bs] by (metis length_take less_le_trans min.cobounded1)

lemma http_methods_short: "m \<in> set http_methods \<Longrightarrow> length m \<le> 8"
  by (auto simp: http_methods_def)

lemma long_prefix_decides:
  assumes "could_be_http_request_prefix bs" and "9 \<le> length bs"
  shows "is_http_request bs"
proof -
  obtain m where m: "m \<in> set http_methods" "starts m bs" using assms(1) by (auto simp: could_be_iff)
  then have "length m < length bs" using http_methods_short [of m] assms(2) by simp
  with m show ?thesis by (auto simp: is_http_iff)
qed

section \<open>Properties\<close>

text \<open>The protocol that the whole of a connection's bytes speak.\<close>

definition spoken_protocol :: "byte list \<Rightarrow> listener_protocol option" where
  "spoken_protocol bs =
     (case bs of
        [] \<Rightarrow> None
      | b # _ \<Rightarrow> if b = 5 then Some Listener_Socks5 else if b = 4 then Some Listener_Socks4
                else if is_http_request bs then Some Listener_Http else None)"

lemma detected_is_spoken:
  assumes "\<And>n. n \<in> set ns \<Longrightarrow> 0 < n" and "bs \<noteq> []"
    and "detect_listener_protocol (map (\<lambda>n. Inr (take n bs)) ns) = Some r"
  shows "r = Inr (spoken_protocol bs)"
  using assms
proof (induction ns)
  case (Cons n ns)
  obtain b bs' where bs: "bs = b # bs'" using assms(2) by (cases bs) auto
  have "take n bs = b # take (n - 1) bs'" using Cons.prems(1) bs by (cases n) auto
  then show ?case
    using Cons bs http_stays [of n bs] http_prefix_waits [of bs n]
    by (auto simp: spoken_protocol_def split: if_splits)
qed simp

lemma detection_decides:
  assumes "n \<in> set ns" and "9 \<le> n" and "9 \<le> length bs"
  shows "detect_listener_protocol (map (\<lambda>n. Inr (take n bs)) ns) \<noteq> None"
  using assms(1)
proof (induction ns)
  case (Cons k ns)
  have "could_be_http_request_prefix (take n bs) \<Longrightarrow> is_http_request (take n bs)"
    using assms(2,3) by (intro long_prefix_decides) auto
  then show ?case using Cons by (cases "take k bs") auto
qed simp

text \<open>C37: A local connection is served by what it speaks, however its bytes trickle in: whatever snapshots of
  the first bytes the listener has peeked at, once it decides it serves SOCKS5 exactly when the
  connection's first byte is 5 and the listener offers it, HTTP exactly when the connection opens
  with a known method and a space, in any letter case, and the listener offers it, and nothing
  else; and it has decided by the first snapshot of nine bytes or more.\<close>

theorem listener_serves_what_is_spoken:
  assumes "\<And>n. n \<in> set ns \<Longrightarrow> 0 < n" and "bs \<noteq> []"
    and "detected = detect_listener_protocol (map (\<lambda>n. Inr (take n bs)) ns)"
    and "handle_listener_stream t detected first = (action, lbl)"
  shows "(detected \<noteq> None \<longrightarrow>
            (action = Serve_Socks5) = (hd bs = 5 \<and> t \<in> {Proxy_Socks5, Proxy_Mixed}) \<and>
            (action = Serve_Http) = (is_http_request bs \<and> t \<in> {Proxy_Http, Proxy_Mixed})) \<and>
         (detected = None \<longrightarrow> action = Shut_Down \<and> (\<forall>n\<in>set ns. n < 9 \<or> length bs < 9))"
proof (cases detected)
  case None
  then show ?thesis using assms(3,4) detection_decides [of _ ns bs]
    by (fastforce simp: handle_listener_stream_def not_less [symmetric])
next
  case (Some r)
  then have r: "r = Inr (spoken_protocol bs)" using detected_is_spoken [OF assms(1,2)] assms(3) by metis
  have lower: "byte_to_ascii_lowercase 5 = 5" "byte_to_ascii_lowercase 4 = 4" by (simp_all add: byte_to_ascii_lowercase_def)
  have "byte_to_ascii_lowercase (hd m) \<notin> {5, 4} \<and> m \<noteq> []" if "m \<in> set http_methods" for m
    using that by (auto simp: http_methods_def as_bytes_def byte_to_ascii_lowercase_def)
  then have "is_http_request bs \<Longrightarrow> hd bs \<noteq> 5 \<and> hd bs \<noteq> 4"
    using assms(2) starts_hd lower by (metis insertCI is_http_iff)
  then show ?thesis using assms(2,4) Some r
    by (cases bs; cases t) (auto simp: handle_listener_stream_def spoken_protocol_def listener_supports_protocol_def
        split: if_splits sum.splits)
qed

theorem listener_serves_what_is_spoken_witness:
  "detect_listener_protocol (map (\<lambda>n. Inr (take n (as_bytes ''get / HTTP/1.1''))) [1, 3, 7]) = Some (Inr (Some Listener_Http)) \<and>
   (Serve_Http = Serve_Http) = (is_http_request (as_bytes ''get / HTTP/1.1'') \<and> Proxy_Mixed \<in> {Proxy_Http, Proxy_Mixed})"
proof -
  let ?d = "detect_listener_protocol (map (\<lambda>n. Inr (take n (as_bytes ''get / HTTP/1.1''))) [1, 3, 7])"
  have d: "?d = Some (Inr (Some Listener_Http))" by code_simp
  then have "handle_listener_stream Proxy_Mixed ?d (Inr 1) = (Serve_Http, Proxy_Http)"
    by (simp add: handle_listener_stream_def listener_supports_protocol_def)
  moreover have "n \<in> set [1, 3, 7] \<Longrightarrow> 0 < n" for n :: nat by auto
  moreover have "as_bytes ''get / HTTP/1.1'' \<noteq> []" by (simp add: as_bytes_def)
  ultimately have "(Serve_Http = Serve_Http) = (is_http_request (as_bytes ''get / HTTP/1.1'') \<and> Proxy_Mixed \<in> {Proxy_Http, Proxy_Mixed})"
    using listener_serves_what_is_spoken [OF _ _ refl] d by blast
  with d show ?thesis by blast
qed

lemma add_roots_trusted:
  "add_roots trusted certs store = Inr store' \<Longrightarrow>
     \<exists>added. store' = store @ added \<and> certs = map Inr added \<and> list_all trusted added"
  by (induction trusted certs store rule: add_roots.induct) (auto split: if_splits)

text \<open>C38: The client accepts any server certificate only when it is told to and no root certificate is given;
  otherwise it starts only with at least one root, and its roots are exactly the certificates of
  the given file, or of the system when there is none, all of which the root store took.\<close>

theorem certificates_are_verified:
  assumes "run_client_trust open_certs native trusted args = Inr trust"
  shows "(trust = Any_Certificate) = (root_cert args = None \<and> insecure args = Some True) \<and>
     (\<forall>roots. trust = Trust_Roots roots \<longrightarrow> roots \<noteq> [] \<and> list_all trusted roots \<and>
        (case root_cert args of None \<Rightarrow> roots = native | Some p \<Rightarrow> open_certs p = Inr (map Inr roots)))"
  using assms
  by (auto simp: run_client_trust_def client_tls_config_def insecure_tls_enabled_def io_bind_Inr_iff
      dest!: add_roots_trusted split: if_splits option.splits simp: inj_map_eq_map)

theorem certificates_are_verified_witness:
  "run_client_trust (\<lambda>_. Inr [Inr (7 :: nat)]) [1] (\<lambda>c. c > 0)
     ((default_args ())\<lparr>root_cert := Some ''root.pem'', insecure := Some True\<rparr> :: (unit, unit) client_args) = Inr (Trust_Roots [7]) \<and>
   Trust_Roots [7 :: nat] \<noteq> Any_Certificate \<and> list_all (\<lambda>c. c > 0) [7 :: nat]"
proof -
  let ?args = "(default_args ())\<lparr>root_cert := Some ''root.pem'', insecure := Some True\<rparr> :: (unit, unit) client_args"
  have r: "run_client_trust (\<lambda>_. Inr [Inr (7 :: nat)]) [1] (\<lambda>c. c > 0) ?args = Inr (Trust_Roots [7])"
    by (simp add: run_client_trust_def client_tls_config_def insecure_tls_enabled_def default_args_def)
  from certificates_are_verified [OF r] r show ?thesis by auto
qed

end
