(* ===== verification/Auth.thy ===== *)
theory Auth
  imports Padding
begin

text \<open>
  Authentication (\<^verbatim>\<open>src/core/auth.rs\<close>): the SHA-256 password digest, the two-byte padding
  length and the padding, whose first 36 bytes may carry a client id. Parameters for the
  crates: \<open>sha256\<close> (\<^verbatim>\<open>sha2\<close>), and for the \<^verbatim>\<open>uuid\<close> crate \<open>uuid_text\<close> (its \<^verbatim>\<open>to_string\<close>) and
  \<open>uuid_parse\<close> (its \<^verbatim>\<open>parse_str\<close>). What the code relies on is \<open>uuid_ok\<close>: the text form is
  36 characters of lower-case hexadecimal digits and hyphens that parse back to the id, and
  the empty text is no id.
\<close>

definition PASSWORD_DIGEST_SIZE :: nat where
  "PASSWORD_DIGEST_SIZE = 32"

definition AUTH_HEADER_SIZE :: nat where
  "AUTH_HEADER_SIZE = PASSWORD_DIGEST_SIZE + 2"

definition password_digest :: "(byte list \<Rightarrow> byte list) \<Rightarrow> string \<Rightarrow> byte list" where
  "password_digest sha256 password = sha256 (as_bytes password)"

definition uuid_ok :: "('u \<Rightarrow> string) \<Rightarrow> (string \<Rightarrow> 'u option) \<Rightarrow> bool" where
  "uuid_ok uuid_text uuid_parse \<longleftrightarrow>
     uuid_parse [] = None \<and>
     (\<forall>u. length (uuid_text u) = 36 \<and> uuid_parse (uuid_text u) = Some u \<and>
          set (uuid_text u) \<subseteq> set ''0123456789abcdef-'')"

definition sha_ok :: "(byte list \<Rightarrow> byte list) \<Rightarrow> bool" where
  "sha_ok sha256 \<longleftrightarrow> (\<forall>m. length (sha256 m) = PASSWORD_DIGEST_SIZE)"

section \<open>Writing and reading the authentication request\<close>

definition auth_padding_len ::
    "'g rng \<Rightarrow> padding_factory \<Rightarrow> 'u option \<Rightarrow> 'g \<Rightarrow> int \<times> 'g" where
  "auth_padding_len rng padding client_id g =
     (let (sizes, g') = generate_record_payload_sizes rng padding 0 g
      in (max (case sizes of [] \<Rightarrow> 0 | n # _ \<Rightarrow> n) (case client_id of None \<Rightarrow> 0 | Some _ \<Rightarrow> 36), g'))"

definition auth_padding_data :: "('u \<Rightarrow> string) \<Rightarrow> u16 \<Rightarrow> 'u option \<Rightarrow> byte list" where
  "auth_padding_data uuid_text padding_len client_id =
     (let padding_data = replicate (unat padding_len) 0
      in case client_id of
           None \<Rightarrow> padding_data
         | Some u \<Rightarrow> as_bytes (uuid_text u) @ drop 36 padding_data)"

definition write_auth_with_client_id ::
    "(byte list \<Rightarrow> byte list) \<Rightarrow> ('u \<Rightarrow> string) \<Rightarrow> 'g rng \<Rightarrow> string \<Rightarrow> padding_factory \<Rightarrow>
     'u option \<Rightarrow> 'g \<Rightarrow> sink \<Rightarrow> unit io_result \<times> sink \<times> 'g" where
  "write_auth_with_client_id sha256 uuid_text rng password padding client_id g k0 =
     (let (n, g') = auth_padding_len rng padding client_id g
      in if n < 0 \<or> n > 65535 then (Inl InvalidInput, k0, g')
         else
           let padding_len = (word_of_int n :: u16)
           in case write_all (password_digest sha256 password) k0 of
                (Inl e, k1) \<Rightarrow> (Inl e, k1, g')
              | (Inr _, k1) \<Rightarrow>
                  (case write_all (to_be_bytes16 padding_len) k1 of
                     (Inl e, k2) \<Rightarrow> (Inl e, k2, g')
                   | (Inr _, k2) \<Rightarrow>
                       (let (r3, k3) =
                          (if padding_len \<noteq> 0
                           then write_all (auth_padding_data uuid_text padding_len client_id) k2
                           else (Inr (), k2))
                        in case r3 of
                             Inl e \<Rightarrow> (Inl e, k3, g')
                           | Inr _ \<Rightarrow> (let (r4, k4) = flush k3 in (r4, k4, g')))))"

definition write_auth ::
    "(byte list \<Rightarrow> byte list) \<Rightarrow> ('u \<Rightarrow> string) \<Rightarrow> 'g rng \<Rightarrow> string \<Rightarrow> padding_factory \<Rightarrow>
     'g \<Rightarrow> sink \<Rightarrow> unit io_result \<times> sink \<times> 'g" where
  "write_auth sha256 uuid_text rng password padding g k =
     write_auth_with_client_id sha256 uuid_text rng password padding None g k"

definition extract_client_id_from_padding ::
    "(string \<Rightarrow> 'u option) \<Rightarrow> byte list \<Rightarrow> 'u option" where
  "extract_client_id_from_padding uuid_parse padding =
     (if length padding < 36 then None
      else case from_utf8 (take 36 padding) of
             None \<Rightarrow> None
           | Some text \<Rightarrow> uuid_parse (trim (trim_end_matches (CHR 0x00) text)))"

definition read_auth_with_client_id ::
    "(byte list \<Rightarrow> byte list) \<Rightarrow> (string \<Rightarrow> 'u option) \<Rightarrow> string \<Rightarrow> reader \<Rightarrow>
     ('u option \<times> reader) io_result" where
  "read_auth_with_client_id sha256 uuid_parse password r =
     io_bind (read_exact AUTH_HEADER_SIZE r) (\<lambda>(header, r1).
       if take PASSWORD_DIGEST_SIZE header \<noteq> password_digest sha256 password
       then Inl PermissionDenied
       else io_bind (read_exact (unat (from_be_bytes16 (header ! 32) (header ! 33))) r1)
              (\<lambda>(padding, r2). Inr (extract_client_id_from_padding uuid_parse padding, r2)))"

definition read_auth ::
    "(byte list \<Rightarrow> byte list) \<Rightarrow> (string \<Rightarrow> 'u option) \<Rightarrow> string \<Rightarrow> reader \<Rightarrow>
     (unit \<times> reader) io_result" where
  "read_auth sha256 uuid_parse password r =
     io_bind (read_auth_with_client_id sha256 uuid_parse password r) (\<lambda>(_, r'). Inr ((), r'))"

section \<open>The client id in the padding\<close>

lemma uuid_chars:
  "set s \<subseteq> set ''0123456789abcdef-'' \<Longrightarrow> c \<in> set s \<Longrightarrow>
   45 \<le> (of_char c :: nat) \<and> (of_char c :: nat) < 128"
  by (drule subsetD, assumption) auto

lemma uuid_text_trim:
  assumes "set s \<subseteq> set ''0123456789abcdef-''" and "s \<noteq> []"
  shows "utf8_valid (as_bytes s)" "trim_end_matches (CHR 0x00) s = s" "trim s = s"
proof -
  have ch: "45 \<le> (of_char c :: nat) \<and> (of_char c :: nat) < 128" if "c \<in> set s" for c
    using uuid_chars [OF assms(1) that] .
  show "utf8_valid (as_bytes s)" using ch by (intro ascii_string_valid) blast
  show "trim_end_matches (CHR 0x00) s = s"
    using ch [of "last s"] assms(2) by (intro trim_end_matches_id) auto
  have b: "45 \<le> b \<and> b < 128" if "b \<in> set (as_bytes s)" for b
    using that ch by (auto simp: as_bytes_def word_le_nat_alt word_less_nat_alt unat_of_char)
  have "hd w < 45 \<or> 128 \<le> hd w" "last w < 45 \<or> 128 \<le> last w" "w \<noteq> []" if "w \<in> set whitespace" for w
    using that by (auto simp: whitespace_def)
  then have "hd w \<notin> set (as_bytes s)" "last w \<notin> set (as_bytes s)" "w \<noteq> []" if "w \<in> set whitespace" for w
    using that b by (metis leD le_less_linear)+
  then show "trim s = s"
    by (intro trim_id) (metis hd_in_set last_in_set prefix_def suffix_def set_append Un_iff)+
qed

lemma extract_client_id_text:
  assumes "uuid_ok uuid_text uuid_parse"
  shows "extract_client_id_from_padding uuid_parse (as_bytes (uuid_text u) @ rest) = Some u"
proof -
  have u: "length (uuid_text u) = 36" "uuid_parse (uuid_text u) = Some u"
    "set (uuid_text u) \<subseteq> set ''0123456789abcdef-''"
    using assms by (auto simp: uuid_ok_def)
  then have "uuid_text u \<noteq> []" by auto
  with u uuid_text_trim [OF u(3)] show ?thesis
    by (simp add: extract_client_id_from_padding_def from_utf8_as_bytes)
qed

lemma strip_prefixes_Nil [simp]: "strip_prefixes ws [] = []"
  by (rule strip_prefixes_id) auto

lemma trim_Nil [simp]: "trim [] = []"
  by (simp add: trim_def as_bytes_def of_bytes_def)

lemma extract_client_id_zeros:
  assumes "uuid_parse [] = None"
  shows "extract_client_id_from_padding uuid_parse (replicate n 0) = None"
proof (cases "n < 36")
  case False
  have "char_of (0::nat) = CHR 0x00" by (simp add: char_of_def)
  then have o: "of_bytes (replicate m 0) = replicate m (CHR 0x00)" for m
    by (simp add: of_bytes_def)
  have "trim_end_matches (CHR 0x00) (replicate m (CHR 0x00)) = []" for m
    by (simp add: trim_end_matches_def)
  then show ?thesis
    using assms False by (simp add: extract_client_id_from_padding_def from_utf8_def utf8_valid_ascii o)
qed (simp add: extract_client_id_from_padding_def)

section \<open>What is written is what is read\<close>

text \<open>On a healthy transport the request is the digest, the length and the padding.\<close>

lemma write_auth_wire:
  assumes "healthy k" and "auth_padding_len rng padding client_id g = (n, g')" and "0 \<le> n" and "n \<le> 65535"
  shows "\<exists>k'. write_auth_with_client_id sha256 uuid_text rng password padding client_id g k = (Inr (), k', g') \<and>
    wire k' = wire k @ password_digest sha256 password @ to_be_bytes16 (word_of_int n) @
      (if n = 0 then [] else auth_padding_data uuid_text (word_of_int n) client_id)"
proof -
  have "uint (word_of_int n :: u16) = n"
    using assms(3,4) by (simp add: unsigned_of_int take_bit_int_eq_self)
  then have z: "(word_of_int n :: u16) = 0 \<longleftrightarrow> n = 0" by (metis uint_0_iff)
  obtain k1 where k1: "write_all (password_digest sha256 password) k = (Inr (), k1)" "healthy k1"
    "written k1 = written k @ [password_digest sha256 password]"
    using write_all_healthy [OF assms(1)] by metis
  obtain k2 where k2: "write_all (to_be_bytes16 (word_of_int n)) k1 = (Inr (), k2)" "healthy k2"
    "written k2 = written k1 @ [to_be_bytes16 (word_of_int n)]"
    using write_all_healthy [OF k1(2)] by metis
  obtain k3 where k3: "write_all (auth_padding_data uuid_text (word_of_int n) client_id) k2 = (Inr (), k3)"
    "healthy k3" "written k3 = written k2 @ [auth_padding_data uuid_text (word_of_int n) client_id]"
    using write_all_healthy [OF k2(2)] by metis
  obtain k4 where k4: "flush k3 = (Inr (), k4)" "written k4 = written k3"
    using flush_healthy [OF k3(2)] by metis
  obtain k5 where k5: "flush k2 = (Inr (), k5)" "written k5 = written k2"
    using flush_healthy [OF k2(2)] by metis
  show ?thesis
    using assms(2-4) k1 k2 k3 k4 k5 z
    by (cases "n = 0") (simp_all add: write_auth_with_client_id_def)
qed

lemma length_auth_padding_data:
  assumes "uuid_ok uuid_text uuid_parse" and "client_id \<noteq> None \<Longrightarrow> 36 \<le> unat w"
  shows "length (auth_padding_data uuid_text w client_id) = unat w"
  using assms by (auto simp: auth_padding_data_def uuid_ok_def Let_def split: option.splits)

lemma extract_auth_padding_data:
  assumes "uuid_ok uuid_text uuid_parse"
  shows "extract_client_id_from_padding uuid_parse (auth_padding_data uuid_text w client_id) = client_id"
  using assms extract_client_id_text [OF assms] extract_client_id_zeros [of uuid_parse]
  by (auto simp: auth_padding_data_def uuid_ok_def Let_def split: option.splits)

lemma read_auth_of_parts:
  assumes "sha_ok sha256" and "length pad = unat w"
  shows "read_auth_with_client_id sha256 uuid_parse password
      (Reader (password_digest sha256 password' @ to_be_bytes16 w @ pad @ rest) f) =
    (if password_digest sha256 password' = password_digest sha256 password
     then Inr (extract_client_id_from_padding uuid_parse pad, Reader rest f)
     else Inl PermissionDenied)"
proof -
  let ?d = "password_digest sha256 password'"
  have d: "length ?d = 32" using assms(1) by (simp add: sha_ok_def password_digest_def PASSWORD_DIGEST_SIZE_def)
  then have h: "read_exact 34 (Reader (?d @ to_be_bytes16 w @ pad @ rest) f) =
      Inr (?d @ to_be_bytes16 w, Reader (pad @ rest) f)"
    using read_exact_append [of "?d @ to_be_bytes16 w" 34 "pad @ rest" f] by simp
  have "from_be_bytes16 ((?d @ to_be_bytes16 w) ! 32) ((?d @ to_be_bytes16 w) ! 33) = w"
    using d by (simp add: nth_append to_be_bytes16_def be16_roundtrip)
  with h d assms(2) show ?thesis
    by (cases "?d = password_digest sha256 password")
      (simp_all add: read_auth_with_client_id_def AUTH_HEADER_SIZE_def PASSWORD_DIGEST_SIZE_def wire_simps)
qed

section \<open>Properties of the authentication request\<close>

lemma write_auth_okD:
  assumes "write_auth_with_client_id sha256 uuid_text rng password padding client_id g k = (Inr (), k', g')"
  shows "\<exists>n. auth_padding_len rng padding client_id g = (n, g') \<and> 0 \<le> n \<and> n \<le> 65535 \<and>
    wire k' = wire k @ password_digest sha256 password @ to_be_bytes16 (word_of_int n) @
      (if (word_of_int n :: u16) = 0 then [] else auth_padding_data uuid_text (word_of_int n) client_id)"
proof -
  obtain n g1 where n: "auth_padding_len rng padding client_id g = (n, g1)" by fastforce
  with assms have range: "0 \<le> n" "n \<le> 65535"
    by (auto simp: write_auth_with_client_id_def split: if_splits)
  then obtain k1 k2 where k: "write_all (password_digest sha256 password) k = (Inr (), k1)"
    "write_all (to_be_bytes16 (word_of_int n)) k1 = (Inr (), k2)"
    using assms n by (auto simp: write_auth_with_client_id_def Let_def split: prod.splits sum.splits)
  have "g1 = g' \<and> (if (word_of_int n :: u16) = 0 then wire k' = wire k2
      else wire k' = wire k2 @ auth_padding_data uuid_text (word_of_int n) client_id)"
    using assms n k range
    by (auto simp: write_auth_with_client_id_def Let_def split: prod.splits sum.splits if_splits
        dest!: write_all_okD flush_writtenD)
  with n k range show ?thesis by (auto dest!: write_all_okD split: if_splits)
qed

lemma auth_padding_client_id:
  "auth_padding_len rng padding client_id g = (n, g') \<Longrightarrow> client_id \<noteq> None \<Longrightarrow> 36 \<le> n"
  by (auto simp: auth_padding_len_def Let_def split: prod.splits)

text \<open>Concrete crates for the witnesses: a digest that keeps the first 32 bytes of a password,
  and two client ids in their text form.\<close>

definition sample_sha :: "byte list \<Rightarrow> byte list" where
  "sample_sha m = take 32 (m @ replicate 32 0)"

definition sample_uuid_text :: "bool \<Rightarrow> string" where
  "sample_uuid_text b =
     (if b then ''1f0e9c3a-7b52-4d68-9e41-0a2b3c4d5e6f'' else ''00000000-0000-0000-0000-000000000000'')"

definition sample_uuid_parse :: "string \<Rightarrow> bool option" where
  "sample_uuid_parse s =
     (if s = sample_uuid_text True then Some True
      else if s = sample_uuid_text False then Some False else None)"

lemma sample_ok: "sha_ok sample_sha" "uuid_ok sample_uuid_text sample_uuid_parse"
  by (simp_all add: sha_ok_def sample_sha_def PASSWORD_DIGEST_SIZE_def uuid_ok_def sample_uuid_text_def
      sample_uuid_parse_def min_def)

lemma auth_written_is_read:
  assumes "sha_ok sha256" and "uuid_ok uuid_text uuid_parse"
    and "write_auth_with_client_id sha256 uuid_text rng password padding client_id g k = (Inr (), k', g')"
  shows "\<exists>bs. wire k' = wire k @ bs \<and>
    (\<forall>rest f. read_auth_with_client_id sha256 uuid_parse password (Reader (bs @ rest) f) =
       Inr (client_id, Reader rest f))"
proof -
  from write_auth_okD [OF assms(3)] obtain n where n: "auth_padding_len rng padding client_id g = (n, g')"
    "0 \<le> n" "n \<le> 65535" and w: "wire k' = wire k @ password_digest sha256 password @ to_be_bytes16 (word_of_int n) @
      (if (word_of_int n :: u16) = 0 then [] else auth_padding_data uuid_text (word_of_int n) client_id)"
    by blast
  define m where "m = (word_of_int n :: u16)"
  define pad where "pad = auth_padding_data uuid_text m client_id"
  have "unat m = nat n" using n(2,3) by (simp add: m_def unat_eq_nat_uint unsigned_of_int take_bit_int_eq_self)
  then have len: "length pad = unat m"
    unfolding pad_def using auth_padding_client_id [OF n(1)] n(2)
    by (intro length_auth_padding_data [OF assms(2)]) auto
  then have "(if m = 0 then [] else pad) = pad" by (auto simp flip: length_0_conv)
  then have "wire k' = wire k @ password_digest sha256 password @ to_be_bytes16 m @ pad"
    using w unfolding m_def [symmetric] pad_def [symmetric] by simp
  moreover have "extract_client_id_from_padding uuid_parse pad = client_id"
    unfolding pad_def using assms(2) by (rule extract_auth_padding_data)
  ultimately show ?thesis
    using read_auth_of_parts [OF assms(1) len, of uuid_parse password password]
    by (intro exI [of _ "password_digest sha256 password @ to_be_bytes16 m @ pad"]) simp
qed

text \<open>An authentication request that was written in full, with or without a client id
  and on whatever transport, is accepted by a server with the same password, which learns
  exactly the client id that was sent and leaves the reader at the first byte after it.\<close>

theorem auth_roundtrip:
  assumes "sha_ok sha256" and "uuid_ok uuid_text uuid_parse"
    and "write_auth_with_client_id sha256 uuid_text rng password padding client_id g k = (Inr (), k', g')"
  shows "\<exists>bs. wire k' = wire k @ bs \<and>
    (\<forall>rest f. read_auth_with_client_id sha256 uuid_parse password (Reader (bs @ rest) f) =
       Inr (client_id, Reader rest f))"
  using assms by (rule auth_written_is_read)

theorem auth_roundtrip_witness:
  "\<exists>k' bs. write_auth_with_client_id sample_sha sample_uuid_text (\<lambda>a b g. (a, g)) ''secret''
       \<lparr>raw_scheme = [], stop = 1, md5 = [], scheme = Map.empty\<rparr> (Some True) () \<lparr>written = [], script = []\<rparr>
       = (Inr (), k', ()) \<and>
     wire k' = wire \<lparr>written = [], script = []\<rparr> @ bs \<and>
     (\<forall>rest f. read_auth_with_client_id sample_sha sample_uuid_parse ''secret'' (Reader (bs @ rest) f) =
        Inr (Some True, Reader rest f))"
proof -
  let ?pf = "\<lparr>raw_scheme = [], stop = 1, md5 = [], scheme = Map.empty\<rparr>"
  have "auth_padding_len (\<lambda>a b g. (a, g)) ?pf (Some True) () = (36, ())"
    by (simp add: auth_padding_len_def generate_record_payload_sizes_def)
  then obtain k' where k': "write_auth_with_client_id sample_sha sample_uuid_text (\<lambda>a b g. (a, g)) ''secret''
      ?pf (Some True) () \<lparr>written = [], script = []\<rparr> = (Inr (), k', ())"
    using write_auth_wire [of "\<lparr>written = [], script = []\<rparr>"] by (fastforce simp: healthy_def)
  from auth_roundtrip [OF sample_ok this] k' show ?thesis by blast
qed

text \<open>The built-in scheme always allows an authentication request: on a transport that
  works, writing it succeeds for every password, client id and generator.\<close>

theorem auth_default_scheme_writes:
  assumes "rng_ok rng" and "padding_new digest DEFAULT_SCHEME = Some padding" and "healthy k"
  shows "\<exists>k' g'. write_auth_with_client_id sha256 uuid_text rng password padding client_id g k = (Inr (), k', g')"
proof -
  obtain n g' where n: "auth_padding_len rng padding client_id g = (n, g')" by fastforce
  obtain sizes g1 where s: "generate_record_payload_sizes rng padding 0 g = (sizes, g1)" by fastforce
  have "scheme padding = map_of default_entries" using assms(2) by (auto simp: padding_new_default)
  then have "\<forall>x\<in>set sizes. x = CHECK_MARK \<or> (9 \<le> x \<and> x \<le> 1000)"
    using default_sizes [OF assms(1), of padding 0 g] s by simp
  then have "0 \<le> n \<and> n \<le> 65535"
    using n s by (auto simp: auth_padding_len_def CHECK_MARK_def split: list.splits option.splits)
  with write_auth_wire [OF assms(3) n] show ?thesis by blast
qed

theorem auth_default_scheme_writes_witness:
  "\<exists>k' g'. write_auth_with_client_id sample_sha sample_uuid_text (\<lambda>a b g. (a, g :: unit)) ''secret''
     \<lparr>raw_scheme = DEFAULT_SCHEME, stop = 8, md5 = [], scheme = map_of default_entries\<rparr>
     (Some False) () \<lparr>written = [], script = [None]\<rparr> = (Inr (), k', g')"
  by (rule auth_default_scheme_writes [where digest = "\<lambda>_. []"])
    (simp_all add: rng_ok_def healthy_def padding_new_default)

text \<open>C26: Only a request that starts with the digest of the server's password is accepted:
  whatever is accepted is the digest, a length and that many bytes of padding; any other 32
  first bytes are refused as \<^verbatim>\<open>PermissionDenied\<close> and a request that is too short is an error.\<close>

theorem auth_accepts_only_password:
  "(case read_auth_with_client_id sha256 uuid_parse password (Reader bs f) of
      Inr (cid, r') \<Rightarrow>
        (\<exists>w pad. bs = password_digest sha256 password @ to_be_bytes16 w @ pad @ avail r' \<and>
           length pad = unat w \<and> cid = extract_client_id_from_padding uuid_parse pad)
    | Inl e \<Rightarrow>
        (if length bs < AUTH_HEADER_SIZE then e = end_of (Reader bs f)
         else if take PASSWORD_DIGEST_SIZE bs \<noteq> password_digest sha256 password then e = PermissionDenied
         else e = end_of (Reader bs f) \<and> length bs < AUTH_HEADER_SIZE + unat (from_be_bytes16 (bs ! 32) (bs ! 33))))"
proof (cases "length bs < AUTH_HEADER_SIZE")
  case True
  then show ?thesis by (simp add: read_auth_with_client_id_def read_exact_def)
next
  case False
  define d where "d = password_digest sha256 password"
  define n where "n = unat (from_be_bytes16 (bs ! 32) (bs ! 33))"
  have l: "34 \<le> length bs" using False by (simp add: AUTH_HEADER_SIZE_def PASSWORD_DIGEST_SIZE_def)
  then have "take 34 bs = take 32 bs @ [bs ! 32, bs ! 33]"
    using take_Suc_conv_app_nth [of 32 bs] take_Suc_conv_app_nth [of 33 bs] by simp
  then have split: "bs = take 32 bs @ [bs ! 32, bs ! 33] @ take n (drop 34 bs) @ drop n (drop 34 bs)"
    by (metis append_assoc append_take_drop_id)
  have b: "[bs ! 32, bs ! 33] = to_be_bytes16 (from_be_bytes16 (bs ! 32) (bs ! 33))"
    by (simp add: to_be_bytes16_def be16_inverse)
  show ?thesis
  proof (cases "take 32 bs = d \<and> n \<le> length bs - 34")
    case True
    then have "bs = d @ to_be_bytes16 (from_be_bytes16 (bs ! 32) (bs ! 33)) @ take n (drop 34 bs) @ drop n (drop 34 bs)"
      using split b by simp
    moreover have "length (take n (drop 34 bs)) = n" using True by simp
    ultimately show ?thesis
      using True l unfolding n_def d_def
      by (simp add: read_auth_with_client_id_def read_exact_def AUTH_HEADER_SIZE_def PASSWORD_DIGEST_SIZE_def min_def)
        (intro exI conjI, assumption, simp_all)
  next
    case False
    then show ?thesis
      using l unfolding n_def d_def
      by (auto simp: read_auth_with_client_id_def read_exact_def AUTH_HEADER_SIZE_def PASSWORD_DIGEST_SIZE_def
          min_def end_of_def)
  qed
qed

end
