(* ===== verification/Server_Gate.thy ===== *)
theory Server_Gate
  imports Auth Relay Traffic_Audit
begin

text \<open>
  The entrance of the server (\<^verbatim>\<open>bin/server.rs\<close>): what \<^verbatim>\<open>handle_connection\<close> does with an accepted TLS
  connection before a session exists, and the relays for connections that do not authenticate.
  A URL is given by the parts the code asks the \<^verbatim>\<open>url\<close> crate for; the TLS server name and the
  outcomes of connecting are arguments.
\<close>

section \<open>Names and targets\<close>

definition to_ascii_lowercase :: "char \<Rightarrow> char" where
  "to_ascii_lowercase c =
     (if 65 \<le> (of_char c :: nat) \<and> (of_char c :: nat) \<le> 90 then char_of ((of_char c :: nat) + 32) else c)"

definition eq_ignore_ascii_case :: "string \<Rightarrow> string \<Rightarrow> bool" where
  "eq_ignore_ascii_case a b \<longleftrightarrow> map to_ascii_lowercase a = map to_ascii_lowercase b"

definition sni_is_allowed :: "string \<Rightarrow> string list \<Rightarrow> bool" where
  "sni_is_allowed target allowlist \<longleftrightarrow> (\<exists>allowed\<in>set allowlist. eq_ignore_ascii_case allowed target)"

record forward_url =
  url_scheme :: string
  host_str :: "string option"
  port_or_known_default :: "u16 option"

definition validate_forward_url :: "forward_url option \<Rightarrow> forward_url option io_result" where
  "validate_forward_url forward =
     (case forward of
        None \<Rightarrow> Inr None
      | Some url \<Rightarrow>
          if url_scheme url \<in> {''http'', ''https''} \<and> host_str url \<noteq> None then Inr (Some url) else Inl InvalidInput)"

section \<open>Reading the authentication header\<close>

text \<open>The loop that fills the 34-byte header: \<open>wants k\<close> is what the \<open>k\<close>-th read may deliver. End of
  file ends the loop early.\<close>

function read_auth_data :: "(nat \<Rightarrow> nat) \<Rightarrow> byte list \<Rightarrow> reader \<Rightarrow> (byte list \<times> reader) io_result" where
  "read_auth_data wants acc r =
     (if length acc < AUTH_HEADER_SIZE
      then (case read_some (AUTH_HEADER_SIZE - length acc) (wants 0) r of
              Inl e \<Rightarrow> Inl e
            | Inr (bs, r1) \<Rightarrow>
                if bs = [] then Inr (acc, r1) else read_auth_data (\<lambda>k. wants (Suc k)) (acc @ bs) r1)
      else Inr (acc, r))"
  by pat_completeness auto
termination
  by (relation "measure (\<lambda>(wants, acc, r). length (avail r))")
    (auto simp: read_some_def Let_def split: if_splits option.splits)

declare read_auth_data.simps [simp del]

section \<open>The gate\<close>

text \<open>The \<^verbatim>\<open>await\<close>s at which the cancellation of the server may win.\<close>

datatype gate_stage = Tls_Accept | Read_Header | Fallback_Relay | Read_Padding

text \<open>What becomes of a connection: closed without a word, a failure, a relay to the forward target or
  to the probed host with the bytes read so far, or a session with the client id it announced.\<close>

datatype 'u gate =
    Closed_Quietly
  | Gate_Error io_error
  | Forwarded forward_url "byte list" reader
  | Probed string "byte list" reader
  | Session_Granted "'u option" reader

definition panel_approves :: "bool \<Rightarrow> 'u option \<Rightarrow> 'u audit \<Rightarrow> bool" where
  "panel_approves panel_sync_enabled client_id a \<longleftrightarrow>
     \<not> panel_sync_enabled \<or> (case client_id of Some u \<Rightarrow> is_enabled u a | None \<Rightarrow> False)"

definition fallback ::
  "gate_stage set \<Rightarrow> forward_url option \<Rightarrow> string list \<Rightarrow> string option \<Rightarrow> byte list \<Rightarrow> reader \<Rightarrow> 'u gate" where
  "fallback cancelled forward_target allowlist server_name pre r =
     (case forward_target of
        Some url \<Rightarrow> if Fallback_Relay \<in> cancelled then Closed_Quietly else Forwarded url pre r
      | None \<Rightarrow>
          (case server_name of
             Some target \<Rightarrow>
               if \<not> sni_is_allowed target allowlist then Closed_Quietly
               else if Fallback_Relay \<in> cancelled then Closed_Quietly
               else Probed target pre r
           | None \<Rightarrow> Closed_Quietly))"

definition handle_connection ::
  "(byte list \<Rightarrow> byte list) \<Rightarrow> (string \<Rightarrow> 'u option) \<Rightarrow> gate_stage set \<Rightarrow> (nat \<Rightarrow> nat) \<Rightarrow> string \<Rightarrow> bool \<Rightarrow> 'u audit
     \<Rightarrow> forward_url option \<Rightarrow> string list \<Rightarrow> string option \<Rightarrow> reader io_result \<Rightarrow> 'u gate" where
  "handle_connection sha256 uuid_parse cancelled wants password panel_sync_enabled a forward_target allowlist server_name tls =
     (if Tls_Accept \<in> cancelled then Closed_Quietly
      else case tls of
        Inl e \<Rightarrow> Gate_Error e
      | Inr r \<Rightarrow>
          if Read_Header \<in> cancelled then Closed_Quietly
          else case read_auth_data wants [] r of
            Inl e \<Rightarrow> Gate_Error e
          | Inr (auth_data, r1) \<Rightarrow>
              if \<not> (length auth_data = AUTH_HEADER_SIZE \<and> take PASSWORD_DIGEST_SIZE auth_data = password_digest sha256 password)
              then fallback cancelled forward_target allowlist server_name auth_data r1
              else if Read_Padding \<in> cancelled then Closed_Quietly
              else case read_exact (unat (from_be_bytes16 (auth_data ! 32) (auth_data ! 33))) r1 of
                Inl e \<Rightarrow> Gate_Error e
              | Inr (padding_data, r2) \<Rightarrow>
                  (let client_id = extract_client_id_from_padding uuid_parse padding_data
                   in if panel_approves panel_sync_enabled client_id a then Session_Granted client_id r2
                      else Closed_Quietly))"

section \<open>Relays for connections that do not authenticate\<close>

text \<open>\<^verbatim>\<open>relay_probe_stream\<close> and \<^verbatim>\<open>relay_forward_stream\<close> up to the copying: the outcome of connecting, with
  or without TLS, is a sink. The result is what the target has received before the rest of the
  connection is copied both ways.\<close>

definition send_prefix :: "byte list \<Rightarrow> sink io_result \<Rightarrow> sink io_result" where
  "send_prefix pre connected =
     io_bind connected (\<lambda>k.
       case write_all pre k of
         (Inl e, _) \<Rightarrow> Inl e
       | (Inr _, k1) \<Rightarrow> (case flush k1 of (Inl e, _) \<Rightarrow> Inl e | (Inr _, k2) \<Rightarrow> Inr k2))"

definition relay_probe_stream :: "(string \<Rightarrow> u16 \<Rightarrow> sink io_result) \<Rightarrow> string \<Rightarrow> byte list \<Rightarrow> sink io_result" where
  "relay_probe_stream connect_tls target_host pre = send_prefix pre (connect_tls target_host 443)"

definition relay_forward_stream ::
  "(string \<Rightarrow> u16 \<Rightarrow> sink io_result) \<Rightarrow> (string \<Rightarrow> u16 \<Rightarrow> sink io_result) \<Rightarrow> forward_url \<Rightarrow> byte list \<Rightarrow> sink io_result" where
  "relay_forward_stream connect_plain connect_tls target pre =
     (case host_str target of
        None \<Rightarrow> Inl InvalidInput
      | Some host \<Rightarrow>
          (case port_or_known_default target of
             None \<Rightarrow> Inl InvalidInput
           | Some port \<Rightarrow>
               if url_scheme target = ''http'' then send_prefix pre (connect_plain host port)
               else if url_scheme target = ''https'' then send_prefix pre (connect_tls host port)
               else io_bind (connect_plain host port) (\<lambda>_. Inl InvalidInput)))"

section \<open>Lemmas\<close>

lemma read_auth_data_eq:
  assumes "length acc \<le> AUTH_HEADER_SIZE"
  shows "read_auth_data wants acc (Reader bs f) =
     (let n = AUTH_HEADER_SIZE - length acc
      in if n \<le> length bs then Inr (acc @ take n bs, Reader (drop n bs) f)
         else case f of None \<Rightarrow> Inr (acc @ bs, Reader [] None) | Some e \<Rightarrow> Inl e)"
  using assms
proof (induction "length bs" arbitrary: wants acc bs rule: less_induct)
  case less
  define n where "n = AUTH_HEADER_SIZE - length acc"
  show ?case
  proof (cases "n = 0 \<or> bs = []")
    case True
    then show ?thesis using less.prems
      by (subst read_auth_data.simps) (auto simp: n_def read_some_def Let_def split: option.splits)
  next
    case False
    define m where "m = max 1 (min (wants 0) n)"
    have m: "1 \<le> m" "m \<le> n" using False by (auto simp: m_def)
    have "read_auth_data wants acc (Reader bs f) = read_auth_data (\<lambda>k. wants (Suc k)) (acc @ take m bs) (Reader (drop m bs) f)"
    proof -
      have "read_some (AUTH_HEADER_SIZE - length acc) (wants 0) (Reader bs f) = Inr (take m bs, Reader (drop m bs) f)"
        using False by (simp add: read_some_def m_def n_def Let_def)
      then show ?thesis using False m by (subst read_auth_data.simps) (auto simp: n_def)
    qed
    also have "\<dots> = (let k = AUTH_HEADER_SIZE - length (acc @ take m bs)
        in if k \<le> length (drop m bs) then Inr ((acc @ take m bs) @ take k (drop m bs), Reader (drop k (drop m bs)) f)
           else case f of None \<Rightarrow> Inr ((acc @ take m bs) @ drop m bs, Reader [] None) | Some e \<Rightarrow> Inl e)"
      using False m less.prems by (intro less.hyps) (auto simp: n_def)
    also have "\<dots> = (if n \<le> length bs then Inr (acc @ take n bs, Reader (drop n bs) f)
         else case f of None \<Rightarrow> Inr (acc @ bs, Reader [] None) | Some e \<Rightarrow> Inl e)"
    proof (cases "m \<le> length bs")
      case True
      then have k: "AUTH_HEADER_SIZE - length (acc @ take m bs) = n - m" by (simp add: n_def)
      have t: "take m bs @ take (n - m) (drop m bs) = take n bs"
        using m by (metis le_add_diff_inverse take_add)
      have "drop (n - m) (drop m bs) = drop n bs" using m by simp
      with t k True m show ?thesis by (auto simp: Let_def split: option.splits)
    next
      case False
      then have "AUTH_HEADER_SIZE - length (acc @ take m bs) \<noteq> 0" "\<not> n \<le> length bs"
        using m less.prems by (auto simp: n_def)
      with False show ?thesis by (auto simp: Let_def split: option.splits)
    qed
    finally show ?thesis by (simp add: n_def Let_def)
  qed
qed

lemma read_auth_data_start:
  "read_auth_data wants [] (Reader bs f) =
     (if AUTH_HEADER_SIZE \<le> length bs then Inr (take AUTH_HEADER_SIZE bs, Reader (drop AUTH_HEADER_SIZE bs) f)
      else case f of None \<Rightarrow> Inr (bs, Reader [] None) | Some e \<Rightarrow> Inl e)"
  by (simp add: read_auth_data_eq Let_def split: option.splits)

lemma header_sizes: "PASSWORD_DIGEST_SIZE = 32" "AUTH_HEADER_SIZE = 34"
  by (simp_all add: PASSWORD_DIGEST_SIZE_def AUTH_HEADER_SIZE_def)

lemma read_auth_after_header:
  "AUTH_HEADER_SIZE \<le> length bs \<Longrightarrow> read_auth_with_client_id sha256 uuid_parse password (Reader bs f) =
     (if take PASSWORD_DIGEST_SIZE (take AUTH_HEADER_SIZE bs) \<noteq> password_digest sha256 password then Inl PermissionDenied
      else io_bind (read_exact (unat (from_be_bytes16 (take AUTH_HEADER_SIZE bs ! 32) (take AUTH_HEADER_SIZE bs ! 33)))
             (Reader (drop AUTH_HEADER_SIZE bs) f))
           (\<lambda>(pad, r). Inr (extract_client_id_from_padding uuid_parse pad, r)))"
  by (simp add: read_auth_with_client_id_def read_exact_def)

lemma fallback_not_session: "fallback cancelled fwd allowlist sni pre r \<noteq> Session_Granted cid r'"
  by (simp add: fallback_def split: option.splits)

text \<open>The gate and the reader of \<^verbatim>\<open>core/auth.rs\<close> agree.\<close>

lemma gate_eq_auth:
  "(handle_connection sha256 uuid_parse {} wants password panel a fwd allowlist sni (Inr (Reader bs f)) = Session_Granted cid r') =
   (read_auth_with_client_id sha256 uuid_parse password (Reader bs f) = Inr (cid, r') \<and> panel_approves panel cid a)"
proof (cases "AUTH_HEADER_SIZE \<le> length bs")
  case True
  then have "length (take AUTH_HEADER_SIZE bs) = AUTH_HEADER_SIZE" by simp
  with True show ?thesis
    by (cases "take PASSWORD_DIGEST_SIZE (take AUTH_HEADER_SIZE bs) = password_digest sha256 password")
      (auto simp: handle_connection_def read_auth_data_start read_auth_after_header fallback_not_session
        io_bind_def Let_def split: sum.splits prod.splits simp del: take_take)
next
  case False
  then have "read_auth_with_client_id sha256 uuid_parse password (Reader bs f) = Inl (end_of (Reader bs f))"
    by (simp add: read_auth_with_client_id_def read_exact_def)
  with False show ?thesis
    by (simp add: handle_connection_def read_auth_data_start fallback_not_session split: option.splits)
qed

lemma send_prefix_wire: "send_prefix pre (Inr k0) = Inr k \<Longrightarrow> wire k = wire k0 @ pre"
  by (auto simp: send_prefix_def split: prod.splits sum.splits dest!: write_all_okD flush_writtenD)

lemma fallback_cases:
  "fallback cancelled fwd allowlist sni pre r = Forwarded url pre' r' \<Longrightarrow> fwd = Some url \<and> pre' = pre \<and> r' = r"
  "fallback cancelled fwd allowlist sni pre r = Probed host pre' r' \<Longrightarrow>
     fwd = None \<and> sni = Some host \<and> sni_is_allowed host allowlist \<and> pre' = pre \<and> r' = r"
  by (auto simp: fallback_def split: option.splits if_splits)

lemma gate_handed_on:
  assumes "handle_connection sha256 uuid_parse cancelled wants password panel a fwd allowlist sni (Inr (Reader bs f)) = g"
    and "g = Forwarded url pre r' \<or> g = Probed host pre r'"
  shows "fallback cancelled fwd allowlist sni pre r' = g \<and> pre @ avail r' = bs \<and> fault r' = f \<and>
     pre = take AUTH_HEADER_SIZE bs \<and>
     \<not> (length pre = AUTH_HEADER_SIZE \<and> take PASSWORD_DIGEST_SIZE pre = password_digest sha256 password)"
proof -
  have "\<exists>hdr r1. read_auth_data wants [] (Reader bs f) = Inr (hdr, r1) \<and>
      \<not> (length hdr = AUTH_HEADER_SIZE \<and> take PASSWORD_DIGEST_SIZE hdr = password_digest sha256 password) \<and>
      fallback cancelled fwd allowlist sni hdr r1 = g"
    using assms by (auto simp: handle_connection_def Let_def split: if_splits sum.splits prod.splits)
  then obtain hdr r1 where h: "read_auth_data wants [] (Reader bs f) = Inr (hdr, r1)"
      "\<not> (length hdr = AUTH_HEADER_SIZE \<and> take PASSWORD_DIGEST_SIZE hdr = password_digest sha256 password)"
      "fallback cancelled fwd allowlist sni hdr r1 = g"
    by blast
  then have "hdr = pre" "r1 = r'" using assms(2) fallback_cases by metis+
  moreover have "hdr @ avail r1 = bs \<and> fault r1 = f \<and> hdr = take AUTH_HEADER_SIZE bs"
    using h(1) by (auto simp: read_auth_data_start split: if_splits option.splits)
  ultimately show ?thesis using h by blast
qed

section \<open>Properties\<close>

text \<open>C20: The server's own reading of the authentication request, in reads of any size, agrees with the
  reference reader of the authentication component: a connection becomes a session exactly when
  that reader accepts its request, with the same client id and the same rest of the stream, and
  the panel, where one manages the clients, has that client id enabled.\<close>

theorem gate_agrees_with_auth:
  "(handle_connection sha256 uuid_parse {} wants password panel a fwd allowlist sni (Inr (Reader bs f)) = Session_Granted cid r') =
   (read_auth_with_client_id sha256 uuid_parse password (Reader bs f) = Inr (cid, r') \<and> panel_approves panel cid a)"
  by (rule gate_eq_auth)

text \<open>C21: A connection that is relayed instead, to the forward target or to a probed host that is allowed
  by name, has not presented the password, and its target sees it from its first byte: what was
  sent ahead and what is still to be copied are together exactly what the connection sends.\<close>

theorem probes_see_everything:
  assumes "handle_connection sha256 uuid_parse cancelled wants password panel a fwd allowlist sni (Inr (Reader bs f)) = g"
    and "g = Forwarded url pre r' \<and> relay_forward_stream plain tls url pre = Inr k \<or>
         g = Probed host pre r' \<and> relay_probe_stream tls host pre = Inr k"
    and "\<And>h p k. plain h p = Inr k \<Longrightarrow> wire k = []" and "\<And>h p k. tls h p = Inr k \<Longrightarrow> wire k = []"
  shows "wire k @ avail r' = bs \<and>
     \<not> (AUTH_HEADER_SIZE \<le> length bs \<and> take PASSWORD_DIGEST_SIZE bs = password_digest sha256 password) \<and>
     (fwd = Some url \<or> sni_is_allowed host allowlist)"
proof -
  have on: "fallback cancelled fwd allowlist sni pre r' = g \<and> pre @ avail r' = bs \<and> fault r' = f \<and>
     pre = take AUTH_HEADER_SIZE bs \<and>
     \<not> (length pre = AUTH_HEADER_SIZE \<and> take PASSWORD_DIGEST_SIZE pre = password_digest sha256 password)"
    using gate_handed_on [OF assms(1)] assms(2) by blast
  have sent: "wire k = pre" if "send_prefix pre c = Inr k" "\<And>k. c = Inr k \<Longrightarrow> wire k = []" for c
  proof (cases c)
    case (Inr k0)
    then show ?thesis using send_prefix_wire [of pre k0 k] that by simp
  qed (use that in \<open>simp add: send_prefix_def\<close>)
  have "wire k = pre"
    using assms(2)
  proof
    assume "g = Forwarded url pre r' \<and> relay_forward_stream plain tls url pre = Inr k"
    then show ?thesis using sent assms(3,4)
      by (auto simp: relay_forward_stream_def io_bind_Inr_iff split: option.splits if_splits)
  next
    assume "g = Probed host pre r' \<and> relay_probe_stream tls host pre = Inr k"
    then have "send_prefix pre (tls host 443) = Inr k" by (simp add: relay_probe_stream_def)
    then show ?thesis using assms(4) by (rule sent)
  qed
  moreover have "fwd = Some url \<or> sni_is_allowed host allowlist"
    using on assms(2) fallback_cases by metis
  moreover have "\<not> (AUTH_HEADER_SIZE \<le> length bs \<and> take PASSWORD_DIGEST_SIZE bs = password_digest sha256 password)"
  proof
    assume full: "AUTH_HEADER_SIZE \<le> length bs \<and> take PASSWORD_DIGEST_SIZE bs = password_digest sha256 password"
    have pre: "pre = take AUTH_HEADER_SIZE bs" using on by blast
    then have "length pre = AUTH_HEADER_SIZE" "take PASSWORD_DIGEST_SIZE pre = password_digest sha256 password"
      using full by (simp_all add: header_sizes)
    with on show False by blast
  qed
  moreover have "pre @ avail r' = bs" using on by blast
  ultimately show ?thesis by metis
qed

theorem probes_see_everything_witness:
  "wire \<lparr>written = [[71, 69]], script = []\<rparr> @ avail (Reader [] None) = [71, 69] \<and>
   \<not> (AUTH_HEADER_SIZE \<le> length [71, 69 :: byte] \<and> take PASSWORD_DIGEST_SIZE [71, 69] = password_digest sample_sha ''secret'') \<and>
   (None = Some \<lparr>url_scheme = ''http'', host_str = None, port_or_known_default = None\<rparr> \<or>
    sni_is_allowed ''Edge.example'' [''edge.example''])"
proof (rule probes_see_everything)
  show "handle_connection sample_sha sample_uuid_parse {} (\<lambda>_. 1) ''secret'' True [] None [''edge.example'']
      (Some ''Edge.example'') (Inr (Reader [71, 69] None)) = Probed ''Edge.example'' [71, 69] (Reader [] None)"
    by (simp add: handle_connection_def read_auth_data_start header_sizes fallback_def sni_is_allowed_def
        eq_ignore_ascii_case_def to_ascii_lowercase_def, code_simp)
  show "Probed ''Edge.example'' [71, 69] (Reader [] None) =
        Forwarded \<lparr>url_scheme = ''http'', host_str = None, port_or_known_default = None\<rparr> [71, 69] (Reader [] None) \<and>
        relay_forward_stream (\<lambda>_ _. Inl TimedOut) (\<lambda>_ _. Inr \<lparr>written = [], script = []\<rparr>)
          \<lparr>url_scheme = ''http'', host_str = None, port_or_known_default = None\<rparr> [71, 69] = Inr \<lparr>written = [[71, 69]], script = []\<rparr> \<or>
      Probed ''Edge.example'' [71, 69] (Reader [] None) = (Probed ''Edge.example'' [71, 69] (Reader [] None) :: bool gate) \<and>
        relay_probe_stream (\<lambda>_ _. Inr \<lparr>written = [], script = []\<rparr>) ''Edge.example'' [71, 69] = Inr \<lparr>written = [[71, 69]], script = []\<rparr>"
    by (simp add: relay_probe_stream_def send_prefix_def write_all_def flush_def)
qed auto

end
