(* ===== verification/Stream_Handle.thy ===== *)
theory Stream_Handle
  imports Session_System
begin

text \<open>
  The handle of a stream that applications hold (\<^verbatim>\<open>Stream\<close> in \<^verbatim>\<open>src/runtime/session.rs\<close>). The handle
  refers to its session weakly: the result of \<^verbatim>\<open>upgrade\<close> is an option. The pipe that carries the
  inbound data belongs to the pump of the session.
\<close>

section \<open>The handle\<close>

record stream_handle =
  handle_id :: u32
  handle_session_id :: nat
  handle_closed :: bool
  handshake_reported :: bool

definition stream_new :: "u32 \<Rightarrow> session option \<Rightarrow> stream_handle" where
  "stream_new sid s =
     \<lparr>handle_id = sid, handle_session_id = (case s of None \<Rightarrow> 0 | Some s \<Rightarrow> session_id s),
      handle_closed = False, handshake_reported = False\<rparr>"

definition stream_write :: "byte list \<Rightarrow> stream_handle \<Rightarrow> session option \<Rightarrow> op_result \<times> session option" where
  "stream_write bs h s =
     (if handle_closed h then (Some (Inl BrokenPipe), s)
      else case s of
        None \<Rightarrow> (Some (Inl BrokenPipe), None)
      | Some s1 \<Rightarrow> (let (r, s2) = write_data (handle_id h) bs s1 in (r, Some s2)))"

text \<open>The common part of \<^verbatim>\<open>handshake_success\<close> and \<^verbatim>\<open>handshake_failure\<close>: the frame goes out only to a peer of
  version two or later, and only for the call that sets the flag.\<close>

definition handshake_report ::
  "frame \<Rightarrow> stream_handle \<Rightarrow> session option \<Rightarrow> op_result \<times> stream_handle \<times> session option" where
  "handshake_report fr h s =
     (case s of
        None \<Rightarrow> (Some (Inl BrokenPipe), h, None)
      | Some s1 \<Rightarrow>
          if 2 \<le> peer_version s1 \<and> \<not> handshake_reported h
          then (let (r, s2) = write_control fr WriteControl s1 in (r, h\<lparr>handshake_reported := True\<rparr>, Some s2))
          else (Some (Inr ()), h, Some s1))"

definition handshake_success :: "stream_handle \<Rightarrow> session option \<Rightarrow> op_result \<times> stream_handle \<times> session option" where
  "handshake_success h s = handshake_report (frame_new SynAck (handle_id h)) h s"

definition handshake_failure ::
  "string \<Rightarrow> stream_handle \<Rightarrow> session option \<Rightarrow> op_result \<times> stream_handle \<times> session option" where
  "handshake_failure msg h s =
     handshake_report ((frame_new SynAck (handle_id h))\<lparr>data := as_bytes msg\<rparr>) h s"

text \<open>Shutting down the writing half of the in-memory pipe cannot fail, so the result is that of the
  session.\<close>

definition stream_close :: "nat \<Rightarrow> stream_handle \<Rightarrow> session option \<Rightarrow> op_result \<times> stream_handle \<times> session option" where
  "stream_close now h s =
     (if handle_closed h then (Some (Inr ()), h, s)
      else
        let h1 = h\<lparr>handle_closed := True\<rparr>
        in case s of
             None \<Rightarrow> (Some (Inl BrokenPipe), h1, None)
           | Some s1 \<Rightarrow> (let (r, s2) = close_stream_by_id now (handle_id h) s1 in (r, h1, Some s2)))"

definition shutdown_write_by_send_fin_to_remote :: "stream_handle \<Rightarrow> session option \<Rightarrow> op_result \<times> session option" where
  "shutdown_write_by_send_fin_to_remote h s =
     (case s of
        None \<Rightarrow> (Some (Inl BrokenPipe), None)
      | Some s1 \<Rightarrow> (let (r, s2) = send_fin_by_id (handle_id h) ShutdownWrite s1 in (r, Some s2)))"

text \<open>\<open>runtime\<close> says whether the drop happens inside a runtime that can run the spawned task.\<close>

definition stream_drop :: "bool \<Rightarrow> nat \<Rightarrow> stream_handle \<Rightarrow> session option \<Rightarrow> session option" where
  "stream_drop runtime now h s =
     (if handle_closed h then s
      else case s of
        None \<Rightarrow> None
      | Some s1 \<Rightarrow> if runtime then Some (helper_drop_stream_by_id now (handle_id h) s1) else Some s1)"

section \<open>The handshake is reported once\<close>

text \<open>A sequence of reports on one handle, each on the session as it is at that time: \<open>None\<close> reports
  success and \<open>Some msg\<close> a failure.\<close>

fun handshakes :: "(string option \<times> session) list \<Rightarrow> stream_handle \<Rightarrow> (op_result \<times> session option) list" where
  "handshakes [] h = []"
| "handshakes ((m, s) # calls) h =
     (let (r, h1, s1) = (case m of None \<Rightarrow> handshake_success h (Some s) | Some msg \<Rightarrow> handshake_failure msg h (Some s))
      in (r, s1) # handshakes calls h1)"

definition synack :: "stream_handle \<Rightarrow> string option \<Rightarrow> frame" where
  "synack h m = (case m of None \<Rightarrow> frame_new SynAck (handle_id h)
                  | Some msg \<Rightarrow> (frame_new SynAck (handle_id h))\<lparr>data := as_bytes msg\<rparr>)"

lemma handshakes_Cons:
  "handshakes ((m, s) # calls) h =
     (let (r, h1, s1) = handshake_report (synack h m) h (Some s) in (r, s1) # handshakes calls h1)"
  by (simp add: synack_def handshake_success_def handshake_failure_def split: option.splits)

lemma handshakes_reported:
  "handshake_reported h \<Longrightarrow> handshakes calls h = map (\<lambda>(m, s). (Some (Inr ()), Some s)) calls"
  by (induction calls) (auto simp: handshakes_Cons handshake_report_def simp del: handshakes.simps(2))

lemma handshakes_length: "length (handshakes calls h) = length calls"
  by (induction calls arbitrary: h) (auto simp: handshakes_Cons Let_def case_prod_beta simp del: handshakes.simps(2))


end
