(* ===== verification/Uot.thy ===== *)
theory Uot
  imports Codec Rust_Strings
begin

text \<open>
  UDP over TCP (\<^verbatim>\<open>src/uot.rs\<close>). Addresses come from the \<^verbatim>\<open>socks5-impl\<close> crate; their
  operations are parameters: \<open>addr_write\<close> (\<^verbatim>\<open>write_to_buf\<close>), \<open>addr_read\<close>
  (\<^verbatim>\<open>retrieve_from_async_stream\<close>), \<open>domain_address\<close> (the constructor) and \<open>as_domain\<close> (the
  pattern match on it). What the code relies on is that the two wire operations form a
  \<open>codec\<close>.
\<close>

definition V2_MAGIC_ADDRESS :: string where
  "V2_MAGIC_ADDRESS = ''sp.v2.udp-over-tcp.arpa''"

datatype uot_mode = Datagram | Connected

definition uot_mode_try_from :: "u8 \<Rightarrow> uot_mode io_result" where
  "uot_mode_try_from value =
     (if value = 0 then Inr Datagram else if value = 1 then Inr Connected else Inl InvalidData)"

fun uot_mode_code :: "uot_mode \<Rightarrow> u8" where
  "uot_mode_code Datagram = 0"
| "uot_mode_code Connected = 1"

record 'a uot_request =
  mode :: uot_mode
  destination :: 'a

definition uot_request_bytes :: "('a \<Rightarrow> byte list) \<Rightarrow> 'a uot_request \<Rightarrow> byte list" where
  "uot_request_bytes addr_write request =
     [uot_mode_code (mode request)] @ addr_write (destination request)"

definition uot_sentinel_destination :: "(string \<Rightarrow> u16 \<Rightarrow> 'a) \<Rightarrow> 'a" where
  "uot_sentinel_destination domain_address = domain_address V2_MAGIC_ADDRESS 0"

definition uot_is_sentinel_destination :: "('a \<Rightarrow> (string \<times> u16) option) \<Rightarrow> 'a \<Rightarrow> bool" where
  "uot_is_sentinel_destination as_domain address =
     (case as_domain address of Some (domain, _) \<Rightarrow> domain = V2_MAGIC_ADDRESS | None \<Rightarrow> False)"

definition read_u8 :: "reader \<Rightarrow> (u8 \<times> reader) io_result" where
  "read_u8 r = io_bind (read_exact 1 r) (\<lambda>(h, r'). Inr (h ! 0, r'))"

definition uot_get_request_from_stream ::
    "(reader \<Rightarrow> ('a \<times> reader) io_result) \<Rightarrow> reader \<Rightarrow> ('a uot_request \<times> reader) io_result" where
  "uot_get_request_from_stream addr_read r =
     io_bind (read_u8 r) (\<lambda>(b, r1).
       io_bind (uot_mode_try_from b) (\<lambda>m.
         io_bind (addr_read r1) (\<lambda>(d, r2). Inr (\<lparr>mode = m, destination = d\<rparr>, r2))))"

definition uot_encode_packet ::
    "('a \<Rightarrow> byte list) \<Rightarrow> uot_mode \<Rightarrow> 'a option \<Rightarrow> byte list \<Rightarrow> byte list io_result" where
  "uot_encode_packet addr_write m dest payload =
     (if length payload > 65535 then Inl InvalidInput
      else
        io_bind
          (if m = Datagram
           then (case dest of None \<Rightarrow> Inl InvalidInput | Some d \<Rightarrow> Inr (addr_write d))
           else if dest \<noteq> None then Inl InvalidInput
           else Inr [])
          (\<lambda>bytes. Inr (bytes @ to_be_bytes16 (of_nat (length payload)) @ payload)))"

definition uot_get_packet_from_stream ::
    "(reader \<Rightarrow> ('a \<times> reader) io_result) \<Rightarrow> uot_mode \<Rightarrow> reader \<Rightarrow>
     (('a option \<times> byte list) \<times> reader) io_result" where
  "uot_get_packet_from_stream addr_read m r =
     io_bind (if m = Datagram
              then io_bind (addr_read r) (\<lambda>(d, r1). Inr (Some d, r1))
              else Inr (None, r))
       (\<lambda>(dest, r1).
          io_bind (read_u16 r1) (\<lambda>(payload_len, r2).
            io_bind (read_exact (unat payload_len) r2) (\<lambda>(payload, r3).
              Inr ((dest, payload), r3))))"

section \<open>Packets and requests are codecs\<close>

lemma uot_mode_try_from_code [simp]: "uot_mode_try_from (uot_mode_code m) = Inr m"
  by (cases m) (simp_all add: uot_mode_try_from_def)

lemma uot_datagram_pair:
  "uot_encode_packet addr_write Datagram dest payload = Inr bs \<longleftrightarrow>
   (\<exists>d. dest = Some d \<and> pair_enc (\<lambda>a. Inr (addr_write a)) put_len16 (d, payload) = Inr bs)"
  by (auto simp: uot_encode_packet_def pair_enc_def put_len16_def split: option.splits)

lemma uot_get_datagram_pair:
  "uot_get_packet_from_stream addr_read Datagram r =
   io_bind (pair_dec addr_read get_len16 r) (\<lambda>((d, p), r'). Inr ((Some d, p), r'))"
  by (auto simp: uot_get_packet_from_stream_def pair_dec_def get_len16_def io_bind_def
      split: sum.splits prod.splits)

lemma uot_datagram_codec:
  assumes "codec (\<lambda>a. Inr (addr_write a)) addr_read"
  shows "codec (\<lambda>(dest, payload). uot_encode_packet addr_write Datagram dest payload)
    (uot_get_packet_from_stream addr_read Datagram)"
proof -
  have c: "codec (pair_enc (\<lambda>a. Inr (addr_write a)) put_len16) (pair_dec addr_read get_len16)"
    by (rule codec_pair [OF assms len16.codec_axioms])
  show ?thesis
    by unfold_locales
      (auto simp: uot_datagram_pair uot_get_datagram_pair codec.dec_enc [OF c] codec.dec_truncated [OF c]
        dest: codec.enc_nonempty [OF c])
qed

lemma uot_connected_len16:
  "uot_encode_packet addr_write Connected dest payload = Inr bs \<longleftrightarrow>
   dest = None \<and> put_len16 payload = Inr bs"
  by (auto simp: uot_encode_packet_def put_len16_def)

lemma uot_get_connected_len16:
  "uot_get_packet_from_stream addr_read Connected r =
   io_bind (get_len16 r) (\<lambda>(p, r'). Inr ((None, p), r'))"
  by (auto simp: uot_get_packet_from_stream_def get_len16_def io_bind_def
      split: sum.splits prod.splits)

interpretation uot_connected: codec
  "\<lambda>(dest, payload). uot_encode_packet addr_write Connected dest payload"
  "uot_get_packet_from_stream addr_read Connected" for addr_write addr_read
  by unfold_locales
    (auto simp: uot_connected_len16 uot_get_connected_len16 len16.dec_enc len16.dec_truncated
      dest: len16.enc_nonempty)

lemma uot_request_codec:
  assumes "codec (\<lambda>a. Inr (addr_write a)) addr_read"
  shows "codec (\<lambda>q. Inr (uot_request_bytes addr_write q)) (uot_get_request_from_stream addr_read)"
proof
  fix q :: "'a uot_request" and bs rest f
  assume e: "Inr (uot_request_bytes addr_write q) = (Inr bs :: byte list io_result)"
  then show "uot_get_request_from_stream addr_read (Reader (bs @ rest) f) = Inr (q, Reader rest f)"
    using codec.dec_enc [OF assms refl]
    by (auto simp: uot_request_bytes_def uot_get_request_from_stream_def read_u8_def read_exact_def)
  show "bs \<noteq> []" using e by (auto simp: uot_request_bytes_def)
next
  fix q :: "'a uot_request" and bs n f
  assume e: "Inr (uot_request_bytes addr_write q) = (Inr bs :: byte list io_result)" and n: "n < length bs"
  show "uot_get_request_from_stream addr_read (Reader (take n bs) f) = Inl (end_of (Reader [] f))"
  proof (cases n)
    case 0
    then show ?thesis
      by (simp add: uot_get_request_from_stream_def read_u8_def read_exact_def end_of_def)
  next
    case (Suc m)
    with e n have "m < length (addr_write (destination q))" by (auto simp: uot_request_bytes_def)
    then show ?thesis
      using e Suc codec.dec_truncated [OF assms refl]
      by (auto simp: uot_request_bytes_def uot_get_request_from_stream_def read_u8_def read_exact_def)
  qed
qed

section \<open>Properties of UDP over TCP\<close>

text \<open>Datagrams keep their boundaries: a sequence of datagrams, each with its own
  destination or on a connected flow, is read back datagram by datagram with the same
  destinations and payloads, provided the address codec of the crate does its part.\<close>

theorem uot_datagrams_roundtrip:
  assumes "codec (\<lambda>a. Inr (addr_write a)) addr_read"
    and "encode_all (\<lambda>(dest, payload). uot_encode_packet addr_write m dest payload) packets = Inr bs"
  shows "decode_upto (uot_get_packet_from_stream addr_read m) (length packets) (Reader (bs @ rest) f) =
    (packets, None)"
proof (cases m)
  case Datagram
  with codec.decode_upto_encode_all [OF uot_datagram_codec [OF assms(1)], of packets bs 0 rest f] assms(2)
  show ?thesis by simp
next
  case Connected
  with uot_connected.decode_upto_encode_all [of addr_write packets bs addr_read 0 rest f] assms(2)
  show ?thesis by simp
qed

text \<open>A concrete address codec for the witnesses: four bytes.\<close>

definition sample_addr_write :: "u32 \<Rightarrow> byte list" where
  "sample_addr_write = to_be_bytes32"

definition sample_addr_read :: "reader \<Rightarrow> (u32 \<times> reader) io_result" where
  "sample_addr_read r =
     io_bind (read_exact 4 r) (\<lambda>(h, r'). Inr (from_be_bytes32 (h ! 0) (h ! 1) (h ! 2) (h ! 3), r'))"

lemma sample_addr_codec: "codec (\<lambda>a. Inr (sample_addr_write a)) sample_addr_read"
  by unfold_locales
    (auto simp: sample_addr_write_def sample_addr_read_def to_be_bytes32_def read_exact_def be32_roundtrip
      end_of_def)

theorem uot_datagrams_roundtrip_witness:
  "decode_upto (uot_get_packet_from_stream sample_addr_read Datagram) 2
     (Reader ([8, 8, 8, 8, 0, 2, 65, 66] @ [1, 1, 1, 1, 0, 0] @ [99]) None) =
   ([(Some 0x08080808, [65, 66]), (Some 0x01010101, [])], None)"
proof -
  have "encode_all (\<lambda>(dest, payload). uot_encode_packet sample_addr_write Datagram dest payload)
      [(Some 0x08080808, [65, 66]), (Some 0x01010101, [])] = Inr [8, 8, 8, 8, 0, 2, 65, 66, 1, 1, 1, 1, 0, 0]"
    by (simp add: uot_encode_packet_def sample_addr_write_def to_be_bytes32_def to_be_bytes16_def
        drop_bit_eq_div)
  from uot_datagrams_roundtrip [OF sample_addr_codec this, of "[99]" None] show ?thesis by (simp add: numeral_2_eq_2)
qed

text \<open>The request that opens a UDP flow is read back as it was written, and a datagram
  is refused before anything is encoded exactly when it is too long or its destination does
  not fit the mode.\<close>

theorem uot_request_roundtrip:
  assumes "codec (\<lambda>a. Inr (addr_write a)) addr_read"
  shows "uot_get_request_from_stream addr_read (Reader (uot_request_bytes addr_write q @ rest) f) =
      Inr (q, Reader rest f) \<and>
    (uot_encode_packet addr_write (mode q) dest payload = Inl InvalidInput \<longleftrightarrow>
       length payload > 65535 \<or> (dest = None) = (mode q = Datagram))"
  using codec.dec_enc [OF uot_request_codec [OF assms] refl]
  by (cases "mode q") (auto simp: uot_encode_packet_def split: option.splits)

theorem uot_request_roundtrip_witness:
  "uot_get_request_from_stream sample_addr_read
     (Reader (uot_request_bytes sample_addr_write \<lparr>mode = Connected, destination = (0x7F000001 :: u32)\<rparr> @ [5]) None) =
      Inr (\<lparr>mode = Connected, destination = (0x7F000001 :: u32)\<rparr>, Reader [5] None) \<and>
   (uot_encode_packet sample_addr_write (mode \<lparr>mode = Connected, destination = (0x7F000001 :: u32)\<rparr>) None [1] = Inl InvalidInput \<longleftrightarrow>
      length [1 :: byte] > 65535 \<or>
      ((None :: u32 option) = None) = (mode \<lparr>mode = Connected, destination = (0x7F000001 :: u32)\<rparr> = Datagram))"
  by (rule uot_request_roundtrip) (rule sample_addr_codec)

end
