(* ===== verification/Server_Relay.thy ===== *)
theory Server_Relay
  imports Server_Gate Stream_Handle Uot
begin

text \<open>
  What the server does with a session (\<^verbatim>\<open>bin/server.rs\<close>): the loop that accepts its streams, the relay of
  one stream to its target with the accounting of its traffic, and the relay of UDP datagrams. The
  address codec and its domain constructor are the parameters of \<open>Uot\<close>; connecting, binding and the
  operations of the UDP socket are outcomes.
\<close>

section \<open>The streams of a session\<close>

datatype connection_event = Token_Cancelled | Stream_Accepted "u32 io_result" | Task_Joined bool

text \<open>The \<^verbatim>\<open>select!\<close> loop of \<^verbatim>\<open>handle_connection\<close> over the events that won so far: the streams whose relay
  was spawned, and the result once the loop has ended.\<close>

fun connection_loop :: "connection_event list \<Rightarrow> unit io_result option \<times> u32 list" where
  "connection_loop [] = (None, [])"
| "connection_loop (Token_Cancelled # es) = (Some (Inr ()), [])"
| "connection_loop (Stream_Accepted (Inl e) # es) = (Some (if e = BrokenPipe then Inr () else Inl e), [])"
| "connection_loop (Stream_Accepted (Inr sid) # es) = (let (r, sids) = connection_loop es in (r, sid # sids))"
| "connection_loop (Task_Joined ok # es) = connection_loop es"

definition connection_end :: "unit io_result \<Rightarrow> session \<Rightarrow> unit io_result \<times> session" where
  "connection_end session_result s =
     (case session_result of Inl e \<Rightarrow> (Inl e, shutdown s) | Inr _ \<Rightarrow> (Inr (), shutdown s))"

section \<open>The relay of a stream\<close>

datatype 'a stream_route = Route_Error io_error | Route_Denied | Route_Uot reader | Route_Connect 'a reader

definition stream_target ::
  "(reader \<Rightarrow> ('a \<times> reader) io_result) \<Rightarrow> ('a \<Rightarrow> (string \<times> u16) option) \<Rightarrow> bool \<Rightarrow> 'u option \<Rightarrow> 'u audit \<Rightarrow> reader
     \<Rightarrow> 'a stream_route" where
  "stream_target addr_read as_domain panel_sync_enabled client_id a r =
     (case addr_read r of
        Inl e \<Rightarrow> Route_Error e
      | Inr (dst, r1) \<Rightarrow>
          if \<not> panel_approves panel_sync_enabled client_id a then Route_Denied
          else if uot_is_sentinel_destination as_domain dst then Route_Uot r1
          else Route_Connect dst r1)"

text \<open>A denied stream reports the failure; the relay ends with the error of that report or with
  \<^verbatim>\<open>PermissionDenied\<close>.\<close>

definition stream_denied ::
  "string \<Rightarrow> stream_handle \<Rightarrow> session option \<Rightarrow> op_result \<times> stream_handle \<times> session option" where
  "stream_denied message h s = handshake_failure message h s"

definition stream_denied_result :: "unit io_result \<Rightarrow> unit io_result" where
  "stream_denied_result reported = (case reported of Inl e \<Rightarrow> Inl e | Inr _ \<Rightarrow> Inl PermissionDenied)"

definition CONNECT_TIMEOUT :: nat where "CONNECT_TIMEOUT = 15000"

text \<open>The outcome of resolving and connecting, \<open>None\<close> when the timeout elapsed; the answer to the client
  follows it, and the answer's own failure only matters after a success.\<close>

definition stream_connected ::
  "(io_error \<Rightarrow> string) \<Rightarrow> unit io_result option \<Rightarrow> stream_handle \<Rightarrow> session option
     \<Rightarrow> unit io_result \<times> op_result \<times> stream_handle \<times> session option" where
  "stream_connected error_text outcome h s =
     (let connected = (case outcome of None \<Rightarrow> Inl TimedOut | Some r \<Rightarrow> r)
      in case connected of
           Inl e \<Rightarrow> (Inl e, handshake_failure (error_text e) h s)
         | Inr _ \<Rightarrow> (Inr (), handshake_success h s))"

text \<open>\<^verbatim>\<open>CountedIo\<close>: the bytes that writes have moved into the inner stream since it was wrapped.\<close>

definition counted :: "sink \<Rightarrow> sink \<Rightarrow> u64" where
  "counted before k = of_nat (length (wire k) - length (wire before))"

definition charge :: "'u option \<Rightarrow> u64 \<Rightarrow> u64 \<Rightarrow> 'u audit \<Rightarrow> 'u audit" where
  "charge client_id up down a =
     (case client_id of None \<Rightarrow> a | Some u \<Rightarrow> add_downstream u down (add_upstream u up a))"

text \<open>The two shutdowns after the copying. The stream's adapter does nothing when it has already sent
  its FIN, which is the case when the direction towards the client has ended.\<close>

definition relay_stream_close :: "relay \<Rightarrow> relay" where
  "relay_stream_close r =
     r\<lparr>from_peer := (if phase (from_peer r) = Copied then from_peer r
                     else (from_peer r)\<lparr>dest := snd (flush (dest (from_peer r)))\<rparr>),
       from_tunnel := (from_tunnel r)\<lparr>dest := snd (flush (dest (from_tunnel r)))\<rparr>\<rparr>"

text \<open>The end of \<^verbatim>\<open>relay_stream\<close>, from the state the relay of both directions has reached; \<open>None\<close> while it
  still runs. The target is the peer of the relay and the stream its tunnel.\<close>

definition relay_stream_end ::
  "sink \<Rightarrow> sink \<Rightarrow> 'u option \<Rightarrow> relay \<Rightarrow> 'u audit \<Rightarrow> unit io_result option \<times> 'u audit \<times> relay" where
  "relay_stream_end target_writer stream_writer client_id r a =
     (case relay_result r of
        None \<Rightarrow> (None, a, r)
      | Some result \<Rightarrow>
          (Some (case result of
                   Inr _ \<Rightarrow> Inr ()
                 | Inl e \<Rightarrow> if relay_peer_disconnect e then Inr () else Inl (io_error_of e)),
           charge client_id (counted target_writer (dest (from_tunnel r)))
             (counted stream_writer (dest (from_peer r))) a,
           relay_stream_close r))"

section \<open>The relay of datagrams\<close>

text \<open>A loop over the results of \<^verbatim>\<open>stream.write\<close>; the second component is what was written. \<open>None\<close> means
  that the next result is still awaited.\<close>

fun write_stream_all :: "nat io_result list \<Rightarrow> byte list \<Rightarrow> unit io_result option \<times> byte list" where
  "write_stream_all rs [] = (Some (Inr ()), [])"
| "write_stream_all [] bs = (None, [])"
| "write_stream_all (Inl e # rs) bs = (Some (Inl e), [])"
| "write_stream_all (Inr n # rs) bs =
     (if n = 0 then (Some (Inl WriteZero), [])
      else let (r, out) = write_stream_all rs (drop n bs) in (r, take n bs @ out))"

record ('a, 'u) uot_relay =
  uot_mode :: uot_mode
  uot_client :: "'u option"
  uot_sent :: "('a option \<times> byte list) list"
  uot_written :: "byte list list"
  uot_audit :: "'u audit"

text \<open>The setup of \<^verbatim>\<open>relay_uot_datagrams\<close>: the request, the outcomes of binding the socket and of
  connecting it, which only the connected mode does, and the answer to the client. The reader is
  what the reader task goes on with.\<close>

definition uot_relay_setup ::
  "(reader \<Rightarrow> ('a \<times> reader) io_result) \<Rightarrow> unit io_result \<Rightarrow> ('a \<Rightarrow> unit io_result) \<Rightarrow> stream_handle \<Rightarrow> session option \<Rightarrow> reader
     \<Rightarrow> ('a uot_request \<times> reader \<times> op_result) io_result \<times> stream_handle \<times> session option" where
  "uot_relay_setup addr_read bound connect h s r =
     (case uot_get_request_from_stream addr_read r of
        Inl e \<Rightarrow> (Inl e, h, s)
      | Inr (request, r1) \<Rightarrow>
          (case (if is_ok bound \<and> mode request = Connected then connect (destination request) else bound) of
             Inl e \<Rightarrow> (Inl e, h, s)
           | Inr _ \<Rightarrow> (let (answer, h1, s1) = handshake_success h s in (Inr (request, r1, answer), h1, s1))))"

text \<open>A packet from the reader task: \<open>None\<close> when its channel is closed. \<open>sent\<close> is the outcome of the
  socket. The first component ends the loop.\<close>

definition uot_from_stream ::
  "('a option \<times> byte list) io_result option \<Rightarrow> unit io_result \<Rightarrow> ('a, 'u) uot_relay \<Rightarrow> unit io_result option \<times> ('a, 'u) uot_relay" where
  "uot_from_stream packet sent st =
     (case packet of
        None \<Rightarrow> (Some (Inl BrokenPipe), st)
      | Some (Inl e) \<Rightarrow> (Some (if Relay.is_peer_disconnect e then Inr () else Inl e), st)
      | Some (Inr (dst, payload)) \<Rightarrow>
          if uot_mode st = Datagram \<and> dst = None then (Some (Inl InvalidData), st)
          else case sent of
            Inl e \<Rightarrow> (Some (Inl e), st)
          | Inr _ \<Rightarrow>
              (None, st\<lparr>uot_sent := uot_sent st @ [(if uot_mode st = Datagram then dst else None, payload)],
                        uot_audit := (case uot_client st of
                            None \<Rightarrow> uot_audit st
                          | Some u \<Rightarrow> add_upstream u (of_nat (length payload)) (uot_audit st))\<rparr>))"

text \<open>A datagram from the socket: its source and payload, and the outcome of writing the frame.\<close>

definition uot_from_socket ::
  "('a \<Rightarrow> byte list) \<Rightarrow> ('a \<times> byte list) io_result \<Rightarrow> unit io_result \<Rightarrow> ('a, 'u) uot_relay \<Rightarrow> unit io_result option \<times> ('a, 'u) uot_relay" where
  "uot_from_socket addr_write packet frame_written st =
     (case packet of
        Inl e \<Rightarrow> (Some (Inl e), st)
      | Inr (src, payload) \<Rightarrow>
          (case uot_encode_packet addr_write (uot_mode st) (if uot_mode st = Datagram then Some src else None) payload of
             Inl e \<Rightarrow> (Some (Inl e), st)
           | Inr frame \<Rightarrow>
               (case frame_written of
                  Inl e \<Rightarrow> (Some (Inl e), st)
                | Inr _ \<Rightarrow>
                    (None, st\<lparr>uot_written := uot_written st @ [frame],
                              uot_audit := (case uot_client st of
                                  None \<Rightarrow> uot_audit st
                                | Some u \<Rightarrow> add_downstream u (of_nat (length payload)) (uot_audit st))\<rparr>))))"

text \<open>The reader task forwards every packet and stops after the first failure.\<close>

definition uot_reader_task ::
  "(reader \<Rightarrow> ('a \<times> reader) io_result) \<Rightarrow> uot_mode \<Rightarrow> nat \<Rightarrow> reader \<Rightarrow> ('a option \<times> byte list) io_result list" where
  "uot_reader_task addr_read m n r =
     (let (packets, e) = decode_upto (uot_get_packet_from_stream addr_read m) n r
      in map Inr packets @ (case e of None \<Rightarrow> [] | Some e \<Rightarrow> [Inl e]))"

fun uot_relay_packets ::
  "('a option \<times> byte list) io_result list \<Rightarrow> ('a, 'u) uot_relay \<Rightarrow> unit io_result option \<times> ('a, 'u) uot_relay" where
  "uot_relay_packets [] st = (None, st)"
| "uot_relay_packets (p # ps) st =
     (case uot_from_stream (Some p) (Inr ()) st of
        (None, st1) \<Rightarrow> uot_relay_packets ps st1
      | (Some r, st1) \<Rightarrow> (Some r, st1))"

section \<open>Lemmas\<close>

lemma counted_append: "wire k = wire before @ bs \<Longrightarrow> counted before k = of_nat (length bs)"
  by (simp add: counted_def)

lemma wire_flush [simp]: "wire (snd (flush k)) = wire k"
  by (simp add: flush_def split: list.splits option.splits)

lemma relay_stream_close_wire [simp]:
  "wire (dest (from_peer (relay_stream_close r))) = wire (dest (from_peer r))"
  "wire (dest (from_tunnel (relay_stream_close r))) = wire (dest (from_tunnel r))"
  by (simp_all add: relay_stream_close_def)

lemma charge_traffic:
  "map_of a u \<noteq> None \<Longrightarrow> traffic u (charge (Some u) up down a) =
     (saturating_add (fst (traffic u a)) up, saturating_add (snd (traffic u a)) down)"
  by (auto simp: charge_def traffic_def add_upstream_def add_downstream_def update_conv')

lemma write_stream_all_ok: "write_stream_all rs bs = (Some (Inr ()), out) \<Longrightarrow> out = bs"
  by (induction rs bs arbitrary: out rule: write_stream_all.induct) (auto split: if_splits prod.splits)

lemma uot_codec:
  assumes "codec (\<lambda>a. Inr (addr_write a)) addr_read"
  shows "codec (\<lambda>(dst, payload). uot_encode_packet addr_write m dst payload) (uot_get_packet_from_stream addr_read m)"
  using uot_datagram_codec [OF assms] uot_connected.codec_axioms by (cases m) simp_all

lemma encode_all_memD: "encode_all enc xs = Inr bs \<Longrightarrow> x \<in> set xs \<Longrightarrow> \<exists>b. enc x = Inr b"
  by (induction xs arbitrary: bs) (auto simp: io_bind_Inr_iff)

lemma uot_reader_task_encoded:
  assumes "codec (\<lambda>a. Inr (addr_write a)) addr_read"
    and "encode_all (\<lambda>(dst, payload). uot_encode_packet addr_write m dst payload) packets = Inr bs"
  shows "uot_reader_task addr_read m (length packets + n) (Reader (bs @ rest) f) =
     map Inr packets @ uot_reader_task addr_read m n (Reader rest f)"
  using codec.decode_upto_encode_all [OF uot_codec [OF assms(1)] assms(2), of n rest f]
  by (simp add: uot_reader_task_def split: prod.splits)

lemma uot_encoded_packet:
  "uot_encode_packet addr_write m dst payload = Inr b \<Longrightarrow> (dst = None) = (m = Connected)"
  "uot_encode_packet addr_write m dst payload = Inr b \<Longrightarrow> length payload \<le> 65535"
  by (cases m) (auto simp: uot_encode_packet_def split: if_splits option.splits)

text \<open>The audit after a sequence of payloads was sent.\<close>

definition charge_payloads :: "'u option \<Rightarrow> byte list list \<Rightarrow> 'u audit \<Rightarrow> 'u audit" where
  "charge_payloads client_id payloads a =
     fold (\<lambda>p a. case client_id of None \<Rightarrow> a | Some u \<Rightarrow> add_upstream u (of_nat (length p)) a) payloads a"

lemma uot_relay_packets_encoded:
  assumes "\<And>dst payload. (dst, payload) \<in> set packets \<Longrightarrow> (dst = None) = (uot_mode st = Connected)"
  shows "uot_relay_packets (map Inr packets @ ps) st =
     uot_relay_packets ps (st\<lparr>uot_sent := uot_sent st @ packets,
       uot_audit := charge_payloads (uot_client st) (map snd packets) (uot_audit st)\<rparr>)"
  using assms
proof (induction packets arbitrary: st)
  case Nil
  then show ?case by (simp add: charge_payloads_def)
next
  case (Cons p packets)
  obtain dst payload where p: "p = (dst, payload)" by (cases p)
  let ?st = "st\<lparr>uot_sent := uot_sent st @ [p], uot_audit := charge_payloads (uot_client st) [payload] (uot_audit st)\<rparr>"
  have "(dst = None) = (uot_mode st = Connected)" using Cons.prems p by auto
  then have "uot_from_stream (Some (Inr p)) (Inr ()) st = (None, ?st)"
    using p by (cases "uot_mode st") (auto simp: uot_from_stream_def charge_payloads_def split: option.splits)
  moreover have "uot_relay_packets (map Inr packets @ ps) ?st =
      uot_relay_packets ps (?st\<lparr>uot_sent := uot_sent ?st @ packets,
        uot_audit := charge_payloads (uot_client ?st) (map snd packets) (uot_audit ?st)\<rparr>)"
    using Cons.prems by (intro Cons.IH) auto
  ultimately show ?case using p by (simp add: charge_payloads_def)
qed

lemma charge_payloads_traffic:
  assumes "map_of a u \<noteq> None" and "\<And>p. p \<in> set ps \<Longrightarrow> length p \<le> 65535"
  shows "unat (fst (traffic u (charge_payloads (Some u) ps a))) =
     min (unat (fst (traffic u a)) + sum_list (map length ps)) (2 ^ 64 - 1)"
  using assms
proof (induction ps arbitrary: a)
  case Nil
  have "unat (fst (traffic u a)) < 2 ^ LENGTH(64)" by (rule unsigned_less)
  then show ?case by (simp add: charge_payloads_def)
next
  case (Cons p ps)
  let ?a = "add_upstream u (of_nat (length p)) a"
  have t: "traffic u ?a = (saturating_add (fst (traffic u a)) (of_nat (length p)), snd (traffic u a))"
    "map_of ?a u \<noteq> None"
    using Cons.prems by (auto simp: traffic_def add_upstream_def update_conv')
  have "charge_payloads (Some u) (p # ps) a = charge_payloads (Some u) ps ?a" by (simp add: charge_payloads_def)
  moreover have "unat (of_nat (length p) :: u64) = length p"
    using Cons.prems(2) [of p] by (simp add: unat_of_nat take_bit_nat_eq_self)
  ultimately show ?case using Cons.IH [OF t(2)] Cons.prems(2) t(1) by (simp add: unat_saturating_add)
qed

section \<open>Properties\<close>


text \<open>Datagrams that a client encodes into its stream reach the socket of the server one by one, with
  their boundaries, destinations and order, and are charged by their payload bytes alone.\<close>

theorem uot_relay_delivers:
  assumes "codec (\<lambda>a. Inr (addr_write a)) addr_read"
    and "encode_all (\<lambda>(dst, payload). uot_encode_packet addr_write m dst payload) packets = Inr bs"
    and "uot_mode st = m" and "uot_client st = Some u" and "map_of (uot_audit st) u \<noteq> None"
    and "uot_relay_packets (uot_reader_task addr_read m (length packets) (Reader (bs @ rest) f)) st = (r, st')"
  shows "r = None \<and> uot_sent st' = uot_sent st @ packets \<and>
     unat (fst (traffic u (uot_audit st'))) =
       min (unat (fst (traffic u (uot_audit st))) + sum_list (map (length \<circ> snd) packets)) (2 ^ 64 - 1)"
proof -
  have dst: "(dst = None) = (uot_mode st = Connected)" if "(dst, payload) \<in> set packets" for dst payload
    using encode_all_memD [OF assms(2) that] uot_encoded_packet(1) assms(3) by fastforce
  have "uot_reader_task addr_read m (length packets) (Reader (bs @ rest) f) = map Inr packets @ []"
    using uot_reader_task_encoded [OF assms(1,2), of 0 rest f] by (simp add: uot_reader_task_def)
  then have "(r, st') = (None, st\<lparr>uot_sent := uot_sent st @ packets,
       uot_audit := charge_payloads (Some u) (map snd packets) (uot_audit st)\<rparr>)"
    using uot_relay_packets_encoded [of packets st "[]"] dst assms(4,6) by (metis uot_relay_packets.simps(1))
  moreover have "length payload \<le> 65535" if "payload \<in> set (map snd packets)" for payload
  proof -
    from that obtain dst where "(dst, payload) \<in> set packets" by auto
    from encode_all_memD [OF assms(2) this] show ?thesis using uot_encoded_packet(2) by auto
  qed
  ultimately show ?thesis using charge_payloads_traffic [OF assms(5), of "map snd packets"] by simp
qed

section \<open>Witnesses\<close>


theorem uot_relay_delivers_witness:
  "uot_sent (snd (uot_relay_packets (uot_reader_task sample_addr_read Datagram 2
       (Reader ([8, 8, 8, 8, 0, 2, 65, 66, 1, 1, 1, 1, 0, 0] @ [99]) None))
     \<lparr>uot_mode = Datagram, uot_client = Some (5 :: nat), uot_sent = [], uot_written = [],
      uot_audit = [(5, \<lparr>enabled = True, upstream = 1, downstream = 0\<rparr>)]\<rparr>)) =
   [(Some 0x08080808, [65, 66]), (Some 0x01010101, [])]"
proof -
  let ?st = "\<lparr>uot_mode = Datagram, uot_client = Some (5 :: nat), uot_sent = [], uot_written = [],
      uot_audit = [(5, \<lparr>enabled = True, upstream = 1, downstream = 0\<rparr>)]\<rparr>"
  let ?run = "uot_relay_packets (uot_reader_task sample_addr_read Datagram 2
       (Reader ([8, 8, 8, 8, 0, 2, 65, 66, 1, 1, 1, 1, 0, 0] @ [99]) None)) ?st"
  have "encode_all (\<lambda>(dst, payload). uot_encode_packet sample_addr_write Datagram dst payload)
      [(Some 0x08080808, [65, 66]), (Some 0x01010101, [])] = Inr [8, 8, 8, 8, 0, 2, 65, 66, 1, 1, 1, 1, 0, 0]"
    by (simp add: uot_encode_packet_def sample_addr_write_def to_be_bytes32_def to_be_bytes16_def drop_bit_eq_div)
  from uot_relay_delivers [OF sample_addr_codec this, of ?st 5 "[99]" None "fst ?run" "snd ?run"]
  show ?thesis by (simp add: numeral_2_eq_2)
qed

end
