(* ===== verification/Stream_Io.thy ===== *)
theory Stream_Io
  imports Prelude
begin

text \<open>
  The poll adapter of a stream (\<^verbatim>\<open>src/runtime/stream_io.rs\<close>). A future that is installed in the adapter
  is represented by what it captured: the capacity of the buffer it reads into, the bytes it
  writes. What polling such a future yields is an argument, a function of what it captured;
  \<open>Panicked\<close> is the panic of \<^verbatim>\<open>ReadBuf::put_slice\<close>.
\<close>

datatype 'a poll = Pending | Ready 'a | Panicked

record stream_io =
  read_future :: "nat option"
  write_future :: "byte list option"
  shutdown_future :: bool
  shutdown_complete :: bool

definition stream_io_new :: stream_io where
  "stream_io_new = \<lparr>read_future = None, write_future = None, shutdown_future = False, shutdown_complete = False\<rparr>"

definition poll_read :: "(nat \<Rightarrow> byte list io_result poll) \<Rightarrow> nat \<Rightarrow> stream_io \<Rightarrow> byte list io_result poll \<times> stream_io" where
  "poll_read future remaining io =
     (let capacity = (case read_future io of None \<Rightarrow> remaining | Some c \<Rightarrow> c)
      in case future capacity of
           Pending \<Rightarrow> (Pending, io\<lparr>read_future := Some capacity\<rparr>)
         | Ready (Inr bs) \<Rightarrow>
             (if length bs \<le> remaining then Ready (Inr bs) else Panicked, io\<lparr>read_future := None\<rparr>)
         | Ready (Inl e) \<Rightarrow> (Ready (Inl e), io\<lparr>read_future := None\<rparr>)
         | Panicked \<Rightarrow> (Panicked, io\<lparr>read_future := Some capacity\<rparr>))"

definition poll_write :: "(byte list \<Rightarrow> nat io_result poll) \<Rightarrow> byte list \<Rightarrow> stream_io \<Rightarrow> nat io_result poll \<times> stream_io" where
  "poll_write future bs io =
     (let captured = (case write_future io of None \<Rightarrow> bs | Some b \<Rightarrow> b)
      in case future captured of
           Ready r \<Rightarrow> (Ready r, io\<lparr>write_future := None\<rparr>)
         | other \<Rightarrow> (other, io\<lparr>write_future := Some captured\<rparr>))"

definition poll_flush :: "stream_io \<Rightarrow> unit io_result poll" where
  "poll_flush io = Ready (Inr ())"

definition poll_shutdown :: "unit io_result poll \<Rightarrow> stream_io \<Rightarrow> unit io_result poll \<times> stream_io" where
  "poll_shutdown future io =
     (if shutdown_complete io then (Ready (Inr ()), io)
      else case future of
        Ready r \<Rightarrow> (Ready r, io\<lparr>shutdown_future := False, shutdown_complete := is_ok r\<rparr>)
      | other \<Rightarrow> (other, io\<lparr>shutdown_future := True\<rparr>))"

section \<open>Sequences of polls\<close>

fun poll_reads ::
  "(nat \<times> (nat \<Rightarrow> byte list io_result poll)) list \<Rightarrow> stream_io \<Rightarrow> byte list io_result poll list" where
  "poll_reads [] io = []"
| "poll_reads ((n, f) # ps) io = (let (r, io1) = poll_read f n io in r # poll_reads ps io1)"

fun poll_writes ::
  "(byte list \<times> (byte list \<Rightarrow> nat io_result poll)) list \<Rightarrow> stream_io \<Rightarrow> nat io_result poll list" where
  "poll_writes [] io = []"
| "poll_writes ((bs, f) # ps) io = (let (r, io1) = poll_write f bs io in r # poll_writes ps io1)"

text \<open>A patient caller repeats a pending poll with the same argument.\<close>

fun patient :: "'a option \<Rightarrow> ('a \<times> ('a \<Rightarrow> 'b poll)) list \<Rightarrow> bool" where
  "patient held [] = True"
| "patient held ((x, f) # ps) =
     ((held = None \<or> held = Some x) \<and> patient (if f x = Pending then Some x else None) ps)"

text \<open>A read future fills at most the buffer it was created for, and does not panic.\<close>

definition reads_fit :: "(nat \<times> (nat \<Rightarrow> byte list io_result poll)) list \<Rightarrow> bool" where
  "reads_fit ps \<longleftrightarrow> (\<forall>(n, f)\<in>set ps. f n \<noteq> Panicked \<and> (\<forall>bs. f n = Ready (Inr bs) \<longrightarrow> length bs \<le> n))"

lemma poll_reads_patient:
  "patient (read_future io) ps \<Longrightarrow> reads_fit ps \<Longrightarrow> poll_reads ps io = map (\<lambda>(n, f). f n) ps"
proof (induction ps arbitrary: io)
  case (Cons p ps)
  obtain n f where p: "p = (n, f)" by (cases p)
  have cap: "(case read_future io of None \<Rightarrow> n | Some c \<Rightarrow> c) = n"
    using Cons.prems(1) p by (auto split: option.splits)
  have fit: "f n \<noteq> Panicked" "\<And>bs. f n = Ready (Inr bs) \<Longrightarrow> length bs \<le> n" "reads_fit ps"
    using Cons.prems(2) p by (auto simp: reads_fit_def)
  have "fst (poll_read f n io) = f n \<and> read_future (snd (poll_read f n io)) = (if f n = Pending then Some n else None)"
    using fit(1,2) cap by (auto simp: poll_read_def Let_def split: poll.splits sum.splits)
  then show ?case using Cons.IH [of "snd (poll_read f n io)"] Cons.prems(1) fit(3) p
    by (simp add: case_prod_beta Let_def)
qed simp

lemma poll_writes_patient:
  "patient (write_future io) ps \<Longrightarrow> (\<forall>(bs, f)\<in>set ps. f bs \<noteq> Panicked) \<Longrightarrow> poll_writes ps io = map (\<lambda>(bs, f). f bs) ps"
proof (induction ps arbitrary: io)
  case (Cons p ps)
  obtain bs f where p: "p = (bs, f)" by (cases p)
  have cap: "(case write_future io of None \<Rightarrow> bs | Some b \<Rightarrow> b) = bs"
    using Cons.prems(1) p by (auto split: option.splits)
  have "fst (poll_write f bs io) = f bs \<and> write_future (snd (poll_write f bs io)) = (if f bs = Pending then Some bs else None)"
    using Cons.prems(2) p cap by (auto simp: poll_write_def Let_def split: poll.splits)
  then show ?case using Cons.IH [of "snd (poll_write f bs io)"] Cons.prems p
    by (simp add: case_prod_beta Let_def)
qed simp


text \<open>A caller that gives up a pending read and polls again with a smaller buffer crashes the adapter
  when more bytes arrive than fit, and one that polls a pending write again with other data is told
  that data was written although the earlier data was.\<close>

theorem stream_io_impatient:
  assumes "f n = Pending" and "g n = Ready (Inr bs)" and "m < length bs"
    and "w xs = Pending" and "v xs = Ready (Inr k)"
  shows "poll_reads [(n, f), (m, g)] stream_io_new = [Pending, Panicked] \<and>
     poll_writes [(xs, w), (ys, v)] stream_io_new = [Pending, Ready (Inr k)]"
  using assms by (simp add: poll_read_def poll_write_def stream_io_new_def)


theorem stream_io_impatient_witness:
  "poll_reads [(3, \<lambda>_. Pending), (1, \<lambda>_. Ready (Inr [7, 8]))] stream_io_new = [Pending, Panicked] \<and>
   poll_writes [([1, 2], \<lambda>_. Pending), ([3], \<lambda>bs. Ready (Inr (length bs)))] stream_io_new = [Pending, Ready (Inr 2)]"
  using stream_io_impatient [of "\<lambda>_. Pending" 3 "\<lambda>_. Ready (Inr [7, 8])" "[7, 8]" 1
      "\<lambda>_. Pending" "[1, 2]" "\<lambda>bs. Ready (Inr (length bs))" 2 "[3]"] by simp

end
