(* ===== verification/Traffic_Status.thy ===== *)
theory Traffic_Status
  imports Traffic_Audit
begin

text \<open>
  The traffic report of an embedding application (\<^verbatim>\<open>src/traffic_status.rs\<close>): counters of the bytes
  relayed while a callback is registered, and the rate at which the callback is called. The three
  statics of the module are the fields of one record; instants are in milliseconds.
\<close>

section \<open>Counters and reports\<close>

record traffic_status =
  tx :: u64
  rx :: u64

record traffic_tracker =
  status :: traffic_status
  last_reported :: nat

text \<open>\<^verbatim>\<open>as_secs\<close> drops the fraction, and \<^verbatim>\<open>duration_since\<close> is zero when the clock was read out of order.\<close>

definition update_tracker :: "u64 \<Rightarrow> u64 \<Rightarrow> u32 \<Rightarrow> nat \<Rightarrow> traffic_tracker \<Rightarrow> traffic_status option \<times> traffic_tracker" where
  "update_tracker sent received interval_secs now t =
     (let st = (status t)\<lparr>tx := saturating_add (tx (status t)) sent, rx := saturating_add (rx (status t)) received\<rparr>
      in if unat interval_secs \<le> (now - last_reported t) div 1000
         then (Some st, t\<lparr>status := st, last_reported := now\<rparr>)
         else (None, t\<lparr>status := st\<rparr>))"

record 'cb traffic_globals =
  registered :: "'cb option"
  send_interval_secs :: u32
  tracker :: traffic_tracker

definition globals_new :: "nat \<Rightarrow> 'cb traffic_globals" where
  "globals_new now =
     \<lparr>registered = None, send_interval_secs = 1,
      tracker = \<lparr>status = \<lparr>tx = 0, rx = 0\<rparr>, last_reported = now\<rparr>\<rparr>"

definition set_callback :: "u32 \<Rightarrow> 'cb option \<Rightarrow> nat \<Rightarrow> 'cb traffic_globals \<Rightarrow> 'cb traffic_globals" where
  "set_callback interval callback now g =
     (let g1 = (if interval > 0 then g\<lparr>send_interval_secs := interval\<rparr> else g);
          g2 = g1\<lparr>registered := callback\<rparr>
      in if callback \<noteq> None then g2\<lparr>tracker := (tracker g2)\<lparr>last_reported := now\<rparr>\<rparr> else g2)"

text \<open>The first component is the call of the callback, if there is one.\<close>

definition record_traffic :: "u64 \<Rightarrow> u64 \<Rightarrow> nat \<Rightarrow> 'cb traffic_globals \<Rightarrow> ('cb \<times> traffic_status) option \<times> 'cb traffic_globals" where
  "record_traffic sent received now g =
     (if sent = 0 \<and> received = 0 then (None, g)
      else case registered g of
        None \<Rightarrow> (None, g)
      | Some cb \<Rightarrow>
          (let (report, t) = update_tracker sent received (send_interval_secs g) now (tracker g)
           in (map_option (Pair cb) report, g\<lparr>tracker := t\<rparr>)))"

section \<open>A run of the relay\<close>

fun record_all :: "(u64 \<times> u64 \<times> nat) list \<Rightarrow> 'cb traffic_globals \<Rightarrow> ('cb \<times> traffic_status) option list" where
  "record_all [] g = []"
| "record_all ((sent, received, now) # es) g =
     (let (call, g1) = record_traffic sent received now g in call # record_all es g1)"

lemma length_record_all [simp]: "length (record_all es g) = length es"
  by (induction es arbitrary: g) (auto split: prod.splits)

definition sat :: "nat \<Rightarrow> nat" where
  "sat n = min n (2 ^ 64 - 1)"

lemma sat_saturating_add: "sat (unat (saturating_add a b) + n) = sat (unat a + unat b + n)"
  by (simp add: unat_saturating_add sat_def)

lemma sat_unat [simp]: "sat (unat (a :: u64)) = unat a"
  using unsigned_less [of a, where ?'a = nat] by (simp add: sat_def)

lemma record_traffic_effect:
  assumes "registered g = Some cb" and "record_traffic sent received now g = (call, g1)"
  shows "registered g1 = Some cb" and "send_interval_secs g1 = send_interval_secs g"
    and "tx (status (tracker g1)) = saturating_add (tx (status (tracker g))) sent"
    and "rx (status (tracker g1)) = saturating_add (rx (status (tracker g))) received"
    and "last_reported (tracker g1) = (if call = None then last_reported (tracker g) else now)"
    and "call = Some (c, st) \<Longrightarrow> c = cb \<and> st = status (tracker g1) \<and>
          unat (send_interval_secs g) * 1000 \<le> now - last_reported (tracker g)"
proof -
  have "saturating_add a 0 = a" for a :: u64 by (simp add: saturating_add_def)
  then show "registered g1 = Some cb" "send_interval_secs g1 = send_interval_secs g"
    "tx (status (tracker g1)) = saturating_add (tx (status (tracker g))) sent"
    "rx (status (tracker g1)) = saturating_add (rx (status (tracker g))) received"
    "last_reported (tracker g1) = (if call = None then last_reported (tracker g) else now)"
    using assms by (auto simp: record_traffic_def update_tracker_def Let_def split: if_splits)
  show "c = cb \<and> st = status (tracker g1) \<and> unat (send_interval_secs g) * 1000 \<le> now - last_reported (tracker g)"
    if "call = Some (c, st)"
    using that assms by (auto simp: record_traffic_def update_tracker_def Let_def less_eq_div_iff_mult_less_eq split: if_splits)
qed

lemma record_all_totals:
  assumes "registered g = Some cb" and "i < length es" and "record_all es g ! i = Some (c, st)"
  shows "c = cb \<and>
     unat (tx st) = sat (unat (tx (status (tracker g))) + (\<Sum>(s, r, t)\<leftarrow>take (Suc i) es. unat s)) \<and>
     unat (rx st) = sat (unat (rx (status (tracker g))) + (\<Sum>(s, r, t)\<leftarrow>take (Suc i) es. unat r))"
  using assms
proof (induction es arbitrary: g i)
  case (Cons e es)
  obtain sent received now where e: "e = (sent, received, now)" by (cases e)
  obtain call g1 where s: "record_traffic sent received now g = (call, g1)" by force
  note eff = record_traffic_effect [OF Cons.prems(1) s]
  show ?case
  proof (cases i)
    case 0
    then have "call = Some (c, st)" using Cons.prems(3) e s by simp
    from eff(6) [OF this] 0 e eff(3,4) show ?thesis by (simp add: unat_saturating_add sat_def)
  next
    case (Suc j)
    then have "j < length es" "record_all es g1 ! j = Some (c, st)" using Cons.prems(2,3) e s by simp_all
    from Cons.IH [OF eff(1) this] Suc e show ?thesis
      by (simp add: eff(3,4) sat_saturating_add add.assoc)
  qed
qed simp

lemma record_all_wait:
  assumes "registered g = Some cb" and "0 < send_interval_secs g" and "i < length es" and "record_all es g ! i \<noteq> None"
  shows "last_reported (tracker g) + unat (send_interval_secs g) * 1000 \<le> snd (snd (es ! i))"
  using assms
proof (induction es arbitrary: g i)
  case (Cons e es)
  obtain sent received now where e: "e = (sent, received, now)" by (cases e)
  obtain call g1 where s: "record_traffic sent received now g = (call, g1)" by force
  note eff = record_traffic_effect [OF Cons.prems(1) s]
  have "0 < unat (send_interval_secs g)" using Cons.prems(2) by (simp add: unat_gt_0 word_neq_0_conv)
  then have called: "last_reported (tracker g) + unat (send_interval_secs g) * 1000 \<le> now" if "call \<noteq> None"
    using that eff(6) by fastforce
  show ?case
  proof (cases i)
    case 0
    then show ?thesis using called Cons.prems(4) e s by simp
  next
    case (Suc j)
    then have "j < length es" "record_all es g1 ! j \<noteq> None" using Cons.prems(3,4) e s by simp_all
    from Cons.IH [OF eff(1) _ this] Cons.prems(2) Suc show ?thesis
      using called by (fastforce simp: eff(2,5) split: if_splits)
  qed
qed simp

lemma record_all_spaced:
  assumes "registered g = Some cb" and "0 < send_interval_secs g" and "i < j" and "j < length es"
    and "record_all es g ! i \<noteq> None" and "record_all es g ! j \<noteq> None"
  shows "snd (snd (es ! i)) + unat (send_interval_secs g) * 1000 \<le> snd (snd (es ! j))"
  using assms
proof (induction es arbitrary: g i j)
  case (Cons e es)
  obtain sent received now where e: "e = (sent, received, now)" by (cases e)
  obtain call g1 where s: "record_traffic sent received now g = (call, g1)" by force
  note eff = record_traffic_effect [OF Cons.prems(1) s]
  obtain k where k: "j = Suc k" using Cons.prems(3) by (cases j) auto
  then have j: "k < length es" "record_all es g1 ! k \<noteq> None" using Cons.prems(4,6) e s by simp_all
  have iv: "0 < send_interval_secs g1" using Cons.prems(2) eff(2) by simp
  show ?case
  proof (cases i)
    case 0
    then have "last_reported (tracker g1) = now" using Cons.prems(5) e s eff(5) by auto
    then show ?thesis using record_all_wait [OF eff(1) iv j] 0 e k eff(2) by simp
  next
    case (Suc m)
    then show ?thesis using Cons.IH [OF eff(1) iv, of m k] Cons.prems(3,5) j k e s eff(2) by simp
  qed
qed simp

section \<open>Properties\<close>

text \<open>Once a callback is registered it is called with the running totals: each call carries the number of
  all bytes relayed since, in both directions and saturating at the width of the counter, added to
  what was counted before; and two calls are at least the registered interval apart.\<close>

theorem reports_are_running_totals:
  assumes "g = set_callback interval (Some cb) now g0" and "0 < send_interval_secs g0"
    and "i < length es" and "record_all es g ! i = Some (c, st)"
  shows "c = cb \<and>
     unat (tx st) = sat (unat (tx (status (tracker g0))) + (\<Sum>(s, r, t)\<leftarrow>take (Suc i) es. unat s)) \<and>
     unat (rx st) = sat (unat (rx (status (tracker g0))) + (\<Sum>(s, r, t)\<leftarrow>take (Suc i) es. unat r)) \<and>
     now + unat (send_interval_secs g) * 1000 \<le> snd (snd (es ! i)) \<and>
     (\<forall>j. j < i \<and> record_all es g ! j \<noteq> None \<longrightarrow>
        snd (snd (es ! j)) + unat (send_interval_secs g) * 1000 \<le> snd (snd (es ! i)))"
proof -
  have g: "registered g = Some cb" "0 < send_interval_secs g" "last_reported (tracker g) = now"
    "status (tracker g) = status (tracker g0)"
    using assms(1,2) by (auto simp: set_callback_def Let_def)
  show ?thesis
    using record_all_totals [OF g(1) assms(3,4)] record_all_wait [OF g(1,2) assms(3)]
      record_all_spaced [OF g(1,2) _ assms(3)] assms(4) by (simp add: g(3,4))
qed

theorem reports_are_running_totals_witness:
  "record_all [(10, 3, 1999), (4, 8, 2000), (0, 0, 3000), (0, 7, 3999), (1, 0, 4500)] (set_callback 2 (Some ()) 0 (globals_new 0)) =
     [None, Some ((), \<lparr>tx = 14, rx = 11\<rparr>), None, None, Some ((), \<lparr>tx = 15, rx = 18\<rparr>)] \<and>
   unat (tx \<lparr>tx = 15, rx = 18\<rparr>) = sat (0 + (10 + 4 + 0 + 0 + 1)) \<and> (2000 :: nat) + 2 * 1000 \<le> 4500"
proof -
  let ?es = "[(10, 3, 1999), (4, 8, 2000), (0, 0, 3000), (0, 7, 3999), (1, 0, 4500)] :: (u64 \<times> u64 \<times> nat) list"
  let ?g = "set_callback 2 (Some ()) 0 (globals_new 0)"
  have run: "record_all ?es ?g =
     [None, Some ((), \<lparr>tx = 14, rx = 11\<rparr>), None, None, Some ((), \<lparr>tx = 15, rx = 18\<rparr>)]"
    by (simp add: set_callback_def globals_new_def record_traffic_def update_tracker_def saturating_add_def Let_def)
  then have "record_all ?es ?g ! 4 = Some ((), \<lparr>tx = 15, rx = 18\<rparr>)" "record_all ?es ?g ! 1 \<noteq> None" by simp_all
  moreover have "0 < send_interval_secs (globals_new 0 :: unit traffic_globals)" "4 < length ?es"
    "send_interval_secs ?g = 2" "tx (status (tracker (globals_new 0 :: unit traffic_globals))) = 0"
    by (simp_all add: globals_new_def set_callback_def)
  ultimately have t: "unat (tx \<lparr>tx = 15, rx = 18\<rparr>) = sat (unat (0 :: u64) + (\<Sum>(s, r, t)\<leftarrow>take (Suc 4) ?es. unat s))"
    and "snd (snd (?es ! 1)) + unat (2 :: u32) * 1000 \<le> snd (snd (?es ! 4))"
    using reports_are_running_totals [OF refl, of "globals_new 0" 4 ?es 2 "()" 0 "()" "\<lparr>tx = 15, rx = 18\<rparr>"]
    by (metis, metis one_less_numeral_iff semiring_norm(76))
  then show ?thesis using run by simp
qed

end
