(* ===== verification/Client_Proxy.thy ===== *)
theory Client_Proxy
  imports Client_Listener Server_Relay Stream_Io Traffic_Status Client_Pool
begin

text \<open>
  The client's side of a proxied connection (\<^verbatim>\<open>src/client_app.rs\<close>): dialling the server, the SOCKS5 and
  HTTP connections, the relay of a UDP association, and the accept loop. The SOCKS5 crate, name
  resolution, TLS and sockets appear by their outcomes; the address codec is the parameter of \<open>Uot\<close>.
\<close>

section \<open>Dialling\<close>

text \<open>\<open>server_name\<close> is the conversion of a text to a TLS server name. The generator's state is
  returned with the transport, on which the authentication has been written.\<close>

definition dial ::
  "(byte list \<Rightarrow> byte list) \<Rightarrow> ('u \<Rightarrow> string) \<Rightarrow> 'g rng \<Rightarrow> unit io_result \<Rightarrow> unit io_result \<Rightarrow> (string \<Rightarrow> 'n option)
     \<Rightarrow> ('n \<Rightarrow> sink io_result) \<Rightarrow> string \<Rightarrow> string option \<Rightarrow> string \<Rightarrow> padding_factory \<Rightarrow> 'u option \<Rightarrow> 'g \<Rightarrow> (sink \<times> 'g) io_result" where
  "dial sha256 uuid_text rng resolved connected server_name tls_connect server_host sni_opt pw pf cid g =
     io_bind resolved (\<lambda>_. io_bind connected (\<lambda>_.
       case server_name (case sni_opt of Some s \<Rightarrow> s | None \<Rightarrow> server_host) of
         None \<Rightarrow> Inl OtherError
       | Some name \<Rightarrow>
           io_bind (tls_connect name) (\<lambda>k.
             case write_auth_with_client_id sha256 uuid_text rng pw pf cid g k of
               (Inl e, _, _) \<Rightarrow> Inl e
             | (Inr _, k1, g1) \<Rightarrow> Inr (k1, g1))))"

section \<open>Counting local traffic\<close>

datatype traffic_direction = Tx | Rx

definition counter_poll_write ::
  "traffic_direction \<Rightarrow> nat io_result poll \<Rightarrow> nat \<Rightarrow> 'cb traffic_globals
     \<Rightarrow> nat io_result poll \<times> ('cb \<times> traffic_status) option \<times> 'cb traffic_globals" where
  "counter_poll_write direction result now g =
     (case result of
        Ready (Inr n) \<Rightarrow>
          (result, case direction of Tx \<Rightarrow> record_traffic (of_nat n) 0 now g | Rx \<Rightarrow> record_traffic 0 (of_nat n) now g)
      | _ \<Rightarrow> (result, None, g))"

text \<open>The adapter for the HTTP service keeps its stream behind a lock, which is poisoned when a holder of
  it has panicked.\<close>

definition http_poll_read ::
  "bool \<Rightarrow> byte list io_result poll \<Rightarrow> nat \<Rightarrow> 'cb traffic_globals
     \<Rightarrow> byte list io_result poll \<times> ('cb \<times> traffic_status) option \<times> 'cb traffic_globals" where
  "http_poll_read poisoned result now g =
     (if poisoned then (Ready (Inl OtherError), None, g)
      else case result of
        Ready (Inr bs) \<Rightarrow> (result, record_traffic 0 (of_nat (length bs)) now g)
      | _ \<Rightarrow> (result, None, g))"

definition http_poll_write ::
  "bool \<Rightarrow> nat io_result poll \<Rightarrow> nat \<Rightarrow> 'cb traffic_globals
     \<Rightarrow> nat io_result poll \<times> ('cb \<times> traffic_status) option \<times> 'cb traffic_globals" where
  "http_poll_write poisoned result now g =
     (if poisoned then (Ready (Inl OtherError), None, g)
      else case result of
        Ready (Inr n) \<Rightarrow> (result, record_traffic (of_nat n) 0 now g)
      | _ \<Rightarrow> (result, None, g))"

section \<open>Connections to a target\<close>

text \<open>A new stream begins with the address of the target. \<open>created\<close> is the outcome of \<^verbatim>\<open>create_stream\<close>.\<close>

definition http_connector :: "('a \<Rightarrow> byte list) \<Rightarrow> 'a \<Rightarrow> sink io_result \<Rightarrow> sink io_result" where
  "http_connector addr_write target created =
     io_bind created (\<lambda>k. case write_all (addr_write target) k of (Inl e, _) \<Rightarrow> Inl e | (Inr _, k1) \<Rightarrow> Inr k1)"

datatype 'a client_connection = Connect_Request 'a | Bind_Request 'a | Udp_Associate_Request 'a

definition SOCKS_HANDSHAKE_TIMEOUT :: nat where "SOCKS_HANDSHAKE_TIMEOUT = 10000"

text \<open>The handshake's outcome, \<open>None\<close> when the timeout elapsed: the two fallible steps of the SOCKS5 crate,
  whose errors are wrapped.\<close>

definition negotiate_socks5_request ::
  "('e1 + ('e2 + 'a client_connection)) option \<Rightarrow> 'a client_connection io_result" where
  "negotiate_socks5_request outcome =
     (case outcome of
        None \<Rightarrow> Inl TimedOut
      | Some (Inl _) \<Rightarrow> Inl OtherError
      | Some (Inr (Inl _)) \<Rightarrow> Inl OtherError
      | Some (Inr (Inr request)) \<Rightarrow> Inr request)"

text \<open>What a request becomes: a result, a UDP association, or a relay whose tunnel has been told its
  target. \<open>reply\<close> is the outcome of the answer to the local client.\<close>

datatype 'a socks_outcome = Socks_Returned "unit io_result" | Socks_Udp | Socks_Relay 'a sink

definition handle_socks5 ::
  "('a \<Rightarrow> byte list) \<Rightarrow> 'a client_connection io_result \<Rightarrow> sink io_result \<Rightarrow> unit io_result \<Rightarrow> 'a socks_outcome" where
  "handle_socks5 addr_write request created reply =
     (case request of
        Inl e \<Rightarrow> Socks_Returned (Inl e)
      | Inr (Bind_Request _) \<Rightarrow> Socks_Returned (Inl OtherError)
      | Inr (Udp_Associate_Request _) \<Rightarrow> Socks_Udp
      | Inr (Connect_Request target) \<Rightarrow>
          (case http_connector addr_write target created of
             Inl e \<Rightarrow> Socks_Returned (Inl e)
           | Inr k \<Rightarrow>
               (case reply of
                  Inr _ \<Rightarrow> Socks_Relay target k
                | Inl e \<Rightarrow> Socks_Returned (if Relay.is_peer_disconnect e then Inr () else Inl e))))"

text \<open>The end of the relay: the local client is its peer. After a success both sides are shut down, the
  stream's second time without effect.\<close>

definition handle_socks5_end :: "relay \<Rightarrow> unit io_result option" where
  "handle_socks5_end r =
     (case relay_result r of
        None \<Rightarrow> None
      | Some (Inr _) \<Rightarrow> Some (fst (flush (dest (from_tunnel r))))
      | Some (Inl e) \<Rightarrow> Some (if relay_peer_disconnect e then Inr () else Inl (io_error_of e)))"

section \<open>UDP associations\<close>

text \<open>Refusing an association: the failure reply and its shutdown may fail themselves.\<close>

definition refuse_associate :: "unit io_result \<Rightarrow> unit io_result \<Rightarrow> io_error \<Rightarrow> 'x io_result" where
  "refuse_associate reply shut_reply e =
     (case reply of Inl e1 \<Rightarrow> Inl e1 | Inr _ \<Rightarrow> (case shut_reply of Inl e2 \<Rightarrow> Inl e2 | Inr _ \<Rightarrow> Inl e))"

text \<open>The setup: \<open>bound\<close> and \<open>created\<close> are the outcomes of the local socket and of the stream, \<open>ws1\<close> and
  \<open>ws2\<close> the results of the writes of the sentinel address and of the request. The result comes
  with the bytes written to the stream and with whether a FIN was asked for; \<open>None\<close> while a write
  is pending.\<close>

definition udp_associate_setup ::
  "('a \<Rightarrow> byte list) \<Rightarrow> (string \<Rightarrow> u16 \<Rightarrow> 'a) \<Rightarrow> 'a \<Rightarrow> unit io_result \<Rightarrow> unit io_result \<Rightarrow> nat io_result list \<Rightarrow> nat io_result list
     \<Rightarrow> unit io_result \<Rightarrow> unit io_result \<Rightarrow> unit io_result option \<times> byte list \<times> bool" where
  "udp_associate_setup addr_write domain_address unspecified_v4 bound created ws1 ws2 reply shut_reply =
     (case io_bind bound (\<lambda>_. created) of
        Inl e \<Rightarrow> (Some (refuse_associate reply shut_reply e), [], False)
      | Inr _ \<Rightarrow>
          (case write_stream_all ws1 (addr_write (uot_sentinel_destination domain_address)) of
             (None, out) \<Rightarrow> (None, out, False)
           | (Some (Inl e), out) \<Rightarrow> (Some (refuse_associate reply shut_reply e), out, True)
           | (Some (Inr _), out) \<Rightarrow>
               (case write_stream_all ws2 (uot_request_bytes addr_write \<lparr>mode = Datagram, destination = unspecified_v4\<rparr>) of
                  (None, out2) \<Rightarrow> (None, out @ out2, False)
                | (Some (Inl e), out2) \<Rightarrow> (Some (refuse_associate reply shut_reply e), out @ out2, True)
                | (Some (Inr _), out2) \<Rightarrow> (Some reply, out @ out2, False))))"

text \<open>The loop's state: the local peer that sent last, whose port is zero before there is one, the frames
  written to the stream, the datagrams sent to the local peer, and the counters.\<close>

record ('a, 's, 'cb) udp_relay =
  incoming_addr :: 's
  frames_written :: "byte list list"
  local_sent :: "('a \<times> byte list \<times> 's) list"
  udp_globals :: "'cb traffic_globals"

text \<open>A local datagram: its payload, fragment number, destination and sender, and the outcome of writing
  the frame. The first component ends the loop.\<close>

definition udp_from_local ::
  "('a \<Rightarrow> byte list) \<Rightarrow> (byte list \<times> u8 \<times> 'a \<times> 's) io_result \<Rightarrow> unit io_result \<Rightarrow> nat \<Rightarrow> ('a, 's, 'cb) udp_relay
     \<Rightarrow> unit io_result option \<times> ('a, 's, 'cb) udp_relay" where
  "udp_from_local addr_write packet frame_written now st =
     (case packet of
        Inl e \<Rightarrow> (Some (Inl e), st)
      | Inr (payload, frag, target, sender) \<Rightarrow>
          if frag \<noteq> 0 then (Some (Inl InvalidData), st)
          else
            let st1 = st\<lparr>incoming_addr := sender\<rparr>
            in case uot_encode_packet addr_write Datagram (Some target) payload of
                 Inl e \<Rightarrow> (Some (Inl e), st1)
               | Inr frame \<Rightarrow>
                   (case frame_written of
                      Inl e \<Rightarrow> (Some (Inl e), st1)
                    | Inr _ \<Rightarrow>
                        (None, st1\<lparr>frames_written := frames_written st1 @ [frame],
                                   udp_globals := snd (record_traffic (of_nat (length payload)) 0 now (udp_globals st1))\<rparr>)))"

text \<open>
  The frame is written piece by piece; \<open>write\<close> is the write of the stream on a state of the tunnel, with the
  number of bytes it took.
\<close>

function write_stream_all ::
  "(byte list \<Rightarrow> 'k \<Rightarrow> nat io_result \<times> 'k) \<Rightarrow> byte list \<Rightarrow> 'k \<Rightarrow> unit io_result \<times> 'k" where
  "write_stream_all write bs k =
     (if bs = [] then (Inr (), k)
      else case write bs k of
             (Inl e, k') \<Rightarrow> (Inl e, k')
           | (Inr n, k') \<Rightarrow> (if n = 0 then (Inl WriteZero, k') else write_stream_all write (drop n bs) k'))"
  by pat_completeness auto
termination
  by (relation "measure (\<lambda>(write, bs, k). length bs)") auto

declare write_stream_all.simps [simp del]

text \<open>A stream that logs what it takes has logged a prefix of the frame in the end, and all of it on success.\<close>

lemma write_stream_all_logs:
  assumes "\<And>bs k r k'. write bs k = (r, k') \<Longrightarrow>
      logged k' = logged k @ (case r of Inl _ \<Rightarrow> [] | Inr n \<Rightarrow> take n bs)"
    and "write_stream_all write bs k = (r, k')"
  shows "\<exists>n. logged k' = logged k @ take n bs \<and> (is_ok r \<longrightarrow> take n bs = bs)"
  using assms(2)
proof (induction "length bs" arbitrary: bs k rule: less_induct)
  case less
  obtain res k1 where w: "write bs k = (res, k1)" by fastforce
  note l = assms(1) [OF w]
  consider (last) "bs = [] \<or> (\<exists>e. res = Inl e) \<or> res = Inr 0" | (more) m where "bs \<noteq> []" "res = Inr m" "0 < m"
    by (cases res) auto
  then show ?case
  proof cases
    case last
    with less.prems w l show ?thesis
      by (intro exI [of _ 0]) (auto simp: write_stream_all.simps [of "write" bs] is_ok_def split: if_splits)
  next
    case more
    with less.prems w have "write_stream_all write (drop m bs) k1 = (r, k')" by (simp add: write_stream_all.simps [of "write" bs])
    with less.hyps [of "drop m bs" k1] more obtain n where n: "logged k' = logged k1 @ take n (drop m bs)"
      "is_ok r \<longrightarrow> take n (drop m bs) = drop m bs" by auto
    with l more have "logged k' = logged k @ take (m + n) bs \<and> (is_ok r \<longrightarrow> take (m + n) bs = bs)"
      by (simp add: take_add)
    then show ?thesis by blast
  qed
qed

text \<open>A packet of the reader task, \<open>None\<close> when its channel is closed; \<open>sent\<close> is the outcome of the local
  socket.\<close>

definition udp_from_stream ::
  "('s \<Rightarrow> u16) \<Rightarrow> ('a option \<times> byte list) io_result option \<Rightarrow> unit io_result \<Rightarrow> nat \<Rightarrow> ('a, 's, 'cb) udp_relay
     \<Rightarrow> unit io_result option \<times> ('a, 's, 'cb) udp_relay" where
  "udp_from_stream socket_port packet sent now st =
     (case packet of
        None \<Rightarrow> (Some (Inl BrokenPipe), st)
      | Some (Inl e) \<Rightarrow> (Some (Inl e), st)
      | Some (Inr (origin, payload)) \<Rightarrow>
          if socket_port (incoming_addr st) = 0 then (None, st)
          else case origin of
            None \<Rightarrow> (Some (Inl InvalidData), st)
          | Some src \<Rightarrow>
              (case sent of
                 Inl e \<Rightarrow> (Some (Inl e), st)
               | Inr _ \<Rightarrow>
                   (None, st\<lparr>local_sent := local_sent st @ [(src, payload, incoming_addr st)],
                             udp_globals := snd (record_traffic 0 (of_nat (length payload)) now (udp_globals st))\<rparr>)))"

definition udp_control_closed :: "unit io_result \<Rightarrow> unit io_result option" where
  "udp_control_closed ended = Some ended"

section \<open>Starting the client\<close>

text \<open>\<^verbatim>\<open>run_client\<close> up to its loop: \<open>bind_listener\<close>, \<open>read_file\<close> and the arguments of \<open>run_client_trust\<close> are the
  operating system's part. The first component says whether the callback for the bound listener
  was called; a text is printed instead of starting.\<close>

definition run_client_start ::
  "('a, 'u) cli_api \<Rightarrow> (byte list \<Rightarrow> byte list) \<Rightarrow> (string \<Rightarrow> 'c io_result list io_result) \<Rightarrow> 'c list \<Rightarrow> ('c \<Rightarrow> bool)
     \<Rightarrow> ('a \<Rightarrow> unit io_result) \<Rightarrow> (string \<Rightarrow> byte list io_result) \<Rightarrow> ('a, 'u) client_args
     \<Rightarrow> bool \<times> (string + 'c server_trust \<times> padding_factory) io_result" where
  "run_client_start api digest open_certs native trusted bind_listener read_file args =
     (if print_url args then (False, io_bind (format_url api args) (\<lambda>u. Inr (Inl u)))
      else case run_client_trust open_certs native trusted args of
        Inl e \<Rightarrow> (False, Inl e)
      | Inr trust \<Rightarrow>
          (case listen_addr args of
             None \<Rightarrow> (False, Inl InvalidInput)
           | Some a \<Rightarrow>
               (case bind_listener a of
                  Inl e \<Rightarrow> (False, Inl e)
                | Inr _ \<Rightarrow>
                    (True, io_bind (case padding_scheme args of
                                      Some path \<Rightarrow>
                                        io_bind (read_file path) (\<lambda>content.
                                          case padding_new digest content of None \<Rightarrow> Inl InvalidInput | Some pf \<Rightarrow> Inr pf)
                                    | None \<Rightarrow> Inr (the (padding_new digest DEFAULT_SCHEME)))
                             (\<lambda>pf. Inr (Inr (trust, pf)))))))"

text \<open>A client that goes on to serve has called back, has a trust by which certificates are checked as asked,
  and pads by the scheme of its file or by the built-in one. Printing the URI calls nobody back.\<close>

lemma run_client_started:
  assumes "run_client_start api digest open_certs native trusted bind_listener read_file args = (called, Inr (Inr (trust, pf)))"
  shows "called" and "run_client_trust open_certs native trusted args = Inr trust"
    and "\<exists>a. listen_addr args = Some a \<and> bind_listener a = Inr ()"
    and "padding_scheme args = None \<Longrightarrow> raw_scheme pf = DEFAULT_SCHEME"
  using assms
  by (auto simp: run_client_start_def io_bind_Inr_iff padding_new_default split: if_splits option.splits sum.splits)

lemma run_client_prints:
  "print_url args \<Longrightarrow> \<not> fst (run_client_start api digest open_certs native trusted bind_listener read_file args)"
  by (simp add: run_client_start_def)

text \<open>The pool behind the proxy: sessions are dialled with the trust and the scheme of the start, are closed after
  thirty seconds without a stream and live for an hour.\<close>

definition CLIENT_IDLE_TIMEOUT :: nat where "CLIENT_IDLE_TIMEOUT = 30000"
definition CLIENT_MAX_SESSION_AGE :: nat where "CLIENT_MAX_SESSION_AGE = 3600000"

definition run_client_pool :: "padding_factory \<Rightarrow> client" where
  "run_client_pool pf = client_new pf CLIENT_MAX_SESSION_AGE"

section \<open>The accept loop\<close>

datatype listen_event = Client_Cancelled | Local_Accepted "unit io_result" | Local_Joined

text \<open>The loop over the events that won so far: how many connections were handed to a task, and the result
  once it has ended.\<close>

fun client_accept_loop :: "listen_event list \<Rightarrow> unit io_result option \<times> nat" where
  "client_accept_loop [] = (None, 0)"
| "client_accept_loop (Client_Cancelled # es) = (Some (Inr ()), 0)"
| "client_accept_loop (Local_Accepted (Inl e) # es) = (Some (Inl e), 0)"
| "client_accept_loop (Local_Accepted (Inr _) # es) = (let (r, n) = client_accept_loop es in (r, Suc n))"
| "client_accept_loop (Local_Joined # es) = client_accept_loop es"

text \<open>The pool is shut down whatever the result of the loop, which comes first.\<close>

definition run_client_end :: "unit io_result \<Rightarrow> client \<Rightarrow> unit io_result \<times> client" where
  "run_client_end accept_result c =
     (let (cleanup_result, c1) = client_shutdown c in (io_bind accept_result (\<lambda>_. cleanup_result), c1))"

section \<open>From the client to the server\<close>

text \<open>Local datagrams one after the other, every frame of them written in full.\<close>

fun udp_local_run ::
  "('a \<Rightarrow> byte list) \<Rightarrow> ((byte list \<times> u8 \<times> 'a \<times> 's) \<times> nat) list \<Rightarrow> ('a, 's, 'cb) udp_relay
     \<Rightarrow> unit io_result option \<times> ('a, 's, 'cb) udp_relay" where
  "udp_local_run addr_write [] st = (None, st)"
| "udp_local_run addr_write ((packet, now) # ps) st =
     (case udp_from_local addr_write (Inr packet) (Inr ()) now st of
        (None, st1) \<Rightarrow> udp_local_run addr_write ps st1
      | (Some r, st1) \<Rightarrow> (Some r, st1))"

definition datagram :: "(byte list \<times> u8 \<times> 'a \<times> 's) \<times> nat \<Rightarrow> 'a option \<times> byte list" where
  "datagram p = (case p of ((payload, frag, target, sender), now) \<Rightarrow> (Some target, payload))"

definition sender_of :: "(byte list \<times> u8 \<times> 'a \<times> 's) \<times> nat \<Rightarrow> 's" where
  "sender_of p = (case p of ((payload, frag, target, sender), now) \<Rightarrow> sender)"

lemma datagram_simps [simp]:
  "datagram ((payload, frag, target, sender), now) = (Some target, payload)"
  "sender_of ((payload, frag, target, sender), now) = sender"
  by (simp_all add: datagram_def sender_of_def)

lemma udp_local_run_frames:
  assumes "udp_local_run addr_write ps st = (None, st')"
  shows "\<exists>frames. frames_written st' = frames_written st @ frames \<and>
     encode_all (\<lambda>(dst, payload). uot_encode_packet addr_write Datagram dst payload) (map datagram ps) = Inr (concat frames) \<and>
     incoming_addr st' = (if ps = [] then incoming_addr st else sender_of (last ps))"
  using assms
proof (induction ps arbitrary: st)
  case (Cons p ps)
  obtain payload frag target sender now where p: "p = ((payload, frag, target, sender), now)" by (cases p) auto
  obtain st1 frame where f: "udp_from_local addr_write (Inr (payload, frag, target, sender)) (Inr ()) now st = (None, st1)"
    "uot_encode_packet addr_write Datagram (Some target) payload = Inr frame"
    "frames_written st1 = frames_written st @ [frame]" "incoming_addr st1 = sender"
    and run: "udp_local_run addr_write ps st1 = (None, st')"
    using Cons.prems p by (auto simp: udp_from_local_def Let_def split: if_splits sum.splits option.splits prod.splits)
  from Cons.IH [OF run] obtain frames where "frames_written st' = frames_written st1 @ frames"
    "encode_all (\<lambda>(dst, payload). uot_encode_packet addr_write Datagram dst payload) (map datagram ps) = Inr (concat frames)"
    "incoming_addr st' = (if ps = [] then incoming_addr st1 else sender_of (last ps))" by blast
  with f p show ?case by (intro exI [of _ "frame # frames"]) auto
qed simp

text \<open>C7: A client that dials with the right password is admitted: the bytes that dialling has written to
  the transport, whatever the padding, make the server grant a session to exactly the client id
  that was given, provided the panel, where there is one, has that client enabled, and the session
  begins with the first byte after them.\<close>

theorem dialled_client_admitted:
  assumes "sha_ok sha256" and "uuid_ok uuid_text uuid_parse"
    and "dial sha256 uuid_text rng resolved connected server_name tls_connect host sni_opt pw pf cid g = Inr (k, g')"
    and "\<And>name k0. tls_connect name = Inr k0 \<Longrightarrow> wire k0 = []"
    and "panel_approves panel cid a"
  shows "handle_connection sha256 uuid_parse {} wants pw panel a fwd allowlist name (Inr (Reader (wire k @ rest) f)) =
     Session_Granted cid (Reader rest f)"
proof -
  obtain n k0 where k0: "tls_connect n = Inr k0"
    "write_auth_with_client_id sha256 uuid_text rng pw pf cid g k0 = (Inr (), k, g')"
    using assms(3) by (auto simp: dial_def io_bind_Inr_iff split: option.splits sum.splits prod.splits)
  obtain bs where "wire k = wire k0 @ bs"
    "\<forall>rest f. read_auth_with_client_id sha256 uuid_parse pw (Reader (bs @ rest) f) = Inr (cid, Reader rest f)"
    using auth_written_is_read [OF assms(1,2) k0(2)] by blast
  then show ?thesis using assms(4) [OF k0(1)] assms(5) by (simp add: gate_eq_auth)
qed

text \<open>A UDP association that the client has set up is recognised by the server: what the client has
  written to the stream leads the server past the target address into the relay of datagrams, with
  a request for datagram mode, and the datagrams begin right after it.\<close>

theorem udp_association_recognised:
  assumes "codec (\<lambda>a. Inr (addr_write a)) addr_read"
    and "as_domain (domain_address V2_MAGIC_ADDRESS 0) = Some (V2_MAGIC_ADDRESS, 0)"
    and "udp_associate_setup addr_write domain_address any bound created ws1 ws2 reply shut_reply = (Some (Inr ()), out, fin)"
    and "panel_approves panel cid a"
  shows "\<not> fin \<and> (\<exists>r1. stream_target addr_read as_domain panel cid a (Reader (out @ rest) f) = Route_Uot r1 \<and>
     uot_get_request_from_stream addr_read r1 = Inr (\<lparr>mode = Datagram, destination = any\<rparr>, Reader rest f))"
proof -
  let ?req = "\<lparr>mode = Datagram, destination = any\<rparr>"
  have out: "out = addr_write (uot_sentinel_destination domain_address) @ uot_request_bytes addr_write ?req" "\<not> fin"
    using assms(3)
    by (auto simp: udp_associate_setup_def refuse_associate_def dest!: write_stream_all_ok
        split: sum.splits option.splits prod.splits)
  have "addr_read (Reader (addr_write (uot_sentinel_destination domain_address) @ more) f) =
      Inr (uot_sentinel_destination domain_address, Reader more f)" for more
    using codec.dec_enc [OF assms(1) refl] by simp
  moreover have "uot_get_request_from_stream addr_read (Reader (uot_request_bytes addr_write ?req @ rest) f) = Inr (?req, Reader rest f)"
    using codec.dec_enc [OF uot_request_codec [OF assms(1)] refl] by simp
  ultimately show ?thesis using out assms(2,4)
    by (simp add: stream_target_def uot_is_sentinel_destination_def uot_sentinel_destination_def)
qed

text \<open>C22: Datagrams of a local application cross the tunnel unchanged: those the client's association has
  written to its stream leave the server's socket one by one, in order, with their payloads and
  destinations; and the answer the server sends back is delivered to the local sender of the last one.\<close>

theorem udp_crosses_the_tunnel:
  assumes "codec (\<lambda>a. Inr (addr_write a)) addr_read"
    and "frames_written st = []" and "udp_local_run addr_write ps st = (None, st')"
    and "uot_mode srv = Datagram"
    and "uot_relay_packets (uot_reader_task addr_read Datagram (length ps) (Reader (concat (frames_written st') @ rest) f)) srv = (r, srv')"
    and "ps \<noteq> []" and "socket_port (sender_of (last ps)) \<noteq> 0"
    and "udp_from_stream socket_port (Some (Inr (Some src, answer))) (Inr ()) now st' = (r2, st2)"
  shows "r = None \<and> uot_sent srv' = uot_sent srv @ map datagram ps \<and>
     r2 = None \<and> local_sent st2 = local_sent st' @ [(src, answer, sender_of (last ps))]"
proof -
  obtain frames where fr: "frames_written st' = frames"
    "encode_all (\<lambda>(dst, payload). uot_encode_packet addr_write Datagram dst payload) (map datagram ps) = Inr (concat frames)"
    "incoming_addr st' = sender_of (last ps)"
    using udp_local_run_frames [OF assms(3)] assms(2,6) by auto
  have "uot_reader_task addr_read Datagram (length ps) (Reader (concat frames @ rest) f) = map Inr (map datagram ps) @ []"
    using uot_reader_task_encoded [OF assms(1) fr(2), of 0 rest f] by (simp add: uot_reader_task_def)
  moreover have "(dst = None) = (uot_mode srv = Connected)" if "(dst, payload) \<in> set (map datagram ps)" for dst payload
    using that assms(4) by (auto simp: datagram_def split: prod.splits)
  ultimately have "(r, srv') = (None, srv\<lparr>uot_sent := uot_sent srv @ map datagram ps,
       uot_audit := charge_payloads (uot_client srv) (map snd (map datagram ps)) (uot_audit srv)\<rparr>)"
    using uot_relay_packets_encoded [of "map datagram ps" srv "[]"] assms(5) fr(1) by (metis uot_relay_packets.simps(1))
  then show ?thesis using assms(7,8) fr(3) by (auto simp: udp_from_stream_def)
qed

section \<open>Witnesses\<close>

theorem dialled_client_admitted_witness:
  "\<exists>k. dial sample_sha sample_uuid_text (\<lambda>a b g. (a, g)) (Inr ()) (Inr ()) Some (\<lambda>_. Inr \<lparr>written = [], script = []\<rparr>)
       ''edge'' None ''secret'' \<lparr>raw_scheme = [], stop = 1, md5 = [], scheme = Map.empty\<rparr> (Some True) () = Inr (k, ()) \<and>
     handle_connection sample_sha sample_uuid_parse {} (\<lambda>_. 3) ''secret'' True [(True, \<lparr>enabled = True, upstream = 0, downstream = 0\<rparr>)]
       None [] None (Inr (Reader (wire k @ [4, 2]) None)) = Session_Granted (Some True) (Reader [4, 2] None)"
proof -
  let ?pf = "\<lparr>raw_scheme = [], stop = 1, md5 = [], scheme = Map.empty\<rparr>" and ?k0 = "\<lparr>written = [], script = []\<rparr>"
  let ?a = "[(True, \<lparr>enabled = True, upstream = 0, downstream = 0\<rparr>)]"
  have "auth_padding_len (\<lambda>a b g. (a, g)) ?pf (Some True) () = (36, ())"
    by (simp add: auth_padding_len_def generate_record_payload_sizes_def)
  then obtain k where "write_auth_with_client_id sample_sha sample_uuid_text (\<lambda>a b g. (a, g)) ''secret''
      ?pf (Some True) () ?k0 = (Inr (), k, ())"
    using write_auth_wire [of ?k0] by (fastforce simp: healthy_def)
  then have d: "dial sample_sha sample_uuid_text (\<lambda>a b g. (a, g)) (Inr ()) (Inr ()) Some (\<lambda>_. Inr ?k0)
       ''edge'' None ''secret'' ?pf (Some True) () = Inr (k, ())"
    by (simp add: dial_def)
  have "panel_approves True (Some True) ?a" by (simp add: panel_approves_def is_enabled_def)
  from dialled_client_admitted [OF sample_ok d _ this] d show ?thesis by (intro exI [of _ k]) simp
qed

theorem udp_association_recognised_witness:
  "\<exists>r1. stream_target sample_addr_read (\<lambda>a. if a = 0 then Some (V2_MAGIC_ADDRESS, 0) else None) False (None :: unit option) []
       (Reader ([0, 0, 0, 0] @ uot_request_bytes sample_addr_write \<lparr>mode = Datagram, destination = 9\<rparr> @ [7]) None) = Route_Uot r1 \<and>
     uot_get_request_from_stream sample_addr_read r1 = Inr (\<lparr>mode = Datagram, destination = 9\<rparr>, Reader [7] None)"
proof -
  let ?req = "uot_request_bytes sample_addr_write \<lparr>mode = Datagram, destination = 9\<rparr>"
  have "sample_addr_write 0 = [0, 0, 0, 0]" by (simp add: sample_addr_write_def to_be_bytes32_def)
  moreover have "length ?req = 5" "?req \<noteq> []"
    by (simp_all add: uot_request_bytes_def sample_addr_write_def to_be_bytes32_def)
  ultimately have "udp_associate_setup sample_addr_write (\<lambda>_ _. 0) 9 (Inr ()) (Inr ()) [Inr 3, Inr 1] [Inr 5] (Inr ()) (Inr ()) =
      (Some (Inr ()), [0, 0, 0, 0] @ ?req, False)"
    by (cases ?req) (simp_all add: udp_associate_setup_def uot_sentinel_destination_def)
  from udp_association_recognised [OF sample_addr_codec _ this,
      of "\<lambda>a. if a = 0 then Some (V2_MAGIC_ADDRESS, 0) else None" False None "[]" "[7]" None]
  show ?thesis by (simp add: panel_approves_def)
qed

theorem udp_crosses_the_tunnel_witness:
  "udp_local_run sample_addr_write [(([65, 66], 0, 0x08080808, 40000), 1), (([], 0, 0x01010101, 401), 2)]
     \<lparr>incoming_addr = (0 :: u16), frames_written = [], local_sent = [], udp_globals = globals_new 0\<rparr> =
     (None, \<lparr>incoming_addr = 401, frames_written = [[8, 8, 8, 8, 0, 2, 65, 66], [1, 1, 1, 1, 0, 0]],
             local_sent = [], udp_globals = globals_new 0 :: unit traffic_globals\<rparr>) \<and>
   uot_sent (snd (uot_relay_packets (uot_reader_task sample_addr_read Datagram 2
       (Reader ([8, 8, 8, 8, 0, 2, 65, 66, 1, 1, 1, 1, 0, 0] @ []) None))
     \<lparr>uot_mode = Datagram, uot_client = None, uot_sent = [], uot_written = [], uot_audit = [] :: unit audit\<rparr>)) =
   [(Some 0x08080808, [65, 66]), (Some 0x01010101, [])]"
proof -
  let ?ps = "[(([65, 66], 0, 0x08080808, 40000), 1), (([], 0, 0x01010101, 401), 2)] :: ((byte list \<times> u8 \<times> u32 \<times> u16) \<times> nat) list"
  let ?st = "\<lparr>incoming_addr = 0, frames_written = [], local_sent = [], udp_globals = globals_new 0\<rparr> :: (u32, u16, unit) udp_relay"
  let ?st' = "\<lparr>incoming_addr = 401, frames_written = [[8, 8, 8, 8, 0, 2, 65, 66], [1, 1, 1, 1, 0, 0]],
             local_sent = [], udp_globals = globals_new 0 :: unit traffic_globals\<rparr> :: (u32, u16, unit) udp_relay"
  let ?srv = "\<lparr>uot_mode = Datagram, uot_client = None, uot_sent = [], uot_written = [], uot_audit = [] :: unit audit\<rparr> :: (u32, unit) uot_relay"
  let ?run = "uot_relay_packets (uot_reader_task sample_addr_read Datagram 2
       (Reader ([8, 8, 8, 8, 0, 2, 65, 66, 1, 1, 1, 1, 0, 0] @ []) None)) ?srv"
  have run: "udp_local_run sample_addr_write ?ps ?st = (None, ?st')"
    by (simp add: udp_from_local_def uot_encode_packet_def sample_addr_write_def to_be_bytes32_def to_be_bytes16_def
        drop_bit_eq_div record_traffic_def globals_new_def)
  obtain r2 st2 where "udp_from_stream id (Some (Inr (Some 1, [9]))) (Inr ()) 3 ?st' = (r2, st2)" by force
  moreover have "?ps \<noteq> []" "id (sender_of (last ?ps)) \<noteq> 0" "length ?ps = 2" by simp_all
  moreover have "concat (frames_written ?st') = [8, 8, 8, 8, 0, 2, 65, 66, 1, 1, 1, 1, 0, 0]" "frames_written ?st = []" "uot_mode ?srv = Datagram"
    by simp_all
  ultimately have "uot_sent (snd ?run) = uot_sent ?srv @ map datagram ?ps"
    using udp_crosses_the_tunnel [OF sample_addr_codec _ run, of ?srv "[]" None "fst ?run" "snd ?run" id 1 "[9]" 3 r2 st2]
    by (metis prod.collapse)
  then have "uot_sent (snd ?run) = [(Some 0x08080808, [65, 66]), (Some 0x01010101, [])]" by (simp only: datagram_simps list.map) simp
  with run show ?thesis by (rule conjI)
qed

end
