(* ===== verification/Server_Tls.thy ===== *)
theory Server_Tls
  imports Prelude Transition "HOL-Library.List_Lexorder" "HOL-Library.Char_ord"
begin

text \<open>
  The TLS side of the server (\<^verbatim>\<open>bin/server.rs\<close>): building the configuration and its list of probe
  names, the task that reloads it when the certificate files change, and the accept loop. Reading
  and parsing PEM files, the X.509 parser, the certificate generator and \<^verbatim>\<open>rustls\<close> are parameters.
\<close>

section \<open>Configuration\<close>

record ('p, 'c, 'k, 'cfg) tls_api =
  read_certs :: "'p \<Rightarrow> 'c list io_result"
  read_private_key :: "'p \<Rightarrow> 'k option io_result"
  san_dns_names :: "'c \<Rightarrow> string list option"
  self_signed :: "string \<Rightarrow> ('c \<times> 'k) option"
  with_single_cert :: "'c list \<Rightarrow> 'k \<Rightarrow> 'cfg option"

definition extract_dns_names_from_certs :: "('c \<Rightarrow> string list option) \<Rightarrow> 'c list \<Rightarrow> string option \<Rightarrow> string list" where
  "extract_dns_names_from_certs parse certs fallback_sni =
     (let names = (case certs of
                     [] \<Rightarrow> []
                   | cert # _ \<Rightarrow> (case parse cert of None \<Rightarrow> [] | Some ns \<Rightarrow> ns));
          names1 = (case fallback_sni of Some sni \<Rightarrow> if names = [] then names @ [sni] else names | None \<Rightarrow> names)
      in remdups_adj (sort names1))"

definition tls_config ::
  "('p, 'c, 'k, 'cfg) tls_api \<Rightarrow> string option \<Rightarrow> 'p option \<Rightarrow> 'p option \<Rightarrow> ('cfg \<times> string list) io_result" where
  "tls_config api sni cert_path key_path =
     (case (cert_path, key_path) of
        (Some cp, Some kp) \<Rightarrow>
          io_bind (read_certs api cp) (\<lambda>certs.
            if certs = [] then Inl InvalidData
            else io_bind (read_private_key api kp) (\<lambda>key.
              case key of
                None \<Rightarrow> Inl InvalidData
              | Some k \<Rightarrow>
                  (case with_single_cert api certs k of
                     None \<Rightarrow> Inl OtherError
                   | Some config \<Rightarrow> Inr (config, extract_dns_names_from_certs (san_dns_names api) certs sni))))
      | (None, None) \<Rightarrow>
          (case self_signed api (case sni of None \<Rightarrow> ''localhost'' | Some name \<Rightarrow> name) of
             None \<Rightarrow> Inl OtherError
           | Some (cert, k) \<Rightarrow>
               (case with_single_cert api [cert] k of
                  None \<Rightarrow> Inl OtherError
                | Some config \<Rightarrow> Inr (config, case sni of None \<Rightarrow> [] | Some name \<Rightarrow> [name])))
      | _ \<Rightarrow> Inl InvalidInput)"

text \<open>The trust of the connection to a probed host: the system's certificates, all of which must be accepted.\<close>

fun add_roots :: "('c \<Rightarrow> 's \<Rightarrow> 's option) \<Rightarrow> 'c list \<Rightarrow> 's \<Rightarrow> 's io_result" where
  "add_roots add [] store = Inr store"
| "add_roots add (cert # certs) store =
     (case add cert store of None \<Rightarrow> Inl OtherError | Some store1 \<Rightarrow> add_roots add certs store1)"

definition create_probe_target_tls_config ::
  "('c \<Rightarrow> 's \<Rightarrow> 's option) \<Rightarrow> 'c list \<Rightarrow> 's \<Rightarrow> ('s \<Rightarrow> 'cfg) \<Rightarrow> 'cfg io_result" where
  "create_probe_target_tls_config add native_certs empty_store with_roots =
     io_bind (add_roots add native_certs empty_store) (\<lambda>store. Inr (with_roots store))"

section \<open>Watching the files\<close>

text \<open>Paths of the standard library, and the file watcher. A file name is a path of one component.\<close>

record 'p path_api =
  is_absolute :: "'p \<Rightarrow> bool"
  current_dir :: "'p io_result"
  join_path :: "'p \<Rightarrow> 'p \<Rightarrow> 'p"
  parent_dir :: "'p \<Rightarrow> 'p option"
  file_name :: "'p \<Rightarrow> 'p option"
  canonicalize :: "'p \<Rightarrow> 'p io_result"
  recommended_watcher :: "unit option"
  watch_dir :: "'p \<Rightarrow> unit option"

definition absolute_path :: "'p path_api \<Rightarrow> 'p \<Rightarrow> 'p io_result" where
  "absolute_path api path =
     (if is_absolute api path then Inr path else io_bind (current_dir api) (\<lambda>d. Inr (join_path api d path)))"

definition normalize_path :: "'p path_api \<Rightarrow> 'p \<Rightarrow> 'p io_result" where
  "normalize_path api path =
     io_bind (absolute_path api path) (\<lambda>p.
       case parent_dir api p of
         None \<Rightarrow> Inl InvalidInput
       | Some dir \<Rightarrow>
           (case file_name api p of
              None \<Rightarrow> Inl InvalidInput
            | Some name \<Rightarrow> io_bind (canonicalize api dir) (\<lambda>d. Inr (join_path api d name))))"

fun watch_dirs :: "'p path_api \<Rightarrow> 'p list \<Rightarrow> unit io_result" where
  "watch_dirs api [] = Inr ()"
| "watch_dirs api (d # ds) = (case watch_dir api d of None \<Rightarrow> Inl OtherError | Some _ \<Rightarrow> watch_dirs api ds)"

text \<open>The directories that are watched and the normalised paths. There are at most two directories; the
  order of the hash set only decides which of two failures is met first, and both are the same error.\<close>

definition watch_tls_files :: "'p path_api \<Rightarrow> 'p \<Rightarrow> 'p \<Rightarrow> ('p list \<times> 'p \<times> 'p) io_result" where
  "watch_tls_files api cert_path key_path =
     io_bind (normalize_path api cert_path) (\<lambda>cp.
     io_bind (normalize_path api key_path) (\<lambda>kp.
       case recommended_watcher api of
         None \<Rightarrow> Inl OtherError
       | Some _ \<Rightarrow>
           (let directories = remdups (List.map_filter (parent_dir api) [cp, kp])
            in io_bind (watch_dirs api directories) (\<lambda>_. Inr (directories, cp, kp)))))"

lemma watch_dirs_ok: "watch_dirs api ds = Inr () \<Longrightarrow> d \<in> set ds \<Longrightarrow> watch_dir api d \<noteq> None"
  by (induction ds) (auto split: option.splits)

text \<open>What the events are compared with is a file of a watched directory.\<close>

lemma watch_tls_files_ok:
  assumes "watch_tls_files api cert_path key_path = Inr (dirs, cp, kp)" and "p \<in> {cp, kp}" and "parent_dir api p = Some d"
  shows "d \<in> set dirs \<and> watch_dir api d \<noteq> None \<and> length dirs \<le> 2 \<and> distinct dirs \<and>
    normalize_path api cert_path = Inr cp \<and> normalize_path api key_path = Inr kp"
proof -
  have w: "watch_dirs api dirs = Inr ()" "dirs = remdups (List.map_filter (parent_dir api) [cp, kp])"
    "normalize_path api cert_path = Inr cp" "normalize_path api key_path = Inr kp"
    using assms(1) by (auto simp: watch_tls_files_def io_bind_Inr_iff Let_def split: option.splits)
  have d: "d \<in> set dirs" using assms(2,3) unfolding w(2) by (auto simp: map_filter_def)
  have "length dirs \<le> 2" unfolding w(2) by (rule order_trans [OF length_remdups_leq]) (simp add: map_filter_def)
  with watch_dirs_ok [OF w(1) d] d w show ?thesis by simp
qed

section \<open>Reloading\<close>

record 'p file_event =
  is_access :: bool
  paths :: "'p list"

definition event_affects_tls_files :: "'p file_event \<Rightarrow> 'p \<Rightarrow> 'p \<Rightarrow> bool" where
  "event_affects_tls_files ev cert_path key_path \<longleftrightarrow>
     \<not> is_access ev \<and> (\<exists>p\<in>set (paths ev). p = cert_path \<or> p = key_path)"

definition DEBOUNCE :: nat where "DEBOUNCE = 250"

text \<open>The task waits for an event, lets a burst of them settle until an instant, or loads.\<close>

datatype reload_phase = Reload_Wait | Reload_Debounce nat | Reload_Load | Reload_Stopped

text \<open>\<open>changes\<close> counts the relevant changes that were notified and \<open>covered\<close> is that count when the last
  load began; both exist for the statements only. A watcher error is an empty entry of the queue.\<close>

record ('p, 't) reload =
  reload_phase :: reload_phase
  events :: "'p file_event option list"
  watcher_gone :: bool
  tls_state :: 't
  changes :: nat
  covered :: nat

definition relevant :: "'p \<Rightarrow> 'p \<Rightarrow> 'p file_event option \<Rightarrow> bool" where
  "relevant cp kp ev = (case ev of None \<Rightarrow> False | Some e \<Rightarrow> event_affects_tls_files e cp kp)"

inductive reload_step :: "'p \<Rightarrow> 'p \<Rightarrow> ('p, 't) reload \<Rightarrow> ('p, 't) reload \<Rightarrow> bool" for cp kp where
  notified: "\<not> watcher_gone s \<Longrightarrow> reload_step cp kp s
     (s\<lparr>events := events s @ [ev], changes := (if relevant cp kp ev then changes s + 1 else changes s)\<rparr>)"
| watcher_dropped: "reload_step cp kp s (s\<lparr>watcher_gone := True\<rparr>)"
| cancelled: "reload_step cp kp s (s\<lparr>reload_phase := Reload_Stopped\<rparr>)"
| taken: "reload_phase s = Reload_Wait \<Longrightarrow> events s = ev # evs \<Longrightarrow> reload_step cp kp s
     (s\<lparr>events := evs, reload_phase := (if relevant cp kp ev then Reload_Debounce (now + DEBOUNCE) else Reload_Wait)\<rparr>)"
| settling: "reload_phase s = Reload_Debounce d \<Longrightarrow> events s = ev # evs \<Longrightarrow> reload_step cp kp s
     (s\<lparr>events := evs, reload_phase := (if relevant cp kp ev then Reload_Debounce (now + DEBOUNCE) else Reload_Debounce d)\<rparr>)"
| settled: "reload_phase s = Reload_Debounce d \<Longrightarrow> d \<le> now \<Longrightarrow>
     reload_step cp kp s (s\<lparr>reload_phase := Reload_Load, covered := changes s - length (filter (relevant cp kp) (events s))\<rparr>)"
| channel_closed: "reload_phase s = Reload_Wait \<or> reload_phase s = Reload_Debounce d \<Longrightarrow> watcher_gone s \<Longrightarrow> events s = [] \<Longrightarrow>
     reload_step cp kp s (s\<lparr>reload_phase := Reload_Stopped\<rparr>)"
| loaded: "reload_phase s = Reload_Load \<Longrightarrow>
     reload_step cp kp s (s\<lparr>reload_phase := Reload_Wait, tls_state := (case (outcome :: 't io_result) of Inr t \<Rightarrow> t | Inl _ \<Rightarrow> tls_state s)\<rparr>)"

definition reload_init :: "('p, 't) reload \<Rightarrow> bool" where
  "reload_init s \<longleftrightarrow>
     (\<exists>t. s = \<lparr>reload_phase = Reload_Wait, events = [], watcher_gone = False, tls_state = t, changes = 0, covered = 0\<rparr>)"

definition reload_inv :: "'p \<Rightarrow> 'p \<Rightarrow> ('p, 't) reload \<Rightarrow> bool" where
  "reload_inv cp kp s \<longleftrightarrow>
     length (filter (relevant cp kp) (events s)) \<le> changes s \<and>
     (case reload_phase s of
        Reload_Wait \<Rightarrow> covered s + length (filter (relevant cp kp) (events s)) = changes s
      | Reload_Load \<Rightarrow> covered s + length (filter (relevant cp kp) (events s)) = changes s
      | _ \<Rightarrow> True)"

lemma reload_inv_init: "reload_init s \<Longrightarrow> reload_inv cp kp s"
  by (auto simp: reload_init_def reload_inv_def)

lemma reload_inv_step:
  assumes "reload_inv cp kp s" and "reload_step cp kp s s'"
  shows "reload_inv cp kp s'"
  using assms(2,1) by cases (auto simp: reload_inv_def split: reload_phase.splits if_splits)

interpretation reload: invariant_system reload_init "reload_step cp kp" "reload_inv cp kp" for cp kp
  by unfold_locales (auto intro: reload_inv_init reload_inv_step)

section \<open>The accept loop\<close>

datatype accept_event =
    Server_Cancelled
  | Accepted_Connection
  | Accept_Failed io_error "nat option"
  | Connection_Joined

text \<open>The loop of \<^verbatim>\<open>run_server\<close> over the events that won so far: the session ids it has handed out, and the
  result once it has ended. A lack of descriptors (\<^verbatim>\<open>EMFILE\<close> is 24) is waited out.\<close>

fun accept_loop :: "u64 \<Rightarrow> accept_event list \<Rightarrow> unit io_result option \<times> u64 list" where
  "accept_loop session_id [] = (None, [])"
| "accept_loop session_id (Server_Cancelled # es) = (Some (Inr ()), [])"
| "accept_loop session_id (Accepted_Connection # es) =
     (let (r, ids) = accept_loop (session_id + 1) es in (r, (session_id + 1) # ids))"
| "accept_loop session_id (Accept_Failed e raw # es) =
     (if e = WouldBlock \<or> raw = Some 24 then accept_loop session_id es else (Some (Inl e), []))"
| "accept_loop session_id (Connection_Joined # es) = accept_loop session_id es"

section \<open>Properties\<close>

text \<open>C33: No change of the certificate files is missed: whenever the reload task is back at rest with an
  empty queue, a load was begun after every relevant change that was notified, however the
  notifications were interleaved with the settling time and with loads in progress.\<close>

theorem reload_misses_no_change:
  assumes "reload_init s0" and "(reload_step cp kp)\<^sup>*\<^sup>* s0 s" and "reload_phase s = Reload_Wait" and "events s = []"
  shows "covered s = changes s"
  using reload.reachable_inv [OF assms(1,2)] assms(3,4) by (simp add: reload_inv_def)

definition sample_change :: "bool file_event" where
  "sample_change = \<lparr>is_access = False, paths = [True]\<rparr>"

theorem reload_misses_no_change_witness:
  "\<exists>s. (reload_step True False)\<^sup>*\<^sup>*
       \<lparr>reload_phase = Reload_Wait, events = [], watcher_gone = False, tls_state = (0 :: nat), changes = 0, covered = 0\<rparr> s \<and>
     covered s = 1 \<and> changes s = 1 \<and> tls_state s = 7"
proof -
  define s0 where "s0 = \<lparr>reload_phase = Reload_Wait, events = [] :: bool file_event option list, watcher_gone = False,
      tls_state = (0 :: nat), changes = 0, covered = 0\<rparr>"
  have rel: "relevant True False (Some sample_change)"
    by (simp add: relevant_def event_affects_tls_files_def sample_change_def)
  let ?s1 = "s0\<lparr>events := [Some sample_change], changes := 1\<rparr>"
  let ?s2 = "s0\<lparr>reload_phase := Reload_Debounce 250, changes := 1\<rparr>"
  let ?s3 = "s0\<lparr>reload_phase := Reload_Load, changes := 1, covered := 1\<rparr>"
  let ?s4 = "s0\<lparr>tls_state := 7, changes := 1, covered := 1\<rparr>"
  have 1: "reload_step True False s0 ?s1"
    using notified [of s0 True False "Some sample_change"] rel by (simp add: s0_def)
  have 2: "reload_step True False ?s1 ?s2"
    using taken [of ?s1 "Some sample_change" "[]" True False 0] rel by (simp add: s0_def DEBOUNCE_def)
  have 3: "reload_step True False ?s2 ?s3"
    using settled [of ?s2 250 250 True False] by (simp add: s0_def)
  have 4: "reload_step True False ?s3 ?s4"
    using loaded [of ?s3 True False "Inr 7"] by (simp add: s0_def)
  have run: "(reload_step True False)\<^sup>*\<^sup>* s0 ?s4"
    using 1 2 3 4 by (meson rtranclp.rtrancl_into_rtrancl rtranclp.rtrancl_refl)
  moreover have "covered ?s4 = changes ?s4"
    by (rule reload_misses_no_change [OF _ run]) (simp_all add: reload_init_def s0_def)
  ultimately show ?thesis unfolding s0_def [symmetric] by (intro exI [of _ ?s4]) simp
qed

end
