(* ===== verification/Server_Args.thy ===== *)
theory Server_Args
  imports Client_Args Panel_Sync Server_Gate Server_Tls Padding
begin

text \<open>
  The server's arguments (\<^verbatim>\<open>src/cli/server.rs\<close>), the URI and the settings it prints for its clients
  (\<^verbatim>\<open>src/url_util.rs\<close>), and the start of \<^verbatim>\<open>run_server\<close> (\<^verbatim>\<open>bin/server.rs\<close>) up to the listening socket. The
  URI crates are those of \<open>Client_Args\<close>; IP addresses, the answers of the address services and the
  operating system are parameters.
\<close>

section \<open>Arguments\<close>

record ('p, 'l) server_args =
  listen_port :: u16
  server_password :: "string option"
  server_padding_scheme :: "'p option"
  server_sni :: "string option"
  forward :: "forward_url option"
  cert :: "'p option"
  key :: "'p option"
  panel_webapi_url :: "'l option"
  panel_webapi_token :: "string option"
  panel_node_id :: "nat option"
  panel_update_interval_secs :: "u64 option"
  print_args :: bool
  server_print_url :: bool

definition panel_sync_enabled :: "('p, 'l) server_args \<Rightarrow> bool" where
  "panel_sync_enabled args \<longleftrightarrow>
     panel_webapi_url args \<noteq> None \<and> panel_webapi_token args \<noteq> None \<and> panel_node_id args \<noteq> None"

definition panel_sync_config_of :: "('p, 'l) server_args \<Rightarrow> 'l panel_sync_config option io_result" where
  "panel_sync_config_of args =
     (let has_required_value = panel_webapi_url args \<noteq> None \<or> panel_webapi_token args \<noteq> None \<or> panel_node_id args \<noteq> None
      in if \<not> has_required_value \<and> panel_update_interval_secs args = None then Inr None
         else case (panel_webapi_url args, panel_webapi_token args, panel_node_id args) of
           (Some u, Some t, Some n) \<Rightarrow>
             Inr (Some \<lparr>webapi_url = Some u, webapi_token = Some t, node_id = Some n,
                        update_interval_secs = Some (max (case panel_update_interval_secs args of None \<Rightarrow> 10 | Some s \<Rightarrow> s) 5)\<rparr>)
         | _ \<Rightarrow> Inl InvalidInput)"

section \<open>What the server prints\<close>

record 'ip ip_api =
  ip_text :: "'ip \<Rightarrow> string"
  ip_is_ipv6 :: "'ip \<Rightarrow> bool"
  ip_parse :: "string \<Rightarrow> 'ip option"

text \<open>The server has its own copy of the characters that are escaped in a password.\<close>

definition server_userinfo_encode_set :: "char \<Rightarrow> bool" where
  "server_userinfo_encode_set c \<longleftrightarrow>
     CONTROLS c \<or> c \<in> set '' \"#<>?@['' \<or> c = CHR 0x5C \<or> c \<in> set '']^`{|}%:''"

lemma userinfo_sets_agree: "server_userinfo_encode_set = USERINFO_ENCODE_SET"
  by (rule ext) (auto simp: server_userinfo_encode_set_def USERINFO_ENCODE_SET_def)

definition format_anytls_url :: "('a, 'u) cli_api \<Rightarrow> 'ip ip_api \<Rightarrow> 'ip \<times> u16 \<Rightarrow> string \<Rightarrow> string option \<Rightarrow> string" where
  "format_anytls_url api ips srv pw sni_opt =
     (let host = (if ip_is_ipv6 ips (fst srv) then ''['' @ ip_text ips (fst srv) @ '']'' else ip_text ips (fst srv));
          authority = (if snd srv = 443 then host else host @ '':'' @ nat_to_string (unat (snd srv)))
      in ''anytls://'' @ (if pw = [] then [] else pct_encode api server_userinfo_encode_set pw @ ''@'') @ authority @
         (case sni_opt of None \<Rightarrow> [] | Some s \<Rightarrow> ''/?'' @ form_serialize api [(''sni'', s)]))"

text \<open>\<open>fetch\<close> is the body an endpoint answers with, if it answers. The first usable answer wins.\<close>

fun first_ip :: "(string \<Rightarrow> string option) \<Rightarrow> 'ip ip_api \<Rightarrow> bool \<Rightarrow> string list \<Rightarrow> 'ip option" where
  "first_ip fetch ips v6 [] = None"
| "first_ip fetch ips v6 (site # sites) =
     (case Option.bind (fetch site) (\<lambda>body. ip_parse ips (trim body)) of
        Some ip \<Rightarrow> if ip_is_ipv6 ips ip = v6 then Some ip else first_ip fetch ips v6 sites
      | None \<Rightarrow> first_ip fetch ips v6 sites)"

definition retrieve_public_ip :: "(string \<Rightarrow> string option) \<Rightarrow> 'ip ip_api \<Rightarrow> 'ip io_result" where
  "retrieve_public_ip fetch ips =
     (case first_ip fetch ips False
         [''https://api.ipify.org?format=text'', ''https://ifconfig.me'', ''https://icanhazip.com'', ''https://api-ipv4.ip.sb/ip''] of
        Some ip \<Rightarrow> Inr ip
      | None \<Rightarrow>
          (case first_ip fetch ips True
              [''https://api6.ipify.org?format=text'', ''https://ipv6.icanhazip.com'', ''https://api-ipv6.ip.sb/ip''] of
             Some ip \<Rightarrow> Inr ip
           | None \<Rightarrow> Inl OtherError))"

definition print_url_text ::
  "('a, 'u) cli_api \<Rightarrow> 'ip ip_api \<Rightarrow> (string \<Rightarrow> string option) \<Rightarrow> u16 \<Rightarrow> string \<Rightarrow> string option \<Rightarrow> bool \<Rightarrow> string io_result" where
  "print_url_text api ips fetch port pw sni_opt panel =
     (if panel then Inl InvalidInput
      else io_bind (retrieve_public_ip fetch ips) (\<lambda>ip. Inr (format_anytls_url api ips (ip, port) pw sni_opt)))"

text \<open>The settings as a JSON object in which the listening address is replaced; \<open>socket_text\<close> prints an
  address and \<open>pretty\<close> the object.\<close>

definition args_json_for_public_ip ::
  "('ip \<Rightarrow> u16 \<Rightarrow> string) \<Rightarrow> (json \<Rightarrow> string) \<Rightarrow> json io_result \<Rightarrow> u16 \<Rightarrow> 'ip \<Rightarrow> string io_result" where
  "args_json_for_public_ip socket_text pretty serialized port ip =
     io_bind serialized (\<lambda>v.
       case v of
         JObject kvs \<Rightarrow> Inr (pretty (JObject (AList.update ''listen'' (JString (socket_text ip port)) kvs)))
       | _ \<Rightarrow> Inl InvalidInput)"

definition print_args_text ::
  "('ip \<Rightarrow> u16 \<Rightarrow> string) \<Rightarrow> (json \<Rightarrow> string) \<Rightarrow> 'ip ip_api \<Rightarrow> (string \<Rightarrow> string option) \<Rightarrow> json io_result \<Rightarrow> u16 \<Rightarrow> string io_result" where
  "print_args_text socket_text pretty ips fetch serialized port =
     io_bind (retrieve_public_ip fetch ips) (args_json_for_public_ip socket_text pretty serialized port)"

section \<open>Starting the server\<close>

text \<open>What the start depends on outside the program: the text of each print mode, the file system and
  its watcher, the TLS crates, the panel's first answer, the
  padding file and the listening socket.\<close>

record ('p, 'c, 'k, 'cfg, 'l) server_env =
  args_text :: "string io_result"
  url_text :: "bool \<Rightarrow> string io_result"
  files :: "'p path_api"
  tls :: "('p, 'c, 'k, 'cfg) tls_api"
  sync_initial :: "'l panel_sync_config \<Rightarrow> unit io_result"
  read_file :: "'p \<Rightarrow> byte list io_result"
  md5_digest :: "byte list \<Rightarrow> byte list"
  bound :: "unit io_result"

record ('p, 'cfg, 'l) server_start =
  tls_watch :: "('p list \<times> 'p \<times> 'p) option"
  forward_target :: "forward_url option"
  server_tls_config :: 'cfg
  probe_sni_allowlist :: "string list"
  panel_config :: "'l panel_sync_config option"
  padding_factory_in_use :: padding_factory

text \<open>\<open>Inl\<close> inside the result is a text that was printed instead of starting.\<close>

definition run_server_start ::
  "('p, 'c, 'k, 'cfg, 'l) server_env \<Rightarrow> ('p, 'l) server_args \<Rightarrow> (string + ('p, 'cfg, 'l) server_start) io_result" where
  "run_server_start env args =
     (if print_args args then io_bind (args_text env) (\<lambda>t. Inr (Inl t))
      else if server_print_url args then io_bind (url_text env (panel_sync_enabled args)) (\<lambda>t. Inr (Inl t))
      else
        io_bind (validate_forward_url (forward args)) (\<lambda>fwd.
        io_bind (case (cert args, key args) of
                   (Some c, Some k) \<Rightarrow> io_bind (watch_tls_files (files env) c k) (\<lambda>w. Inr (Some w))
                 | _ \<Rightarrow> Inr None) (\<lambda>watch.
        io_bind (tls_config (tls env) (server_sni args) (cert args) (key args)) (\<lambda>(config, allowlist).
        io_bind (panel_sync_config_of args) (\<lambda>panel.
        io_bind (case panel of None \<Rightarrow> Inr () | Some c \<Rightarrow> sync_initial env c) (\<lambda>_.
        io_bind (case server_padding_scheme args of
                   Some path \<Rightarrow>
                     io_bind (read_file env path) (\<lambda>content.
                       case padding_new (md5_digest env) content of None \<Rightarrow> Inl InvalidInput | Some pf \<Rightarrow> Inr pf)
                 | None \<Rightarrow> Inr (the (padding_new (md5_digest env) DEFAULT_SCHEME))) (\<lambda>pf.
        io_bind (bound env) (\<lambda>_.
          Inr (Inr \<lparr>tls_watch = watch, forward_target = fwd, server_tls_config = config, probe_sni_allowlist = allowlist,
                    panel_config = panel, padding_factory_in_use = pf\<rparr>)))))))))"

section \<open>Properties\<close>

lemma replace_char_absent: "c \<notin> set s \<Longrightarrow> replace_char c t s = s"
  by (induction s) (auto simp: replace_char_def)

text \<open>The URI a server prints for its clients is the URI a client prints for the same server, password
  and server name: both printers agree for every IP address, the brackets of an IPv6 address and
  the omission of the default port included.\<close>

theorem share_url_is_client_url:
  assumes "form_ok api"
    and "addr_host api a = ip_text ips ip" and "addr_is_ipv6 api a = ip_is_ipv6 ips ip" and "addr_port api a = port"
    and "CHR ''%'' \<notin> set (ip_text ips ip)" and "ip_is_ipv6 ips ip = (CHR '':'' \<in> set (ip_text ips ip))"
  shows "format_url api ((default_args anyaddr)\<lparr>server := Some a, password := Some pw, sni := sni_opt\<rparr>) =
     Inr (format_anytls_url api ips (ip, port) pw sni_opt)"
proof -
  have "form_serialize api ps = [] \<longleftrightarrow> ps = []" for ps using assms(1) by (simp add: form_ok_def)
  then show ?thesis using assms(2-6)
    by (auto simp: format_url_def format_anytls_url_def userinfo_sets_agree format_host_def format_auth_def query_pairs_def default_args_def
        replace_char_absent Let_def split: option.splits)
qed

theorem share_url_is_client_url_witness:
  "format_url sample_cli ((default_args (''h'', 1))\<lparr>server := Some (''10.0.0.1'', 8443), password := Some ''p@ss'', sni := Some ''edge''\<rparr>) =
     Inr (format_anytls_url sample_cli \<lparr>ip_text = id, ip_is_ipv6 = (\<lambda>s. CHR '':'' \<in> set s), ip_parse = Some\<rparr> (''10.0.0.1'', 8443) ''p@ss'' (Some ''edge''))"
  by (rule share_url_is_client_url [OF sample_cli_ok(2)]) (simp_all add: sample_cli_def)

lemma validate_forward_url_ok:
  "validate_forward_url x = Inr y \<Longrightarrow>
     y = x \<and> (case x of None \<Rightarrow> True | Some u \<Rightarrow> Server_Gate.url_scheme u \<in> {''http'', ''https''} \<and> host_str u \<noteq> None)"
  by (cases x) (auto simp: validate_forward_url_def split: if_splits)

text \<open>A server that starts has a sound configuration: a forward target only with the scheme http or
  https and a host, a certificate together with its key, both then watched for changes, or neither, panel settings either complete,
  with an interval of at least five seconds and a first synchronisation that succeeded, or
  entirely absent, and a padding scheme that was parsed from the given file or is the built-in one.\<close>

theorem started_server_is_configured:
  assumes "run_server_start env args = Inr (Inr start)"
  shows "(case forward_target start of None \<Rightarrow> forward args = None
           | Some u \<Rightarrow> forward args = Some u \<and> Server_Gate.url_scheme u \<in> {''http'', ''https''} \<and> host_str u \<noteq> None) \<and>
     (cert args = None) = (key args = None) \<and>
     (case (cert args, key args) of
        (Some c, Some k) \<Rightarrow> (\<exists>w. tls_watch start = Some w \<and> watch_tls_files (files env) c k = Inr w)
      | _ \<Rightarrow> tls_watch start = None) \<and>
     (case panel_config start of
        None \<Rightarrow> panel_webapi_url args = None \<and> panel_webapi_token args = None \<and> panel_node_id args = None
      | Some c \<Rightarrow> panel_sync_enabled args \<and> is_configured c \<and> 5 \<le> interval_secs c \<and>
          update_interval_secs c = Some (interval_secs c) \<and> sync_initial env c = Inr ()) \<and>
     (case server_padding_scheme args of
        None \<Rightarrow> raw_scheme (padding_factory_in_use start) = DEFAULT_SCHEME
      | Some path \<Rightarrow> (\<exists>content. read_file env path = Inr content \<and>
          padding_new (md5_digest env) content = Some (padding_factory_in_use start)))"
proof -
  from assms obtain fwd config allowlist panel pf watch where
    watch: "(case (cert args, key args) of
        (Some c, Some k) \<Rightarrow> io_bind (watch_tls_files (files env) c k) (\<lambda>w. Inr (Some w)) | _ \<Rightarrow> Inr None) = Inr watch" and
    fwd: "validate_forward_url (forward args) = Inr fwd" and
    conf: "tls_config (tls env) (server_sni args) (cert args) (key args) = Inr (config, allowlist)" and
    panel: "panel_sync_config_of args = Inr panel" and
    sync: "(case panel of None \<Rightarrow> Inr () | Some c \<Rightarrow> sync_initial env c) = Inr ()" and
    pf: "(case server_padding_scheme args of
            Some path \<Rightarrow> io_bind (read_file env path) (\<lambda>content.
              case padding_new (md5_digest env) content of None \<Rightarrow> Inl InvalidInput | Some pf \<Rightarrow> Inr pf)
          | None \<Rightarrow> Inr (the (padding_new (md5_digest env) DEFAULT_SCHEME))) = Inr pf" and
    start: "tls_watch start = watch" "forward_target start = fwd" "panel_config start = panel" "padding_factory_in_use start = pf"
    by (auto simp: run_server_start_def io_bind_Inr_iff split: if_splits)
  have "case fwd of None \<Rightarrow> forward args = None
      | Some u \<Rightarrow> forward args = Some u \<and> Server_Gate.url_scheme u \<in> {''http'', ''https''} \<and> host_str u \<noteq> None"
    using validate_forward_url_ok [OF fwd] by (simp split: option.splits)
  moreover have "(cert args = None) = (key args = None)"
    using conf by (auto simp: tls_config_def split: option.splits)
  moreover have "case (cert args, key args) of
        (Some c, Some k) \<Rightarrow> (\<exists>w. watch = Some w \<and> watch_tls_files (files env) c k = Inr w)
      | _ \<Rightarrow> watch = None"
    using watch by (auto simp: io_bind_Inr_iff split: option.splits)
  moreover have "case panel of
        None \<Rightarrow> panel_webapi_url args = None \<and> panel_webapi_token args = None \<and> panel_node_id args = None
      | Some c \<Rightarrow> panel_sync_enabled args \<and> is_configured c \<and> 5 \<le> interval_secs c \<and>
          update_interval_secs c = Some (interval_secs c) \<and> sync_initial env c = Inr ()"
    using panel sync
    by (auto simp: panel_sync_config_of_def panel_sync_enabled_def is_configured_def interval_secs_def Let_def
        split: option.splits if_splits)
  moreover have "case server_padding_scheme args of
        None \<Rightarrow> raw_scheme pf = DEFAULT_SCHEME
      | Some path \<Rightarrow> (\<exists>content. read_file env path = Inr content \<and> padding_new (md5_digest env) content = Some pf)"
    using pf by (auto simp: io_bind_Inr_iff padding_new_default split: option.splits)
  ultimately show ?thesis unfolding start by (intro conjI)
qed

definition sample_files :: "bool path_api" where
  "sample_files =
     \<lparr>is_absolute = (\<lambda>_. True), current_dir = Inl PermissionDenied, join_path = (\<lambda>_ name. name), parent_dir = (\<lambda>_. Some True),
      file_name = Some, canonicalize = Inr, recommended_watcher = Some (), watch_dir = (\<lambda>_. Some ())\<rparr>"

theorem started_server_is_configured_witness:
  "\<exists>start. run_server_start
       \<lparr>args_text = Inl OtherError, url_text = (\<lambda>_. Inl OtherError), files = sample_files,
        tls = \<lparr>read_certs = (\<lambda>_. Inr [()]), read_private_key = (\<lambda>_. Inr (Some ())), san_dns_names = (\<lambda>_. None),
               self_signed = (\<lambda>_. None), with_single_cert = (\<lambda>_ _. Some ())\<rparr>,
        sync_initial = (\<lambda>_. Inr ()), read_file = (\<lambda>_. Inl PermissionDenied), md5_digest = id, bound = Inr ()\<rparr>
       \<lparr>listen_port = 8443, server_password = Some ''secret'', server_padding_scheme = None, server_sni = Some ''edge'',
        forward = None, cert = Some True, key = Some False, panel_webapi_url = Some (), panel_webapi_token = Some ''t'',
        panel_node_id = Some 42, panel_update_interval_secs = Some 2, print_args = False, server_print_url = False\<rparr> = Inr (Inr start) \<and>
     raw_scheme (padding_factory_in_use start) = DEFAULT_SCHEME"
proof -
  let ?env = "\<lparr>args_text = Inl OtherError, url_text = (\<lambda>_. Inl OtherError), files = sample_files,
        tls = \<lparr>read_certs = (\<lambda>_. Inr [()]), read_private_key = (\<lambda>_. Inr (Some ())), san_dns_names = (\<lambda>_. None),
               self_signed = (\<lambda>_. None), with_single_cert = (\<lambda>_ _. Some ())\<rparr>,
        sync_initial = (\<lambda>_. Inr ()), read_file = (\<lambda>_. Inl PermissionDenied), md5_digest = id, bound = Inr ()\<rparr>"
  let ?args = "\<lparr>listen_port = 8443, server_password = Some ''secret'', server_padding_scheme = None, server_sni = Some ''edge'',
        forward = None, cert = Some True, key = Some False, panel_webapi_url = Some (), panel_webapi_token = Some ''t'',
        panel_node_id = Some 42, panel_update_interval_secs = Some 2, print_args = False, server_print_url = False\<rparr>"
  obtain start where s: "run_server_start ?env ?args = Inr (Inr start)"
    by (simp add: run_server_start_def validate_forward_url_def tls_config_def panel_sync_config_of_def
        watch_tls_files_def normalize_path_def absolute_path_def sample_files_def map_filter_def)
  from started_server_is_configured [OF s] s show ?thesis by auto
qed

end
