(* ===== verification/Ffi.thy ===== *)
theory Ffi
  imports Client_Args Transition
begin

text \<open>
  The C interface (\<^verbatim>\<open>src/ffi.rs\<close>) and the log callback (\<^verbatim>\<open>src/log_callback.rs\<close>). A C string is the option
  of its bytes before the NUL, \<open>None\<close> for the null pointer; a buffer is the option of its bytes. The
  splitting of a command line and its parsing by \<^verbatim>\<open>clap\<close>, the logger of the process and the runtime
  are parameters.
\<close>

section \<open>Command lines\<close>

definition from_cli_string ::
  "('a, 'u) cli_api \<Rightarrow> (string \<Rightarrow> string list option) \<Rightarrow> (string list \<Rightarrow> ('a, 'u) client_args option) \<Rightarrow> string
     \<Rightarrow> ('a, 'u) client_args io_result" where
  "from_cli_string api shlex_split try_parse_from command_line =
     (case shlex_split command_line of
        None \<Rightarrow> Inl InvalidInput
      | Some arguments \<Rightarrow>
          (case try_parse_from arguments of None \<Rightarrow> Inl InvalidInput | Some args \<Rightarrow> resolve api args))"

definition c_command_line :: "byte list option \<Rightarrow> string io_result" where
  "c_command_line command_line =
     (case command_line of
        None \<Rightarrow> Inl InvalidInput
      | Some bs \<Rightarrow> (case from_utf8 bs of None \<Rightarrow> Inl InvalidInput | Some s \<Rightarrow> Inr s))"

section \<open>Generating a URI\<close>

definition generate_url ::
  "('a, 'u) cli_api \<Rightarrow> (string \<Rightarrow> string list option) \<Rightarrow> (string list \<Rightarrow> ('a, 'u) client_args option) \<Rightarrow> string \<Rightarrow> string io_result" where
  "generate_url api shlex_split try_parse_from command_line =
     io_bind (from_cli_string api shlex_split try_parse_from command_line) (format_url api)"

text \<open>The copy of the URI and its NUL into the caller's buffer, which has at least the size it is given
  with: the result and the buffer after the call. \<^verbatim>\<open>checked_add\<close> fails at the width of \<^verbatim>\<open>usize\<close>.\<close>

definition write_c_string :: "string \<Rightarrow> byte list option \<Rightarrow> nat \<Rightarrow> nat \<times> byte list option" where
  "write_c_string s buf sz =
     (if length s = 2 ^ 64 - 1 then (0, buf)
      else
        let required = length s + 1
        in case buf of
             None \<Rightarrow> (required, None)
           | Some bs \<Rightarrow>
               if sz < required then (required, buf)
               else (required, Some (as_bytes s @ [0] @ drop required bs)))"

definition anytls_generate_url ::
  "('a, 'u) cli_api \<Rightarrow> (string \<Rightarrow> string list option) \<Rightarrow> (string list \<Rightarrow> ('a, 'u) client_args option) \<Rightarrow> byte list option
     \<Rightarrow> byte list option \<Rightarrow> nat \<Rightarrow> nat \<times> byte list option" where
  "anytls_generate_url api shlex_split try_parse_from command_line buf sz =
     (case io_bind (c_command_line command_line) (generate_url api shlex_split try_parse_from) of
        Inl _ \<Rightarrow> (0, buf)
      | Inr u \<Rightarrow> write_c_string u buf sz)"

section \<open>Running and stopping a client\<close>

text \<open>The static token, here the number of the run it belongs to, the runs that are inside \<^verbatim>\<open>block_on\<close>,
  and the runs whose token was cancelled.\<close>

record ffi_state =
  client_token :: "nat option"
  active :: "nat list"
  cancelled :: "nat set"
  next_run :: nat

text \<open>\<^verbatim>\<open>anytls_client_run\<close> up to \<^verbatim>\<open>block_on\<close>: \<open>args\<close> and \<open>runtime\<close> are the outcomes of what comes before the
  lock. The end of it, and \<^verbatim>\<open>anytls_client_stop\<close>.\<close>

definition client_run_enter :: "unit io_result \<Rightarrow> unit io_result \<Rightarrow> ffi_state \<Rightarrow> nat io_result \<times> ffi_state" where
  "client_run_enter args runtime s =
     (case io_bind args (\<lambda>_. runtime) of
        Inl e \<Rightarrow> (Inl e, s)
      | Inr _ \<Rightarrow>
          (let k = next_run s; s1 = s\<lparr>next_run := k + 1\<rparr>
           in if client_token s \<noteq> None then (Inl AlreadyExists, s1)
              else (Inr k, s1\<lparr>client_token := Some k, active := k # active s\<rparr>)))"

definition client_run_leave :: "nat \<Rightarrow> ffi_state \<Rightarrow> ffi_state" where
  "client_run_leave k s = s\<lparr>active := removeAll k (active s), client_token := None\<rparr>"

definition client_run_code :: "unit io_result \<Rightarrow> int" where
  "client_run_code result = (if is_ok result then 0 else - 1)"

definition anytls_client_stop :: "ffi_state \<Rightarrow> int \<times> ffi_state" where
  "anytls_client_stop s =
     (0, case client_token s of None \<Rightarrow> s | Some k \<Rightarrow> s\<lparr>cancelled := insert k (cancelled s)\<rparr>)"

inductive ffi_step :: "ffi_state \<Rightarrow> ffi_state \<Rightarrow> bool" where
  entered: "ffi_step s (snd (client_run_enter args runtime s))"
| left: "k \<in> set (active s) \<Longrightarrow> ffi_step s (client_run_leave k s)"
| stopped: "ffi_step s (snd (anytls_client_stop s))"

definition ffi_init :: "ffi_state \<Rightarrow> bool" where
  "ffi_init s \<longleftrightarrow> s = \<lparr>client_token = None, active = [], cancelled = {}, next_run = 0\<rparr>"

text \<open>The token is that of the one active run, and only runs that have been entered are cancelled.\<close>

definition ffi_inv :: "ffi_state \<Rightarrow> bool" where
  "ffi_inv s \<longleftrightarrow> active s = (case client_token s of None \<Rightarrow> [] | Some k \<Rightarrow> [k]) \<and>
     (\<forall>k \<in> cancelled s. k < next_run s) \<and> (\<forall>k. client_token s = Some k \<longrightarrow> k < next_run s)"

interpretation ffi: invariant_system ffi_init ffi_step ffi_inv
proof
  show "ffi_inv s" if "ffi_init s" for s using that by (simp add: ffi_init_def ffi_inv_def)
  show "ffi_inv s'" if "ffi_inv s" "ffi_step s s'" for s s'
    using that(2,1)
    by cases (auto simp: ffi_inv_def client_run_enter_def client_run_leave_def anytls_client_stop_def Let_def less_SucI
        split: sum.splits option.splits if_splits)
qed

section \<open>Log levels and the log callback\<close>

datatype log_level = Off | Error | Warn | Info | Debug | Trace

fun level_rank :: "log_level \<Rightarrow> nat" where
  "level_rank Off = 0" | "level_rank Error = 1" | "level_rank Warn = 2"
| "level_rank Info = 3" | "level_rank Debug = 4" | "level_rank Trace = 5"

record 'cb log_state =
  log_registered :: "'cb option"
  logger_installed :: bool
  max_level :: log_level

text \<open>\<open>installs\<close> is the answer of the \<^verbatim>\<open>log\<close> crate, which refuses a second logger.\<close>

definition install_logger :: "bool \<Rightarrow> 'cb log_state \<Rightarrow> bool \<times> 'cb log_state" where
  "install_logger installs s =
     (if logger_installed s then (True, s)
      else if installs then (True, s\<lparr>logger_installed := True\<rparr>) else (False, s))"

definition set_log_callback :: "bool \<Rightarrow> bool \<Rightarrow> 'cb option \<Rightarrow> 'cb log_state \<Rightarrow> 'cb log_state" where
  "set_log_callback installs set_logger callback s =
     (let s1 = s\<lparr>log_registered := callback\<rparr>
      in if set_logger
         then (let (ok, s2) = install_logger installs s1 in if ok then s2\<lparr>max_level := Trace\<rparr> else s2)
         else s1)"

definition prepare_ffi_client :: "bool \<Rightarrow> log_level \<Rightarrow> 'cb log_state \<Rightarrow> 'cb log_state" where
  "prepare_ffi_client installs level s =
     (let (available, s1) = (if log_registered s \<noteq> None then install_logger installs s else (logger_installed s, s))
      in if available then s1\<lparr>max_level := level\<rparr> else s1)"

definition should_forward :: "string \<Rightarrow> bool" where
  "should_forward module_path \<longleftrightarrow>
     \<not> list_ex (\<lambda>m. module_path = m \<or>
          (case strip_prefix m module_path of Some rest \<Rightarrow> take 2 rest = ''::'' | None \<Rightarrow> False))
        [''rustls'', ''tungstenite'', ''tokio_tungstenite'']"

text \<open>A record that reached the logger: whether this thread is inside the callback already, the record's
  module path and target, and the text of level and message. \<open>render\<close> is the format of the line.
  The result is the call of the callback with its C string.\<close>

definition callback_log ::
  "(log_level \<Rightarrow> string \<Rightarrow> string \<Rightarrow> string) \<Rightarrow> bool \<Rightarrow> log_level \<Rightarrow> string option \<Rightarrow> string \<Rightarrow> string \<Rightarrow> 'cb log_state
     \<Rightarrow> ('cb \<times> log_level \<times> byte list) option" where
  "callback_log render in_callback level module_path target message s =
     (if in_callback then None
      else if level_rank level > level_rank Trace then None
      else if \<not> should_forward (case module_path of None \<Rightarrow> [] | Some m \<Rightarrow> m) then None
      else case log_registered s of
        None \<Rightarrow> None
      | Some cb \<Rightarrow>
          (let line = as_bytes (replace_char (CHR 0x00) [CHR 0x5C, CHR ''0'']
                 (render level (case module_path of None \<Rightarrow> target | Some m \<Rightarrow> m) message))
           in if 0 \<in> set line then None else Some (cb, level, line)))"

text \<open>The levels of the \<^verbatim>\<open>log\<close> crate and those of the C interface.\<close>

datatype level_filter = Filter_Off | Filter_Error | Filter_Warn | Filter_Info | Filter_Debug | Filter_Trace

fun to_level_filter :: "log_level \<Rightarrow> level_filter" where
  "to_level_filter Off = Filter_Off" | "to_level_filter Error = Filter_Error" | "to_level_filter Warn = Filter_Warn"
| "to_level_filter Info = Filter_Info" | "to_level_filter Debug = Filter_Debug" | "to_level_filter Trace = Filter_Trace"

fun of_level_filter :: "level_filter \<Rightarrow> log_level" where
  "of_level_filter Filter_Off = Off" | "of_level_filter Filter_Error = Error" | "of_level_filter Filter_Warn = Warn"
| "of_level_filter Filter_Info = Info" | "of_level_filter Filter_Debug = Debug" | "of_level_filter Filter_Trace = Trace"

text \<open>The thread-local flag: \<^verbatim>\<open>enter\<close> reads and sets it, dropping the guard clears it.\<close>

definition guard_enter :: "bool \<Rightarrow> bool \<times> bool" where
  "guard_enter in_callback = (\<not> in_callback, True)"

definition guard_drop :: "bool \<Rightarrow> bool" where
  "guard_drop in_callback = False"

text \<open>A record with the records the callback itself logs when it is given this one.\<close>

datatype log_record = LogRecord log_level "string option" string string "log_record list"

text \<open>The records of one thread, one after the other: the calls of the callback and the flag at the end.\<close>

fun log_thread ::
  "(log_level \<Rightarrow> string \<Rightarrow> string \<Rightarrow> string) \<Rightarrow> 'cb log_state \<Rightarrow> bool \<Rightarrow> log_record list
     \<Rightarrow> ('cb \<times> log_level \<times> byte list) list \<times> bool" where
  "log_thread render s flag [] = ([], flag)"
| "log_thread render s flag (LogRecord level module_path target message nested # rs) =
     (let (entered, flag1) = guard_enter flag
      in case callback_log render (\<not> entered) level module_path target message s of
           None \<Rightarrow> log_thread render s (if entered then guard_drop flag1 else flag1) rs
         | Some call \<Rightarrow>
             (let (calls, flag2) = log_thread render s flag1 nested;
                  (rest, flag3) = log_thread render s (guard_drop flag2) rs
              in (call # calls @ rest, flag3)))"

section \<open>Properties\<close>

lemma level_filter_roundtrip: "of_level_filter (to_level_filter l) = l" "to_level_filter (of_level_filter f) = f"
  by (cases l, simp_all) (cases f, simp_all)

lemma log_thread_inside: "log_thread render s True rs = ([], True)"
proof (induction rs)
  case (Cons r rs)
  then show ?case by (cases r) (simp add: guard_enter_def callback_log_def)
qed simp

text \<open>What the callback logs itself is discarded, and nothing else is: a thread that is not inside the
  callback delivers exactly its own records that the filter admits, each once, in order, and is
  outside the callback again afterwards.\<close>

theorem recursive_logs_discarded:
  "log_thread render s False rs =
     (List.map_filter (\<lambda>r. case r of LogRecord level module_path target message nested \<Rightarrow>
        callback_log render False level module_path target message s) rs, False)"
proof (induction rs)
  case (Cons r rs)
  then show ?case
    by (cases r) (simp add: guard_enter_def guard_drop_def log_thread_inside map_filter_def split: option.splits)
qed (simp add: map_filter_def)

text \<open>The buffer contract of the URI: the result is the size that is needed, zero for an invalid command
  line; a buffer that is missing or too small is left alone, and otherwise it starts with the URI
  and a NUL and is unchanged behind them. Asking with no buffer first and again with the answered
  size always succeeds.\<close>

theorem generate_url_contract:
  assumes "io_bind (c_command_line cmd) (generate_url api shlex_split try_parse_from) = Inr u" and "length u < 2 ^ 64 - 1"
    and "sz \<le> length bs"
  shows "anytls_generate_url api shlex_split try_parse_from cmd None 0 = (length u + 1, None)"
    and "sz \<le> length u \<Longrightarrow> anytls_generate_url api shlex_split try_parse_from cmd (Some bs) sz = (length u + 1, Some bs)"
    and "length u < sz \<Longrightarrow> \<exists>bs'. anytls_generate_url api shlex_split try_parse_from cmd (Some bs) sz = (length u + 1, Some bs') \<and>
      length bs' = length bs \<and> take (length u + 1) bs' = as_bytes u @ [0] \<and> drop (length u + 1) bs' = drop (length u + 1) bs"
  using assms by (auto simp: anytls_generate_url_def write_c_string_def)

text \<open>At most one client runs in a process, however runs and stops of several threads interleave: the
  token is that of the one active run, a stop cancels exactly that run, and a run that has not
  been entered yet is never cancelled in advance.\<close>

theorem one_client_per_process:
  assumes "ffi_init s0" and "ffi_step\<^sup>*\<^sup>* s0 s"
  shows "length (active s) \<le> 1 \<and> set (active s) \<subseteq> cancelled (snd (anytls_client_stop s)) \<and>
     cancelled (snd (anytls_client_stop s)) - cancelled s \<subseteq> set (active s) \<and> next_run s \<notin> cancelled s"
  using ffi.reachable_inv [OF assms]
  by (auto simp: ffi_inv_def anytls_client_stop_def split: option.splits)

text \<open>A line that is delivered to the callback is a C string, whatever the message contains: a NUL inside it is
  written as a backslash and a zero, so no record is lost for it.\<close>

lemma replace_nul: "CHR 0x00 \<notin> set (replace_char (CHR 0x00) [CHR 0x5C, CHR ''0''] s)"
  by (induction s) (auto simp: replace_char_def)

lemma as_bytes_nul: "0 \<in> set (as_bytes s) \<longleftrightarrow> CHR 0x00 \<in> set s"
proof -
  have "(of_char c :: byte) = 0 \<longleftrightarrow> c = CHR 0x00" for c
  proof
    assume "(of_char c :: byte) = 0"
    then have "unat (of_char c :: byte) = 0" by simp
    then have "(of_char c :: nat) = of_char (CHR 0x00)" by (simp add: unat_of_char)
    then show "c = CHR 0x00" by (simp only: of_char_eq_iff)
  qed simp
  then show ?thesis by (force simp: as_bytes_def)
qed

theorem no_log_line_lost:
  assumes "log_registered s = Some cb" and "should_forward (case module_path of None \<Rightarrow> [] | Some m \<Rightarrow> m)"
  shows "\<exists>line. callback_log render False level module_path target message s = Some (cb, level, line) \<and> 0 \<notin> set line"
  using assms replace_nul as_bytes_nul by (cases level) (auto simp: callback_log_def Let_def)

end
