(* ===== verification/Task_Drain.thy ===== *)
theory Task_Drain
  imports Prelude
begin

text \<open>
  How the programs end: the server (\<^verbatim>\<open>run_server\<close>, \<^verbatim>\<open>handle_connection\<close> and \<^verbatim>\<open>main\<close> in \<^verbatim>\<open>bin/server.rs\<close>) and the
  client (\<^verbatim>\<open>run_client\<close> in \<^verbatim>\<open>src/client_app.rs\<close>, \<^verbatim>\<open>main\<close> in \<^verbatim>\<open>bin/client.rs\<close>) wait for their tasks for a limited
  time and abort what is left. A task is the time in milliseconds it still needs once the
  cancellation token is set, \<open>None\<close> if it does not end by itself; tasks run side by side, and an
  aborted task ends at its next \<^verbatim>\<open>await\<close>, which takes no time here.
\<close>

section \<open>Waiting for tasks\<close>

type_synonym running_task = "nat option"

datatype task_end = Joined | Aborted

text \<open>A task after \<open>n\<close> milliseconds.\<close>

definition advance :: "nat \<Rightarrow> running_task \<Rightarrow> running_task" where
  "advance n t = map_option (\<lambda>d. d - n) t"

text \<open>\<^verbatim>\<open>timeout\<close> on one task: the time it takes. The task is polled before the timer.\<close>

definition timeout_join :: "nat \<Rightarrow> running_task \<Rightarrow> nat" where
  "timeout_join limit t = (case t of Some d \<Rightarrow> min d limit | None \<Rightarrow> limit)"

definition ended_by :: "nat \<Rightarrow> running_task \<Rightarrow> task_end" where
  "ended_by limit t = (case t of Some d \<Rightarrow> if d \<le> limit then Joined else Aborted | None \<Rightarrow> Aborted)"

text \<open>\<^verbatim>\<open>timeout\<close> on the loop over \<^verbatim>\<open>join_next\<close>, then \<^verbatim>\<open>abort_all\<close>: how every task ended and the time it took.\<close>

definition drain :: "nat \<Rightarrow> running_task list \<Rightarrow> task_end list \<times> nat" where
  "drain limit ts = (map (ended_by limit) ts, foldr (\<lambda>t. max (timeout_join limit t)) ts 0)"

section \<open>The three shutdowns\<close>

definition SERVER_TASK_LIMIT :: nat where "SERVER_TASK_LIMIT = 5000"
definition SERVER_DRAIN_LIMIT :: nat where "SERVER_DRAIN_LIMIT = 10000"
definition STREAM_DRAIN_LIMIT :: nat where "STREAM_DRAIN_LIMIT = 5000"
definition CLIENT_DRAIN_LIMIT :: nat where "CLIENT_DRAIN_LIMIT = 5000"

text \<open>The end of a server connection, with its relay tasks.\<close>

definition connection_drain :: "running_task list \<Rightarrow> task_end list \<times> nat" where
  "connection_drain stream_tasks = drain STREAM_DRAIN_LIMIT stream_tasks"

definition client_drain :: "running_task list \<Rightarrow> task_end list \<times> nat" where
  "client_drain connection_tasks = drain CLIENT_DRAIN_LIMIT connection_tasks"

text \<open>The end of \<^verbatim>\<open>run_server\<close>: the reload task, the panel task, then the connections.\<close>

definition run_server_end ::
  "unit io_result \<Rightarrow> running_task option \<Rightarrow> running_task option \<Rightarrow> running_task list
     \<Rightarrow> unit io_result \<times> task_end list \<times> nat" where
  "run_server_end accept_result reload_task panel_task connection_tasks =
     (let t1 = (case reload_task of None \<Rightarrow> 0 | Some t \<Rightarrow> timeout_join SERVER_TASK_LIMIT t);
          t2 = (case panel_task of None \<Rightarrow> 0 | Some t \<Rightarrow> timeout_join SERVER_TASK_LIMIT (advance t1 t));
          (ends, t3) = drain SERVER_DRAIN_LIMIT (map (advance (t1 + t2)) connection_tasks)
      in (accept_result, ends, t1 + t2 + t3))"

section \<open>The binaries\<close>

text \<open>
  The \<^verbatim>\<open>select!\<close> of \<^verbatim>\<open>main\<close>: the program ends by itself, or the signal handler ends first, with its own
  result, and the program, whose token it has cancelled, is waited for.
\<close>

datatype main_event = Program_Ended "unit io_result" | Signal_Handled "unit io_result" "unit io_result"

fun main_select :: "main_event \<Rightarrow> unit io_result" where
  "main_select (Program_Ended res) = res"
| "main_select (Signal_Handled handled res) = io_bind handled (\<lambda>_. res)"

definition server_main :: "unit io_result \<Rightarrow> main_event \<Rightarrow> unit io_result" where
  "server_main handler ev = io_bind handler (\<lambda>_. main_select ev)"

definition client_main :: "unit io_result \<Rightarrow> 'a io_result \<Rightarrow> ('a \<Rightarrow> main_event) \<Rightarrow> unit io_result" where
  "client_main handler args run = io_bind handler (\<lambda>_. io_bind args (\<lambda>a. main_select (run a)))"

section \<open>Properties\<close>

lemma timeout_join_le: "timeout_join limit t \<le> limit"
  by (simp add: timeout_join_def split: option.splits)

lemma timeout_join_advance: "n + timeout_join limit (advance n (Some d)) \<le> max n d"
  by (simp add: timeout_join_def advance_def)

lemma drain_time_le: "(\<forall>t\<in>set ts. timeout_join limit t \<le> b) \<Longrightarrow> snd (drain limit ts) \<le> b"
  unfolding drain_def by (induction ts) simp_all

lemma ended_by_advance:
  "ended_by limit (advance n t) = Joined \<longleftrightarrow> (\<exists>d. t = Some d \<and> d \<le> n + limit)"
  by (auto simp: ended_by_def advance_def split: option.splits)



end
