(* ===== verification/Spec2Isabelle.thy ===== *)
theory Spec2Isabelle
  imports Pool_Properties Session_Progress Tunnel_Runs Panel_Reports Client_Proxy Server_Args Ffi Task_Drain
begin

text \<open>
  \<^bold>\<open>A verification of anytls-rs.\<close> The program is a proxy that hides TCP connections and UDP datagrams in
  TLS connections with traffic padding. A client (\<^verbatim>\<open>src/client_app.rs\<close>) accepts local SOCKS5 and HTTP
  connections and takes a session to the server from its pool (\<^verbatim>\<open>src/client.rs\<close>) or dials a new one. A
  session (\<^verbatim>\<open>src/runtime/session.rs\<close>) carries one logical stream at a time as frames over TLS and pads
  the first packets by a scheme. The server (\<^verbatim>\<open>bin/server.rs\<close>) authenticates a connection, runs the other
  end of the session and relays each stream to its target; a connection that does not authenticate
  is relayed elsewhere. A management panel may list the clients and collect their traffic.

  \<^bold>\<open>Theories and sources.\<close>
  \<^item> Foundations. \<open>Prelude\<close>: machine types, \<^verbatim>\<open>io::Error\<close> kinds, the reader, the sink and their failures.
    \<open>Rust_Strings\<close>: the string functions of the standard library. \<open>Codec\<close>: the contract between an
    encoder and a decoder (locale \<open>codec\<close>, interpreted on the frame layer, on length-prefixed data
    and on UDP packets). \<open>Transition\<close>: step relations with reachability and invariants (locale
    \<open>invariant_system\<close>, interpreted on the session, the tunnel, the pool, the relay, the panel task, the TLS reload and the
    C interface).
  \<^item> Formats. \<open>Frame\<close> (\<^verbatim>\<open>src/core/frame.rs\<close>), \<open>String_Map\<close> (\<^verbatim>\<open>src/core/string_map.rs\<close>), \<open>Padding\<close>
    (\<^verbatim>\<open>src/core/padding.rs\<close>), \<open>Auth\<close> (\<^verbatim>\<open>src/core/auth.rs\<close>), \<open>Uot\<close> (\<^verbatim>\<open>src/uot.rs\<close>).
  \<^item> Session. \<open>Writer\<close>: the transport writer with its buffering and padding. \<open>Session_State\<close>,
    \<open>Session_Streams\<close>, \<open>Session_Receive\<close>, \<open>Session_Tasks\<close>: the state, the stream operations, the received
    commands, and the tasks as a step relation between their \<^verbatim>\<open>await\<close>s. \<open>Session_Keep\<close> and \<open>Session_System\<close>
    carry predicates through all of them (locales \<open>kept\<close>, \<open>kept_local\<close>, \<open>kept_receive\<close>, \<open>kept_steps\<close>),
    \<open>Session_Properties\<close> states the results, \<open>Session_Progress\<close> what keeps a session going, and
    \<open>Session_Runs\<close> executes sample runs. \<open>Stream_Handle\<close> is the application's handle of a stream and \<open>Stream_Io\<close>
    (\<^verbatim>\<open>src/runtime/stream_io.rs\<close>) its poll adapter.
  \<^item> Tunnel. \<open>Session_Wire\<close>: the frames a session writes. \<open>Session_Greeting\<close>: the first of them. \<open>Tunnel\<close>: a
    client and a server session, each reading what the other has written, in order, with padding
    frames in between. \<open>Tunnel_Runs\<close>: its properties and runs.
  \<^item> Client. \<open>Client_Args\<close> (\<^verbatim>\<open>src/cli/client.rs\<close>), \<open>Client_Pool\<close> (\<^verbatim>\<open>src/client.rs\<close>), \<open>Client_Listener\<close> and
    \<open>Client_Proxy\<close> (\<^verbatim>\<open>src/client_app.rs\<close>). \<open>Pool_Tasks\<close>: the pool as a system of callers, idle tasks, cleanup,
    shutdown and sessions; \<open>Pool_System\<close>: who owns a session; \<open>Pool_Properties\<close>: the results, \<open>Pool_Runs\<close>: a
    run, and that a call nobody interrupts is the \<^verbatim>\<open>create_stream\<close> of \<open>Client_Pool\<close>. \<open>Traffic_Status\<close> (\<^verbatim>\<open>src/traffic_status.rs\<close>), \<open>Ffi\<close>
    (\<^verbatim>\<open>src/ffi.rs\<close> and \<^verbatim>\<open>src/log_callback.rs\<close>).
  \<^item> Server. \<open>Server_Args\<close> (\<^verbatim>\<open>src/cli/server.rs\<close>, \<^verbatim>\<open>src/url_util.rs\<close> and the start of \<^verbatim>\<open>run_server\<close>),
    \<open>Server_Tls\<close>, \<open>Server_Gate\<close> and \<open>Server_Relay\<close> (\<^verbatim>\<open>bin/server.rs\<close>), \<open>Relay\<close> (\<^verbatim>\<open>src/relay.rs\<close>).
    \<open>Task_Drain\<close>: how the server, its connections and the client end, and both \<^verbatim>\<open>main\<close> functions
    (\<^verbatim>\<open>bin/server.rs\<close>, \<^verbatim>\<open>bin/client.rs\<close>, \<^verbatim>\<open>src/client_app.rs\<close>).
  \<^item> Panel. \<open>Traffic_Audit\<close> (\<^verbatim>\<open>src/panel_sync/traffic_audit.rs\<close>), \<open>Panel_Sync\<close> and \<open>Panel_Reports\<close>
    (\<^verbatim>\<open>src/panel_sync/core.rs\<close>).

  \<^bold>\<open>How the code is modelled.\<close> Structures are records and enums datatypes under their own names; an
  \<^verbatim>\<open>async fn\<close> is cut at its \<^verbatim>\<open>await\<close>s when another task can interfere there, and is one function
  otherwise. A \<^verbatim>\<open>select!\<close> is a choice between rules of a step relation or a list of the events that won.
  Results of \<^verbatim>\<open>std::io\<close> are values of a sum type with the kind of the error; message texts of errors
  and log lines are left out. Integers keep their width where the code computes with them. Instants
  are milliseconds and an argument of what reads the clock.

  \<^bold>\<open>What is shown.\<close>
  \<^item> Formats: what is encoded is decoded, whole sequences included; a message that is cut short is
    an error; the password is required; padding sizes are bounded.
  \<^item> Writer: the frames of the requests it has served are what the peer reads, whatever the padding;
    nothing leaves before the first SYN; a scheme with sizes beyond 16 bits breaks the framing.
  \<^item> Session, for every interleaving of its tasks: inbound data in order, one live stream, bounded
    queues, a shutdown that is final; the outcome of each received command; everything written is a
    sequence of well-formed frames. The writer can empty the queues in at most 257 steps (two for
    each of 128 queued requests and one for the request in hand), which lets every suspended
    operation go on, and a control request is written in its turn.
  \<^item> Pool, for every interleaving of its callers, its tasks and its sessions: at most four idle
    sessions, one owner for each session, no stream handed out twice; a pooled session is a session
    as above, and its reservation is never refused because of another stream.
  \<^item> Tunnel, for every interleaving of both sessions: the bytes an application reads are a prefix of
    what the other side has sent on the stream, with the end of file in its place; neither side
    refuses a frame of the other as invalid. A reused session may still be lost: a SYN can overtake
    the FIN of the stream before it.
  \<^item> Relay: what one side receives is a prefix of what the other sent, all of it on success, and the
    relay ends. Handle and adapter: one SYNACK at most, transparent polling.
  \<^item> Server: the gate agrees with the authentication component, a relayed probe sees every byte, a
    stream is charged for what it delivered, no change of the certificate files is missed, and a
    shutdown takes at most twenty seconds.
  \<^item> Client: the pool's invariant and its choice, the detection of the local protocol, certificate
    verification, URIs; one client per process behind the C interface. Client and server together:
    a dialled client is admitted, a UDP association is recognised, and its datagrams cross the tunnel.
  \<^item> Panel: the audit follows the list of the panel, and for every interleaving of traffic and reports
    each byte is reported once, except for a client that was removed and added again.

  \<^bold>\<open>Parameters.\<close> Code of other crates is an argument with named hypotheses on its documented behaviour:
  the digests (\<open>sha_ok\<close> for SHA-256, MD5 without one), random ranges (\<open>rng_ok\<close>), UUID text (\<open>uuid_ok\<close>,
  \<open>uuid_text_ok\<close>), percent and form encoding (\<open>pct_ok\<close>, \<open>form_ok\<close>), the order of a hash map's entries
  (\<open>order_ok\<close>), the address codec of \<^verbatim>\<open>socks5-impl\<close> (an instance of \<open>codec\<close>), HTTP outcomes, the \<^verbatim>\<open>url\<close>
  crate, PEM, X.509 and TLS. Each hypothesis is met by a concrete instance in a witness.

  \<^bold>\<open>Bounds.\<close> Every recursion is total, by structure or by a measure on the unread input (the receive
  loop, the relay, the reading of the header). Only \<open>decode_upto\<close> has fuel, the number of messages to
  read: every message has at least one byte, so the length of the input is always enough.

  \<^bold>\<open>Not modelled.\<close> The closures \<^verbatim>\<open>run_client\<close> builds around \<open>dial\<close>; adapters that only pass calls on
  (\<^verbatim>\<open>ForwardOutbound\<close>, \<^verbatim>\<open>HttpStreamIo\<close>); the label of a proxy connection in log lines; wrappers over raw pointers in the
  C interface; command-line parsing by \<^verbatim>\<open>clap\<close>; re-exports; the unit tests. The tunnel assumes that the
  transport delivers whole frames in order, which is what \<open>Writer\<close> and \<open>Frame\<close> show of the two ends. The step
  relations have no fairness: what is shown of progress is that the writer can always go on and
  whom it serves first. Shutdowns that the pool spawns are applied at once, which a session cannot
  tell from a shutdown of its own.
\<close>

end
